(* ===== verification/Prelude.thy ===== *)
theory Prelude
  imports Main "HOL-Library.Word" "HOL-Library.List_Lexorder" "HOL-Library.Char_ord"
    "HOL-Library.Sublist" "HOL-Library.Multiset"
begin

text \<open>
  Shared vocabulary of the development: Go's 64-bit signed integers as \<open>int\<close> with the
  wrap-around written out, fallible stateful code as a state-passing result, and the
  generic list lemmas the components use. Strings are byte lists (\<open>string\<close>), ordered
  lexicographically as Go orders them.
\<close>

named_theorems io_simps \<open>unfolding the result combinators\<close>
named_theorems go_simps \<open>definitions that are always safe to unfold\<close>

section \<open>Go integers\<close>

text \<open>
  An \<open>int64\<close> is an \<open>int\<close> in the range below; every addition, subtraction and
  multiplication of the source is followed by \<open>wrap64\<close>. A \<open>uint32\<close> is a \<open>32 word\<close>.
\<close>

definition is_int64 :: "int \<Rightarrow> bool" where
  "is_int64 x \<longleftrightarrow> - (2 ^ 63) \<le> x \<and> x < 2 ^ 63"

definition wrap64 :: "int \<Rightarrow> int" where
  "wrap64 x = (x + 2 ^ 63) mod 2 ^ 64 - 2 ^ 63"

lemma wrap64_id [simp]: "is_int64 x \<Longrightarrow> wrap64 x = x"
  by (simp add: is_int64_def wrap64_def)

lemma is_int64_wrap64 [simp]: "is_int64 (wrap64 x)"
proof -
  have "0 \<le> (x + 2 ^ 63) mod 2 ^ 64" and "(x + 2 ^ 63) mod 2 ^ 64 < 2 ^ 64"
    by simp_all
  then show ?thesis by (simp add: wrap64_def is_int64_def)
qed

lemma uint32_bounds [simp]: "0 \<le> uint (d :: 32 word)" "uint (d :: 32 word) < 4294967296"
  using uint_lt2p [of d] by simp_all

lemma uint32_pos_iff: "0 < uint (d :: 32 word) \<longleftrightarrow> d \<noteq> 0"
proof -
  have "uint d = 0 \<longleftrightarrow> d = 0" by (simp add: uint_0_iff)
  with uint_ge_0 [of d] show ?thesis by linarith
qed

lemma uint32_neq_0_pos [simp]: "uint (d :: 32 word) \<noteq> 0 \<Longrightarrow> 0 < uint d"
  using uint_ge_0 [of d] by linarith

lemma uint_word_of_int32:
  "0 \<le> x \<Longrightarrow> x < 2 ^ 32 \<Longrightarrow> uint (word_of_int x :: 32 word) = x"
  by (simp add: uint_word_of_int take_bit_int_eq_self)

text \<open>Go's \<open>/\<close> on integers, which truncates.\<close>

definition quo :: "int \<Rightarrow> int \<Rightarrow> int" where
  "quo a b = sgn a * sgn b * (\<bar>a\<bar> div \<bar>b\<bar>)"

lemma quo_nonneg: "0 \<le> a \<Longrightarrow> 0 < b \<Longrightarrow> quo a b = a div b"
  by (cases "a = 0") (simp_all add: quo_def)

section \<open>Fallible, stateful code\<close>

text \<open>
  A Go function that may return an error and that reads or writes the stores is a function
  of the state: \<open>Inl e\<close> is the non-nil error, \<open>Inr a\<close> the value with a nil error, and
  the state travels on both paths, since a failed call may have changed it.
\<close>

type_synonym ('e, 's, 'a) io = "'s \<Rightarrow> ('e + 'a) \<times> 's"

definition io_return :: "'a \<Rightarrow> ('e, 's, 'a) io" where
  "io_return a s = (Inr a, s)"

definition io_fail :: "'e \<Rightarrow> ('e, 's, 'a) io" where
  "io_fail e s = (Inl e, s)"

definition io_bind :: "('e, 's, 'a) io \<Rightarrow> ('a \<Rightarrow> ('e, 's, 'b) io) \<Rightarrow> ('e, 's, 'b) io" where
  "io_bind m f s = (case m s of (Inl e, t) \<Rightarrow> (Inl e, t) | (Inr a, t) \<Rightarrow> f a t)"

text \<open>\<open>if err != nil { return wrap(err) }\<close>\<close>

definition io_map_err :: "('e \<Rightarrow> 'e) \<Rightarrow> ('e, 's, 'a) io \<Rightarrow> ('e, 's, 'a) io" where
  "io_map_err w m s = (case m s of (Inl e, t) \<Rightarrow> (Inl (w e), t) | (Inr a, t) \<Rightarrow> (Inr a, t))"

text \<open>The error of a call is inspected and the call goes on: \<open>f\<close> sees the whole result.\<close>

definition io_try :: "('e, 's, 'a) io \<Rightarrow> ('e + 'a \<Rightarrow> ('e, 's, 'b) io) \<Rightarrow> ('e, 's, 'b) io" where
  "io_try m f s = (case m s of (r, t) \<Rightarrow> f r t)"

definition io_lift :: "'e + 'a \<Rightarrow> ('e, 's, 'a) io" where
  "io_lift r s = (r, s)"

definition io_check :: "'e option \<Rightarrow> ('e, 's, unit) io" where
  "io_check r s = (case r of None \<Rightarrow> (Inr (), s) | Some e \<Rightarrow> (Inl e, s))"

lemma io_return_eq [simp]: "io_return a s = (Inr b, t) \<longleftrightarrow> b = a \<and> t = s"
  "io_return a s \<noteq> (Inl e, t)"
  by (auto simp: io_return_def)

lemma io_fail_eq [simp]: "io_fail e s = (Inl f, t) \<longleftrightarrow> f = e \<and> t = s"
  "io_fail e s \<noteq> (Inr a, t)"
  by (auto simp: io_fail_def)

lemma io_bind_Inr:
  "io_bind m f s = (Inr b, u) \<longleftrightarrow> (\<exists>a t. m s = (Inr a, t) \<and> f a t = (Inr b, u))"
  by (auto simp: io_bind_def split: prod.splits sum.splits)

lemma io_bind_Inl:
  "io_bind m f s = (Inl e, u) \<longleftrightarrow>
     m s = (Inl e, u) \<or> (\<exists>a t. m s = (Inr a, t) \<and> f a t = (Inl e, u))"
  by (auto simp: io_bind_def split: prod.splits sum.splits)

lemma io_bind_run:
  "m s = (Inr a, t) \<Longrightarrow> io_bind m f s = f a t"
  "m s = (Inl e, t) \<Longrightarrow> io_bind m f s = (Inl e, t)"
  by (simp_all add: io_bind_def)

lemma io_map_err_run:
  "m s = (Inr a, t) \<Longrightarrow> io_map_err w m s = (Inr a, t)"
  "m s = (Inl e, t) \<Longrightarrow> io_map_err w m s = (Inl (w e), t)"
  by (simp_all add: io_map_err_def)

lemmas io_run = io_bind_run io_map_err_run

lemma io_map_err_Inr [simp]: "io_map_err w m s = (Inr a, t) \<longleftrightarrow> m s = (Inr a, t)"
  by (auto simp: io_map_err_def split: prod.splits sum.splits)

lemma io_map_err_Inl: "io_map_err w m s = (Inl e, t) \<longleftrightarrow> (\<exists>f. m s = (Inl f, t) \<and> e = w f)"
  by (auto simp: io_map_err_def split: prod.splits sum.splits)

lemma io_lift_eq [simp]: "io_lift r s = (q, t) \<longleftrightarrow> q = r \<and> t = s"
  by (auto simp: io_lift_def)

lemma io_check_eq [simp]: "io_check r s = (Inr x, t) \<longleftrightarrow> r = None \<and> t = s"
  "io_check r s = (Inl e, t) \<longleftrightarrow> r = Some e \<and> t = s"
  by (auto simp: io_check_def split: option.splits)

lemma io_try_eq: "io_try m f s = z \<longleftrightarrow> (\<exists>r t. m s = (r, t) \<and> f r t = z)"
  by (cases "m s") (simp add: io_try_def)

lemma snd_io_map_err [simp]: "snd (io_map_err w m s) = snd (m s)"
  by (auto simp: io_map_err_def split: prod.splits sum.splits)

lemmas io_cases = io_bind_Inr io_bind_Inl io_map_err_Inl

declare io_return_def [io_simps] io_fail_def [io_simps] io_bind_def [io_simps]
  io_map_err_def [io_simps] io_try_def [io_simps] io_lift_def [io_simps] io_check_def [io_simps]

text \<open>An invariant every step keeps is kept by their sequence, whichever way it ends.\<close>

lemma io_bind_keeps:
  assumes "P (snd (m s))" and "\<And>a t. m s = (Inr a, t) \<Longrightarrow> P (snd (f a t))"
  shows "P (snd (io_bind m f s))"
proof (cases "m s")
  case (Pair r t)
  with assms show ?thesis by (cases r) (auto simp: io_bind_def)
qed

text \<open>A call that only reads leaves the state alone, and so does a sequence of such calls.\<close>

named_theorems reads_intros \<open>composing calls that only read\<close>

definition reads :: "('e, 's, 'a) io \<Rightarrow> bool" where
  "reads m \<longleftrightarrow> (\<forall>s. snd (m s) = s)"

lemma readsD: "reads m \<Longrightarrow> m s = (r, t) \<Longrightarrow> t = s"
  unfolding reads_def by (metis snd_conv)

lemma reads_basic [reads_intros]:
  "reads (io_return a)" "reads (io_fail e)" "reads (io_lift r)" "reads (io_check c)" "reads (\<lambda>s. (f s, s))"
  by (simp_all add: reads_def io_return_def io_fail_def io_lift_def io_check_def split: option.splits)

lemma reads_bind [reads_intros]: "reads m \<Longrightarrow> (\<And>a. reads (f a)) \<Longrightarrow> reads (io_bind m f)"
  by (auto simp: reads_def io_bind_def split: prod.splits sum.splits) (metis snd_conv)+

lemma reads_try [reads_intros]: "reads m \<Longrightarrow> (\<And>r. reads (f r)) \<Longrightarrow> reads (io_try m f)"
  by (auto simp: reads_def io_try_def split: prod.splits) (metis snd_conv)

lemma reads_map_err [reads_intros]: "reads m \<Longrightarrow> reads (io_map_err w m)"
  by (simp add: reads_def)

lemma reads_branch [reads_intros]:
  "(b \<Longrightarrow> reads m) \<Longrightarrow> (\<not> b \<Longrightarrow> reads n) \<Longrightarrow> reads (if b then m else n)"
  "reads m \<Longrightarrow> (\<And>x. reads (f x)) \<Longrightarrow> reads (case y of None \<Rightarrow> m | Some x \<Rightarrow> f x)"
  "(\<And>e. reads (g e)) \<Longrightarrow> (\<And>x. reads (h x)) \<Longrightarrow> reads (case z of Inl e \<Rightarrow> g e | Inr x \<Rightarrow> h x)"
  "(\<And>a b. reads (k a b)) \<Longrightarrow> reads (case p of (a, b) \<Rightarrow> k a b)"
  by (auto split: option.splits sum.splits prod.splits)

section \<open>Lists\<close>

text \<open>\<open>slices.Compact\<close> after \<open>slices.Sort\<close>: the strictly ascending list of the elements.\<close>

lemma sorted_remdups_adj_strict:
  "sorted (xs :: 'a :: linorder list) \<Longrightarrow> sorted_wrt (<) (remdups_adj xs)"
  by (induction xs rule: remdups_adj.induct) (auto simp: order_le_less)

definition lock_order :: "'a :: linorder list \<Rightarrow> 'a list" where
  "lock_order keys = remdups_adj (sort keys)"

lemma set_lock_order [simp]: "set (lock_order keys) = set keys"
  by (simp add: lock_order_def)

lemma lock_order_sorted: "sorted_wrt (<) (lock_order keys)"
  by (simp add: lock_order_def sorted_remdups_adj_strict)

lemma sum_list_map_nonneg:
  "(\<And>x. x \<in> set xs \<Longrightarrow> 0 \<le> f x) \<Longrightarrow> 0 \<le> (\<Sum>x\<leftarrow>xs. f x :: 'a :: ordered_comm_monoid_add)"
  by (induction xs) (auto intro: add_nonneg_nonneg)

lemma sum_list_filter_mono:
  "(\<And>x. x \<in> set xs \<Longrightarrow> 0 \<le> f x) \<Longrightarrow> (\<And>x. x \<in> set xs \<Longrightarrow> P x \<Longrightarrow> Q x) \<Longrightarrow>
   (\<Sum>x\<leftarrow>filter P xs. f x :: 'a :: ordered_comm_monoid_add) \<le> (\<Sum>x\<leftarrow>filter Q xs. f x)"
proof (induction xs)
  case Nil
  then show ?case by simp
next
  case (Cons x xs)
  then have IH: "(\<Sum>x\<leftarrow>filter P xs. f x) \<le> (\<Sum>x\<leftarrow>filter Q xs. f x)" and "0 \<le> f x"
    by auto
  then have "(\<Sum>x\<leftarrow>filter P xs. f x) \<le> f x + (\<Sum>x\<leftarrow>filter Q xs. f x)"
    by (metis add_increasing)
  with IH Cons.prems show ?case by (auto intro: add_left_mono)
qed

end
