(* ===== verification/Errors.thy ===== *)
theory Errors
  imports Prelude
begin

text \<open>
  The error values of the server's Go packages and the traversal that \<open>errors.Is\<close> and
  \<open>errors.As\<close> make of them. A formatted error is \<open>Errorf tag es\<close>: \<open>tag\<close> is its fixed
  text (the formatted arguments are dropped, no code branches on them) and \<open>es\<close> the errors
  it wraps with \<open>%w\<close>, in order; \<open>errors.New\<close> is \<open>Errorf tag []\<close> and \<open>errors.Join\<close>
  is \<open>Errorf ''join'' es\<close>. A runtime panic (a nil dereference, a \<open>panic\<close> call) is the
  value \<open>Panic\<close>, so that the theorems can say it is not reached.
\<close>

datatype ConflictCode =
    ConflictFleetWindow
  | ConflictGrantNotLive
  | ConflictNotExecutable
  | ConflictModeNotTarget
  | ConflictOutsideFleet
  | ConflictZeroDuration
  | ConflictOutsideInterval
  | ConflictDirection
  | ConflictPower
  | ConflictEnergy
  | ConflictOverlap

datatype RefusalCode =
    RefusalPENNotConfigured
  | RefusalInvalidProgramHref
  | RefusalProgramNotFound
  | RefusalNoControlListLink
  | RefusalStartInPast
  | RefusalStartTooFarAhead
  | RefusalDurationOutOfRange
  | RefusalUnknownType
  | RefusalMissingValue
  | RefusalUnexpectedValue
  | RefusalValueOutOfRange
  | RefusalControlNotFound
  | RefusalAlreadyCancelled
  | RefusalAlreadySuperseded
  | RefusalEnded
  | RefusalInvalidDescription
  | RefusalTypeAndFunctions

datatype UndoStep =
    UndoStepStoreLifecycle
  | UndoStepStoreControl
  | UndoStepMarkSuperseded
  | UndoStepCancel
  | UndoStepRelink
  | UndoStepStoreRecord

text \<open>
  \<open>UndoError step controlKept lifecycleKept id unreverted cause reverts\<close> is the issuer's
  \<open>*UndoError\<close>; its \<open>Scope\<close> and \<open>MRID\<close> fields, which only name the control in a log,
  are left out. \<open>AcrossItemErrors items es\<close> holds the numbers of the refused items and their
  errors, \<open>AcrossUndoError items es cause\<close> those of the items that may remain; the latter
  has no \<open>Unwrap\<close>.
\<close>

datatype err =
    ErrNotFound
  | ErrAlreadyExists
  | ErrUnsupportedSort
  | ErrInvalidListOptions
  | ErrMRIDConflict
  | ErrMRIDShared
  | ErrNoGrant
  | ErrNoLFDI
  | ErrNoLedger
  | ErrFleetNotLocked
  | ErrUndo
  | ErrBadReplacement
  | ErrUncheckedCommitment
  | ErrNotExecution
  | ErrRelinkNotStarted
  | ErrInvalidOrigin
  | ErrAcrossGrant
  | ErrAcrossOverlap
  | ErrInvalidManagementPair
  | ErrCanceled
  | ErrDeadlineExceeded
  | ConflictError ConflictCode string
  | RefusalError RefusalCode
  | NothingWrittenError err
  | UndoError UndoStep bool bool string "string list" err "err list"
  | LiveControlsError "string list"
  | RevisionStoredError string string
  | AcrossItemErrors "nat list" "err list"
  | AcrossUndoError "nat list" "err list" err
  | Errorf string "err list"
  | Panic string

text \<open>The errors an error wraps, itself first, in the pre-order \<open>errors.Is\<close> walks.\<close>

fun err_tree :: "err \<Rightarrow> err list" where
  "err_tree (NothingWrittenError e) = NothingWrittenError e # err_tree e"
| "err_tree (UndoError st ck lk i us c rs) =
     UndoError st ck lk i us c rs # err_tree c @ concat (map err_tree rs)"
| "err_tree (AcrossItemErrors ns es) = AcrossItemErrors ns es # concat (map err_tree es)"
| "err_tree (RevisionStoredError d i) = [RevisionStoredError d i, ErrAlreadyExists]"
| "err_tree (Errorf tag es) = Errorf tag es # concat (map err_tree es)"
| "err_tree e = [e]"

definition err_is :: "err \<Rightarrow> err \<Rightarrow> bool" where
  "err_is e target \<longleftrightarrow> target \<in> set (err_tree e)"

text \<open>\<open>errors.As(err, &conflict)\<close>: the first \<open>*ConflictError\<close> of the walk.\<close>

fun conflict_of :: "err list \<Rightarrow> (ConflictCode \<times> string) option" where
  "conflict_of [] = None"
| "conflict_of (ConflictError c m # es) = Some (c, m)"
| "conflict_of (e # es) = conflict_of es"

definition as_conflict :: "err \<Rightarrow> (ConflictCode \<times> string) option" where
  "as_conflict e = conflict_of (err_tree e)"

fun refusal_of :: "err list \<Rightarrow> RefusalCode option" where
  "refusal_of [] = None"
| "refusal_of (RefusalError c # es) = Some c"
| "refusal_of (e # es) = refusal_of es"

definition as_refusal :: "err \<Rightarrow> RefusalCode option" where
  "as_refusal e = refusal_of (err_tree e)"

text \<open>\<open>errors.As(err, &undo)\<close> for the issuer's \<open>*UndoError\<close>.\<close>

fun is_UndoError :: "err \<Rightarrow> bool" where
  "is_UndoError (UndoError _ _ _ _ _ _ _) = True"
| "is_UndoError _ = False"

definition as_undo :: "err \<Rightarrow> bool" where
  "as_undo e \<longleftrightarrow> (\<exists>f \<in> set (err_tree e). is_UndoError f)"

lemma err_tree_self [simp]: "e \<in> set (err_tree e)"
  by (cases e) simp_all

lemma err_is_refl [simp]: "err_is e e"
  by (simp add: err_is_def)

lemma err_is_Errorf [simp]:
  "err_is (Errorf tag es) t \<longleftrightarrow> t = Errorf tag es \<or> (\<exists>e \<in> set es. err_is e t)"
  by (auto simp: err_is_def)

lemma as_conflict_ConflictError [simp]: "as_conflict (ConflictError c m) = Some (c, m)"
  by (simp add: as_conflict_def)

lemma as_refusal_RefusalError [simp]: "as_refusal (RefusalError c) = Some c"
  by (simp add: as_refusal_def)

end
