(* ===== verification/Interval.thy ===== *)
theory Interval
  imports Errors
begin

text \<open>
  \<open>internal/interval\<close> and \<open>internal/commitment/window.go\<close>: half-open intervals of Unix
  seconds, with the end computed in \<open>int64\<close>. A window whose end does not overflow is
  the set of seconds it covers, and every operation is characterised on that set.
\<close>

definition End :: "int \<Rightarrow> 32 word \<Rightarrow> int" where
  "End start duration = wrap64 (start + uint duration)"

definition Overlaps :: "int \<Rightarrow> int \<Rightarrow> int \<Rightarrow> int \<Rightarrow> bool" where
  "Overlaps aStart aEnd bStart bEnd =
     (if aStart \<ge> aEnd \<or> bStart \<ge> bEnd then False
      else aStart < bEnd \<and> bStart < aEnd)"

section \<open>Windows\<close>

record window =
  Start :: int
  Duration :: "32 word"

definition window_End :: "window \<Rightarrow> int" where
  "window_End w = End (Start w) (Duration w)"

definition window_Overlaps :: "window \<Rightarrow> window \<Rightarrow> bool" where
  "window_Overlaps w v = Overlaps (Start w) (window_End w) (Start v) (window_End v)"

definition Within :: "window \<Rightarrow> window \<Rightarrow> bool" where
  "Within w v =
     (if Duration w = 0 then True
      else Start w \<ge> Start v \<and> window_End w \<le> window_End v)"

definition ClipAt :: "window \<Rightarrow> int \<Rightarrow> window" where
  "ClipAt w t =
     (if t \<le> Start w then \<lparr>Start = Start w, Duration = 0\<rparr>
      else if t < window_End w
      then \<lparr>Start = Start w, Duration = word_of_int (wrap64 (t - Start w))\<rparr>
      else w)"

section \<open>The seconds a window covers\<close>

definition covers :: "window \<Rightarrow> int \<Rightarrow> bool" where
  "covers w t \<longleftrightarrow> Start w \<le> t \<and> t < Start w + uint (Duration w)"

definition wf_window :: "window \<Rightarrow> bool" where
  "wf_window w \<longleftrightarrow> is_int64 (Start w) \<and> is_int64 (Start w + uint (Duration w))"

lemma window_End_eq [simp]:
  "wf_window w \<Longrightarrow> window_End w = Start w + uint (Duration w)"
  by (simp add: window_End_def End_def wf_window_def)

lemma covers_ex_iff: "(\<exists>t. covers w t) \<longleftrightarrow> Duration w \<noteq> 0"
proof -
  have "(\<exists>t. covers w t) \<longleftrightarrow> 0 < uint (Duration w)"
    by (auto simp: covers_def intro: exI [of _ "Start w"])
  then show ?thesis by (simp add: uint32_pos_iff)
qed

lemma covers_Start: "Duration w \<noteq> 0 \<Longrightarrow> covers w (Start w)"
  by (simp add: covers_def uint32_pos_iff)

lemma window_Overlaps_iff:
  assumes "wf_window w" and "wf_window v"
  shows "window_Overlaps w v \<longleftrightarrow> (\<exists>t. covers w t \<and> covers v t)"
proof
  assume "window_Overlaps w v"
  with assms have "covers w (max (Start w) (Start v)) \<and> covers v (max (Start w) (Start v))"
    by (auto simp: window_Overlaps_def Overlaps_def covers_def split: if_splits)
  then show "\<exists>t. covers w t \<and> covers v t" by blast
next
  assume "\<exists>t. covers w t \<and> covers v t"
  with assms show "window_Overlaps w v"
    by (auto simp: window_Overlaps_def Overlaps_def covers_def)
qed

lemma window_Overlaps_sym: "window_Overlaps w v = window_Overlaps v w"
  by (auto simp: window_Overlaps_def Overlaps_def)

lemma Within_iff:
  assumes "wf_window w" and "wf_window v"
  shows "Within w v \<longleftrightarrow> (\<forall>t. covers w t \<longrightarrow> covers v t)"
proof (cases "Duration w = 0")
  case True
  then show ?thesis by (auto simp: Within_def covers_def)
next
  case False
  then have pos: "0 < uint (Duration w)" by (simp add: uint32_pos_iff)
  show ?thesis
  proof
    assume "Within w v"
    with False assms show "\<forall>t. covers w t \<longrightarrow> covers v t"
      by (auto simp: Within_def covers_def)
  next
    assume all: "\<forall>t. covers w t \<longrightarrow> covers v t"
    from pos have "covers w (Start w)" and "covers w (Start w + uint (Duration w) - 1)"
      by (simp_all add: covers_def)
    with all have "covers v (Start w)" and "covers v (Start w + uint (Duration w) - 1)"
      by blast+
    with False assms show "Within w v" by (auto simp: Within_def covers_def)
  qed
qed

lemma ClipAt_clipped:
  assumes "wf_window w" and "Start w < t" and "t < window_End w"
  shows "ClipAt w t = \<lparr>Start = Start w, Duration = word_of_int (t - Start w)\<rparr>"
    and "uint (Duration (ClipAt w t)) = t - Start w"
proof -
  from assms have b: "0 < t - Start w" "t - Start w < uint (Duration w)" by auto
  then have r: "0 \<le> t - Start w" "t - Start w < 2 ^ 32"
    using less_trans [OF b(2) uint32_bounds(2)] by simp_all
  then have "is_int64 (t - Start w)" by (simp add: is_int64_def)
  with assms show c: "ClipAt w t = \<lparr>Start = Start w, Duration = word_of_int (t - Start w)\<rparr>"
    by (simp add: ClipAt_def)
  from r show "uint (Duration (ClipAt w t)) = t - Start w"
    by (simp add: c uint_word_of_int32 [OF r] del: of_int_diff)
qed

lemma ClipAt_covers:
  assumes "wf_window w"
  shows "covers (ClipAt w t) x \<longleftrightarrow> covers w x \<and> x < t"
proof -
  consider "t \<le> Start w" | "Start w < t" "t < window_End w" | "window_End w \<le> t"
    by linarith
  then show ?thesis
  proof cases
    case 1
    then show ?thesis by (auto simp: ClipAt_def covers_def)
  next
    case 2
    note clip = ClipAt_clipped [OF assms 2]
    have "Start (ClipAt w t) = Start w" by (simp add: clip(1))
    with 2 assms show ?thesis by (auto simp: covers_def clip(2))
  next
    case 3
    with assms show ?thesis by (auto simp: ClipAt_def covers_def)
  qed
qed

lemma ClipAt_wf: "wf_window w \<Longrightarrow> wf_window (ClipAt w t)"
proof -
  assume wf: "wf_window w"
  consider "t \<le> Start w" | "Start w < t" "t < window_End w" | "window_End w \<le> t"
    by linarith
  then show "wf_window (ClipAt w t)"
  proof cases
    case 2
    note clip = ClipAt_clipped [OF wf 2]
    have "Start (ClipAt w t) = Start w" by (simp add: clip(1))
    with 2 wf show ?thesis by (auto simp: wf_window_def clip(2) is_int64_def)
  qed (use wf in \<open>auto simp: ClipAt_def wf_window_def\<close>)
qed

lemma ClipAt_Within: "wf_window w \<Longrightarrow> wf_window v \<Longrightarrow> Within w v \<Longrightarrow> Within (ClipAt w t) v"
  by (simp add: Within_iff ClipAt_wf ClipAt_covers)

text \<open>\<open>coversAfter\<close> of \<open>ledger.go\<close>.\<close>

definition coversAfter :: "window \<Rightarrow> int \<Rightarrow> bool" where
  "coversAfter w now \<longleftrightarrow> Duration w > 0 \<and> window_End w > now"

lemma coversAfter_iff:
  "wf_window w \<Longrightarrow> coversAfter w now \<longleftrightarrow> (\<exists>t \<ge> now. covers w t)"
  by (auto simp: coversAfter_def covers_def word_greater_zero_iff uint32_pos_iff [symmetric]
        intro: exI [of _ "max now (Start w)"])


section \<open>Properties\<close>

text \<open>
  C10: the window tests decide what they mean on seconds. Two windows overlap exactly when
  some second is in both, one is within another exactly when all its seconds are, and
  clipping a window at \<open>t\<close> keeps exactly its seconds before \<open>t\<close>; a zero duration covers
  nothing and never overlaps.
\<close>

theorem window_tests_exact:
  assumes "wf_window w" and "wf_window v"
  shows "(window_Overlaps w v \<longleftrightarrow> (\<exists>s. covers w s \<and> covers v s)) \<and>
         (Within w v \<longleftrightarrow> (\<forall>s. covers w s \<longrightarrow> covers v s)) \<and>
         (\<forall>s. covers (ClipAt w t) s \<longleftrightarrow> covers w s \<and> s < t) \<and>
         (coversAfter w t \<longleftrightarrow> (\<exists>s \<ge> t. covers w s))"
  using window_Overlaps_iff [OF assms] Within_iff [OF assms] ClipAt_covers [OF assms(1)]
    coversAfter_iff [OF assms(1)] by blast

theorem window_tests_exact_witness:
  "\<exists>s. covers \<lparr>Start = 10, Duration = 5\<rparr> s \<and> covers \<lparr>Start = 12, Duration = 60\<rparr> s"
proof -
  have "wf_window \<lparr>Start = 10, Duration = 5\<rparr>" "wf_window \<lparr>Start = 12, Duration = 60\<rparr>"
    "window_Overlaps \<lparr>Start = 10, Duration = 5\<rparr> \<lparr>Start = 12, Duration = 60\<rparr>"
    by code_simp+
  with window_tests_exact show ?thesis by blast
qed

end
