(* ===== verification/Magnitude.thy ===== *)
theory Magnitude
  imports Interval Complex_Main
begin

text \<open>
  \<open>internal/commitment/magnitude.go\<close>: exact comparison of sums of quantities
  \<open>|value| * factor * 10^multiplier\<close>. \<open>big.Int\<close> is \<open>int\<close> and \<open>big.Rat\<close> is \<open>rat\<close>.
  The reference is the rational magnitude; the integer routine, which scales every term up
  to the lowest multiplier and never divides, agrees with it.
\<close>

record scaledTerm =
  st_value :: int
  st_multiplier :: int
  st_factor :: int

definition pow10 :: "int \<Rightarrow> int" where
  "pow10 e = 10 ^ nat e"

definition scaleUp :: "int \<Rightarrow> int \<Rightarrow> int \<Rightarrow> int \<Rightarrow> int" where
  "scaleUp value multiplier e factor =
     (let v = \<bar>value\<bar>;
          v = (if factor \<noteq> 1 then v * factor else v)
      in if multiplier > e then v * pow10 (multiplier - e) else v)"

fun lowest_multiplier :: "int \<Rightarrow> scaledTerm list \<Rightarrow> int" where
  "lowest_multiplier e [] = e"
| "lowest_multiplier e (t # ts) =
     lowest_multiplier (if st_multiplier t < e then st_multiplier t else e) ts"

definition magnitudeSumExceeds :: "scaledTerm list \<Rightarrow> scaledTerm \<Rightarrow> bool" where
  "magnitudeSumExceeds terms bound =
     (let e = lowest_multiplier (st_multiplier bound) terms;
          total = foldl (\<lambda>s t. s + scaleUp (st_value t) (st_multiplier t) e (st_factor t)) 0 terms
      in total > scaleUp (st_value bound) (st_multiplier bound) e (st_factor bound))"

definition ratScaled :: "int \<Rightarrow> int \<Rightarrow> int \<Rightarrow> rat" where
  "ratScaled value multiplier factor =
     (let n = \<bar>value\<bar> * factor
      in if multiplier \<ge> 0 then of_int (n * pow10 multiplier)
         else Fract n (pow10 (- multiplier)))"

section \<open>The rational reference\<close>

definition mag :: "int \<Rightarrow> int \<Rightarrow> rat" where
  "mag value multiplier = of_int \<bar>value\<bar> * 10 powi multiplier"

lemma mag_nonneg [simp]: "0 \<le> mag v m"
  by (simp add: mag_def)

definition term_mag :: "scaledTerm \<Rightarrow> rat" where
  "term_mag t = mag (st_value t) (st_multiplier t) * of_int (st_factor t)"

lemma pow10_powi: "0 \<le> e \<Longrightarrow> of_int (pow10 e) = (10 powi e :: rat)"
  by (simp add: pow10_def power_int_def)

lemma ratScaled_eq: "ratScaled v m f = mag v m * of_int f"
proof (cases "0 \<le> m")
  case True
  then show ?thesis by (simp add: ratScaled_def mag_def pow10_powi)
next
  case False
  then have "of_int (pow10 (- m)) = (10 powi (- m) :: rat)" by (simp add: pow10_powi)
  then have "1 / of_int (pow10 (- m)) = (10 powi m :: rat)"
    by (simp add: power_int_minus divide_inverse)
  moreover from False have "ratScaled v m f = of_int (\<bar>v\<bar> * f) * (1 / of_int (pow10 (- m)))"
    by (simp add: ratScaled_def Fract_of_int_quotient)
  ultimately show ?thesis by (simp add: mag_def)
qed

lemma scaleUp_eq:
  "e \<le> m \<Longrightarrow> of_int (scaleUp v m e f) * 10 powi e = mag v m * (of_int f :: rat)"
proof -
  assume "e \<le> m"
  then have "(of_int (pow10 (m - e)) :: rat) * 10 powi e = 10 powi (m - e + e)"
    by (subst power_int_add) (simp_all add: pow10_powi)
  then have p: "(of_int (pow10 (m - e)) :: rat) * 10 powi e = 10 powi m" by simp
  show ?thesis
  proof (cases "m > e")
    case True
    then have "scaleUp v m e f = \<bar>v\<bar> * f * pow10 (m - e)" by (simp add: scaleUp_def Let_def)
    then show ?thesis using p by (simp add: mag_def algebra_simps)
  next
    case False
    with \<open>e \<le> m\<close> have "m = e" by simp
    then show ?thesis by (simp add: scaleUp_def Let_def mag_def algebra_simps)
  qed
qed

lemma lowest_multiplier_le_start: "lowest_multiplier e ts \<le> e"
proof (induction ts arbitrary: e)
  case (Cons t ts)
  from Cons.IH [of "st_multiplier t"] Cons.IH [of e] show ?case by auto
qed simp

lemma lowest_multiplier_le: "t \<in> set ts \<Longrightarrow> lowest_multiplier e ts \<le> st_multiplier t"
proof (induction ts arbitrary: e)
  case (Cons u us)
  from lowest_multiplier_le_start [of "st_multiplier u" us] lowest_multiplier_le_start [of e us] Cons
  show ?case by auto
qed simp

lemma foldl_scaleUp:
  assumes "\<And>t. t \<in> set ts \<Longrightarrow> e \<le> st_multiplier t"
  shows "of_int (foldl (\<lambda>s t. s + scaleUp (st_value t) (st_multiplier t) e (st_factor t)) a ts)
           * (10 powi e :: rat)
         = of_int a * 10 powi e + (\<Sum>t\<leftarrow>ts. term_mag t)"
  using assms
proof (induction ts arbitrary: a)
  case (Cons t ts)
  then have "of_int (scaleUp (st_value t) (st_multiplier t) e (st_factor t)) * 10 powi e
             = term_mag t"
    by (simp add: scaleUp_eq term_mag_def)
  with Cons show ?case by (simp add: algebra_simps)
qed simp

lemma magnitudeSumExceeds_iff:
  "magnitudeSumExceeds ts b \<longleftrightarrow> (\<Sum>t\<leftarrow>ts. term_mag t) > term_mag b"
proof -
  let ?e = "lowest_multiplier (st_multiplier b) ts"
  let ?s = "foldl (\<lambda>s t. s + scaleUp (st_value t) (st_multiplier t) ?e (st_factor t)) 0 ts"
  let ?b = "scaleUp (st_value b) (st_multiplier b) ?e (st_factor b)"
  have s: "of_int ?s * (10 powi ?e :: rat) = (\<Sum>t\<leftarrow>ts. term_mag t)"
    using foldl_scaleUp [of ts ?e 0] by (simp add: lowest_multiplier_le)
  have b: "of_int ?b * (10 powi ?e :: rat) = term_mag b"
    by (simp add: scaleUp_eq term_mag_def lowest_multiplier_le_start)
  have "magnitudeSumExceeds ts b \<longleftrightarrow> (of_int ?b :: rat) < of_int ?s"
    by (simp add: magnitudeSumExceeds_def Let_def)
  also have "\<dots> \<longleftrightarrow> of_int ?b * (10 powi ?e :: rat) < of_int ?s * 10 powi ?e"
    by (rule mult_less_cancel_right_pos [symmetric]) simp
  finally show ?thesis by (simp only: s b)
qed


section \<open>Properties\<close>

text \<open>
  C11: the integer comparison at the smallest multiplier is the comparison of the exact
  rational magnitudes \<open>|value| * 10^multiplier * factor\<close>, for any multipliers of either sign.
\<close>

theorem magnitudeSumExceeds_exact:
  "magnitudeSumExceeds terms bound \<longleftrightarrow> (\<Sum>t\<leftarrow>terms. term_mag t) > term_mag bound"
  by (rule magnitudeSumExceeds_iff)

end
