(* ===== verification/FitsGrant.thy ===== *)
theory FitsGrant
  imports Magnitude
begin

text \<open>
  \<open>internal/commitment/values.go\<close> and \<open>fitsgrant.go\<close>: grants and controls as the ledger
  sees them, and the rules an execution of a grant must keep. A nil pointer is \<open>None\<close>; a
  check returns \<open>None\<close> for a nil error.
\<close>

record active_power =
  ap_Value :: int
  ap_Multiplier :: int

record signed_real_energy =
  re_Value :: int
  re_Multiplier :: int

record grant =
  g_MRID :: string
  g_ID :: string
  g_EndDeviceID :: string
  g_FleetKey :: string
  g_Window :: "window option"
  g_Energy :: "signed_real_energy option"
  g_Power :: "active_power option"
  g_CancelledAt :: "int option"
  g_Subject :: string
  g_CreationTime :: int

record control =
  c_MRID :: string
  c_ID :: string
  c_Scope :: string
  c_EndDeviceID :: string
  c_FleetKey :: string
  c_Window :: window
  c_GrantMRID :: string
  c_TargetW :: "active_power option"
  c_Reach :: int
  c_Cancelled :: bool
  c_FleetTotal :: bool

definition sign :: "int \<Rightarrow> int" where
  "sign v = (if v > 0 then 1 else if v < 0 then -1 else 0)"

definition DirectionOf :: "grant \<Rightarrow> err + int" where
  "DirectionOf g = (case g_Energy g of
     None \<Rightarrow> Inl (Panic ''nil Energy'')
   | Some e \<Rightarrow> Inr (- sign (re_Value e)))"

section \<open>The aggregate bounds\<close>

definition power_term :: "control \<Rightarrow> scaledTerm option" where
  "power_term c = (case c_TargetW c of
     None \<Rightarrow> None
   | Some p \<Rightarrow> Some \<lparr>st_value = ap_Value p, st_multiplier = ap_Multiplier p, st_factor = c_Reach c\<rparr>)"

definition active_at :: "control list \<Rightarrow> int \<Rightarrow> nat list" where
  "active_at execs t =
     filter (\<lambda>j. Start (c_Window (execs ! j)) \<le> t \<and> t < window_End (c_Window (execs ! j)))
       [0..<length execs]"

text \<open>One turn of the loop of \<open>checkPower\<close>: the instant \<open>t\<close> at which an execution starts.\<close>

definition checkPower_at :: "grant \<Rightarrow> control list \<Rightarrow> nat option \<Rightarrow> int \<Rightarrow> err option" where
  "checkPower_at g execs proposalIndex t =
     (let active = active_at execs t
      in case (those (map (\<lambda>j. power_term (execs ! j)) active), g_Power g) of
           (Some terms, Some p) \<Rightarrow>
             if \<not> magnitudeSumExceeds terms
                    \<lparr>st_value = ap_Value p, st_multiplier = ap_Multiplier p, st_factor = 1\<rparr>
             then None
             else (case filter (\<lambda>j. Some j \<noteq> proposalIndex) active of
                     j # _ \<Rightarrow> Some (ConflictError ConflictPower (c_MRID (execs ! j)))
                   | [] \<Rightarrow> Some (ConflictError ConflictPower (g_MRID g)))
         | _ \<Rightarrow> Some (Panic ''nil TargetW or Power''))"

fun checkPower_loop :: "grant \<Rightarrow> control list \<Rightarrow> nat option \<Rightarrow> control list \<Rightarrow> err option" where
  "checkPower_loop g execs proposalIndex [] = None"
| "checkPower_loop g execs proposalIndex (x # xs) =
     (case checkPower_at g execs proposalIndex (Start (c_Window x)) of
        Some e \<Rightarrow> Some e
      | None \<Rightarrow> checkPower_loop g execs proposalIndex xs)"

definition checkPower :: "grant \<Rightarrow> control list \<Rightarrow> nat option \<Rightarrow> err option" where
  "checkPower g execs proposalIndex = checkPower_loop g execs proposalIndex execs"

definition Committed :: "control list \<Rightarrow> rat" where
  "Committed execs =
     foldl (\<lambda>s c. case c_TargetW c of
               None \<Rightarrow> s
             | Some p \<Rightarrow> s + ratScaled (ap_Value p) (ap_Multiplier p)
                                 (wrap64 (c_Reach c * uint (Duration (c_Window c)))))
       0 execs"

definition checkEnergy :: "grant \<Rightarrow> control list \<Rightarrow> err option" where
  "checkEnergy g execs = (case g_Energy g of
     None \<Rightarrow> Some (Panic ''nil Energy'')
   | Some e \<Rightarrow>
       if Committed execs > ratScaled (re_Value e) (re_Multiplier e) 3600
       then Some (ConflictError ConflictEnergy (g_MRID g))
       else None)"

section \<open>The rules of one execution\<close>

definition checkExecution_rules ::
    "grant \<Rightarrow> nat option \<Rightarrow> int \<Rightarrow> nat \<Rightarrow> control \<Rightarrow> err option" where
  "checkExecution_rules g proposalIndex want j c =
     (case c_TargetW c of
        None \<Rightarrow> Some (ConflictError ConflictModeNotTarget (c_MRID c))
      | Some p \<Rightarrow>
          if c_FleetKey c \<noteq> g_FleetKey g then Some (ConflictError ConflictOutsideFleet (c_MRID c))
          else if Some j = proposalIndex \<and> Duration (c_Window c) = 0
          then Some (ConflictError ConflictZeroDuration (c_MRID c))
          else (case g_Window g of
                  None \<Rightarrow> Some (Panic ''nil Window'')
                | Some w \<Rightarrow>
                    if \<not> Within (c_Window c) w
                    then Some (ConflictError ConflictOutsideInterval (c_MRID c))
                    else if sign (ap_Value p) \<noteq> want
                    then Some (ConflictError ConflictDirection (c_MRID c))
                    else None))"

fun checkEach :: "grant \<Rightarrow> nat option \<Rightarrow> int \<Rightarrow> nat \<Rightarrow> control list \<Rightarrow> err option" where
  "checkEach g proposalIndex want j [] = None"
| "checkEach g proposalIndex want j (c # cs) =
     (case checkExecution_rules g proposalIndex want j c of
        Some e \<Rightarrow> Some e
      | None \<Rightarrow> checkEach g proposalIndex want (Suc j) cs)"

definition executable :: "grant \<Rightarrow> bool" where
  "executable g \<longleftrightarrow>
     (case g_Window g of None \<Rightarrow> False | Some w \<Rightarrow> Duration w \<noteq> 0) \<and>
     (case g_Energy g of None \<Rightarrow> False | Some e \<Rightarrow> re_Value e \<noteq> 0) \<and>
     g_Power g \<noteq> None"

definition FitsGrant :: "grant \<Rightarrow> control list \<Rightarrow> control option \<Rightarrow> err option" where
  "FitsGrant g existing proposal =
     (if g_CancelledAt g \<noteq> None then Some (ConflictError ConflictGrantNotLive (g_MRID g))
      else if \<not> executable g then Some (ConflictError ConflictNotExecutable (g_MRID g))
      else
        (let execs = existing @ (case proposal of None \<Rightarrow> [] | Some p \<Rightarrow> [p]);
             proposalIndex = (case proposal of None \<Rightarrow> None | Some _ \<Rightarrow> Some (length existing))
         in case DirectionOf g of
              Inl e \<Rightarrow> Some e
            | Inr want \<Rightarrow>
                (case checkEach g proposalIndex want 0 execs of
                   Some e \<Rightarrow> Some e
                 | None \<Rightarrow>
                     (case checkPower g execs proposalIndex of
                        Some e \<Rightarrow> Some e
                      | None \<Rightarrow> checkEnergy g execs))))"

section \<open>What the rules mean\<close>

text \<open>
  The power drawn at an instant by the executions whose windows cover it, and the energy of
  a set of executions, as exact rationals.
\<close>

definition exec_power :: "control \<Rightarrow> rat" where
  "exec_power c = (case c_TargetW c of
     None \<Rightarrow> 0 | Some p \<Rightarrow> mag (ap_Value p) (ap_Multiplier p) * of_int (c_Reach c))"

definition power_at :: "control list \<Rightarrow> int \<Rightarrow> rat" where
  "power_at execs t = (\<Sum>c\<leftarrow>filter (\<lambda>c. covers (c_Window c) t) execs. exec_power c)"

definition seconds :: "window \<Rightarrow> rat" where
  "seconds w = of_int (uint (Duration w))"

definition energy_of :: "control list \<Rightarrow> rat" where
  "energy_of execs = (\<Sum>c\<leftarrow>execs. exec_power c * seconds (c_Window c))"

definition power_bound :: "grant \<Rightarrow> rat" where
  "power_bound g = (case g_Power g of None \<Rightarrow> 0 | Some p \<Rightarrow> mag (ap_Value p) (ap_Multiplier p))"

definition energy_bound :: "grant \<Rightarrow> rat" where
  "energy_bound g = (case g_Energy g of
     None \<Rightarrow> 0 | Some e \<Rightarrow> mag (re_Value e) (re_Multiplier e) * 3600)"

definition wf_control :: "control \<Rightarrow> bool" where
  "wf_control c \<longleftrightarrow> wf_window (c_Window c) \<and> 0 \<le> c_Reach c \<and> c_Reach c < 2 ^ 31"

definition wf_grant :: "grant \<Rightarrow> bool" where
  "wf_grant g \<longleftrightarrow> (case g_Window g of None \<Rightarrow> True | Some w \<Rightarrow> wf_window w)"

text \<open>The rules one execution keeps on its own.\<close>

definition execution_ok :: "grant \<Rightarrow> control \<Rightarrow> bool" where
  "execution_ok g c \<longleftrightarrow>
     (case (c_TargetW c, g_Window g, g_Energy g) of
        (Some p, Some w, Some e) \<Rightarrow>
          c_FleetKey c = g_FleetKey g \<and>
          (\<forall>t. covers (c_Window c) t \<longrightarrow> covers w t) \<and>
          sign (ap_Value p) = - sign (re_Value e)
      | _ \<Rightarrow> False)"

definition fits_bounds :: "grant \<Rightarrow> control list \<Rightarrow> bool" where
  "fits_bounds g execs \<longleftrightarrow>
     g_CancelledAt g = None \<and> executable g \<and>
     (\<forall>c \<in> set execs. execution_ok g c) \<and>
     (\<forall>t. power_at execs t \<le> power_bound g) \<and>
     energy_of execs \<le> energy_bound g"

lemma exec_power_nonneg [simp]: "0 \<le> c_Reach c \<Longrightarrow> 0 \<le> exec_power c"
  by (simp add: exec_power_def split: option.splits)

lemma seconds_nonneg [simp]: "0 \<le> seconds w"
  unfolding seconds_def by (simp only: of_int_0_le_iff uint_ge_0)

lemma seconds_mono: "uint (Duration w) \<le> uint (Duration v) \<Longrightarrow> seconds w \<le> seconds v"
  unfolding seconds_def by (simp only: of_int_le_iff)

lemma those_Some_iff: "those xs = Some ys \<longleftrightarrow> xs = map Some ys"
  by (induction xs arbitrary: ys) (auto split: option.splits)

lemma those_map_Some:
  "(\<And>x. x \<in> set xs \<Longrightarrow> f x = Some (g x)) \<Longrightarrow> those (map f xs) = Some (map g xs)"
  by (induction xs) auto

lemma map_nth_filter: "map f (filter P xs) = map (\<lambda>j. f (xs ! j)) (filter (\<lambda>j. P (xs ! j)) [0..<length xs])"
proof -
  have "filter P xs = filter P (map ((!) xs) [0..<length xs])" by (simp add: map_nth)
  also have "\<dots> = map ((!) xs) (filter (\<lambda>j. P (xs ! j)) [0..<length xs])"
    by (simp add: filter_map o_def)
  finally show ?thesis by simp
qed

lemma power_at_nonneg: "\<forall>c \<in> set execs. 0 \<le> c_Reach c \<Longrightarrow> 0 \<le> power_at execs t"
  by (auto simp: power_at_def intro!: sum_list_map_nonneg)

section \<open>Testing only the starts is exact\<close>

text \<open>
  The power drawn is a step function of time: among the executions active at \<open>t\<close>, all are
  active at the latest of their starts. So a bound kept at every start is kept at every
  instant.
\<close>

lemma active_at_power:
  assumes "\<forall>c \<in> set execs. wf_control c \<and> c_TargetW c \<noteq> None"
  obtains ts where "those (map (\<lambda>j. power_term (execs ! j)) (active_at execs t)) = Some ts"
    and "(\<Sum>x\<leftarrow>ts. term_mag x) = power_at execs t"
proof
  let ?f = "\<lambda>j. the (power_term (execs ! j))"
  have act: "active_at execs t = filter (\<lambda>j. covers (c_Window (execs ! j)) t) [0..<length execs]"
    unfolding active_at_def covers_def
    by (rule filter_cong) (use assms in \<open>auto simp: wf_control_def\<close>)
  have tgt: "c_TargetW (execs ! j) \<noteq> None" if "j \<in> set (active_at execs t)" for j
    using that assms by (auto simp: act)
  then show "those (map (\<lambda>j. power_term (execs ! j)) (active_at execs t))
      = Some (map ?f (active_at execs t))"
    by (intro those_map_Some) (auto simp: power_term_def split: option.splits)
  have "(\<Sum>x\<leftarrow>map ?f (active_at execs t). term_mag x)
      = (\<Sum>j\<leftarrow>active_at execs t. exec_power (execs ! j))"
    unfolding map_map
  proof (intro arg_cong [where f = sum_list] map_cong refl)
    fix j assume "j \<in> set (active_at execs t)"
    with tgt obtain p where "c_TargetW (execs ! j) = Some p" by blast
    then show "(term_mag \<circ> ?f) j = exec_power (execs ! j)"
      by (simp add: power_term_def exec_power_def term_mag_def)
  qed
  also have "\<dots> = power_at execs t"
    unfolding power_at_def act map_nth_filter [of exec_power] by simp
  finally show "(\<Sum>x\<leftarrow>map ?f (active_at execs t). term_mag x) = power_at execs t" .
qed

lemma checkPower_at_None_iff:
  assumes "\<forall>c \<in> set execs. wf_control c \<and> c_TargetW c \<noteq> None" and "g_Power g \<noteq> None"
  shows "checkPower_at g execs pidx t = None \<longleftrightarrow> power_at execs t \<le> power_bound g"
proof -
  obtain ts where ts: "those (map (\<lambda>j. power_term (execs ! j)) (active_at execs t)) = Some ts"
    and s: "(\<Sum>x\<leftarrow>ts. term_mag x) = power_at execs t"
    using active_at_power [OF assms(1)] .
  from assms(2) obtain p where p: "g_Power g = Some p" by blast
  have "magnitudeSumExceeds ts \<lparr>st_value = ap_Value p, st_multiplier = ap_Multiplier p, st_factor = 1\<rparr>
      \<longleftrightarrow> power_bound g < power_at execs t"
    by (simp add: magnitudeSumExceeds_iff s p power_bound_def) (simp add: term_mag_def)
  then show ?thesis
    by (auto simp: checkPower_at_def Let_def ts p split: list.splits)
qed

lemma checkPower_loop_None_iff:
  "checkPower_loop g execs pidx xs = None \<longleftrightarrow>
     (\<forall>x \<in> set xs. checkPower_at g execs pidx (Start (c_Window x)) = None)"
  by (induction xs) (auto split: option.splits)

lemma power_at_le_start:
  assumes "\<forall>c \<in> set execs. 0 \<le> c_Reach c"
  shows "power_at execs t = 0 \<or>
     (\<exists>x \<in> set execs. power_at execs t \<le> power_at execs (Start (c_Window x)))"
proof (cases "filter (\<lambda>c. covers (c_Window c) t) execs = []")
  case True
  then show ?thesis by (simp add: power_at_def)
next
  case False
  let ?A = "{c \<in> set execs. covers (c_Window c) t}"
  let ?S = "(\<lambda>c. Start (c_Window c)) ` ?A"
  from False have "?A \<noteq> {}" by (auto simp: filter_empty_conv)
  then have "Max ?S \<in> ?S" by (intro Max_in) auto
  then obtain x where x: "x \<in> ?A" and m: "Max ?S = Start (c_Window x)" by auto
  have "covers (c_Window c) (Start (c_Window x))" if "c \<in> ?A" for c
  proof -
    from that have "Start (c_Window c) \<le> Max ?S" by (intro Max_ge) auto
    with that x m show ?thesis by (auto simp: covers_def)
  qed
  then have "power_at execs t \<le> power_at execs (Start (c_Window x))"
    unfolding power_at_def by (intro sum_list_filter_mono) (use assms in auto)
  with x show ?thesis by blast
qed

lemma checkPower_None_iff:
  assumes "\<forall>c \<in> set execs. wf_control c \<and> c_TargetW c \<noteq> None" and "g_Power g \<noteq> None"
  shows "checkPower g execs pidx = None \<longleftrightarrow> (\<forall>t. power_at execs t \<le> power_bound g)"
proof -
  have reach: "\<forall>c \<in> set execs. 0 \<le> c_Reach c" using assms(1) by (auto simp: wf_control_def)
  have b: "0 \<le> power_bound g" by (simp add: power_bound_def split: option.splits)
  have "checkPower g execs pidx = None
      \<longleftrightarrow> (\<forall>x \<in> set execs. power_at execs (Start (c_Window x)) \<le> power_bound g)"
    by (simp add: checkPower_def checkPower_loop_None_iff checkPower_at_None_iff assms)
  also have "\<dots> \<longleftrightarrow> (\<forall>t. power_at execs t \<le> power_bound g)"
    using power_at_le_start [OF reach] b by (metis order.trans)
  finally show ?thesis .
qed

section \<open>Energy\<close>

lemma reach_duration_fits:
  assumes "0 \<le> r" and "r < 2 ^ 31"
  shows "wrap64 (r * uint (d :: 32 word)) = r * uint d"
proof -
  have "r * uint d \<le> 2 ^ 31 * uint d"
    using assms by (intro mult_right_mono) auto
  also have "\<dots> < 2 ^ 31 * 4294967296"
    using uint32_bounds(2) [of d] by (intro mult_strict_left_mono) auto
  finally have "r * uint d < 2 ^ 63" by simp
  moreover have "0 \<le> r * uint d" using assms by simp
  ultimately show ?thesis by (simp add: is_int64_def)
qed

lemma Committed_eq:
  assumes "\<forall>c \<in> set execs. wf_control c"
  shows "Committed execs = energy_of execs"
proof -
  have "foldl (\<lambda>s c. case c_TargetW c of None \<Rightarrow> s
             | Some p \<Rightarrow> s + ratScaled (ap_Value p) (ap_Multiplier p)
                 (wrap64 (c_Reach c * uint (Duration (c_Window c))))) a execs
        = a + energy_of execs" for a
    using assms
  proof (induction execs arbitrary: a)
    case (Cons c cs)
    then have "wrap64 (c_Reach c * uint (Duration (c_Window c)))
        = c_Reach c * uint (Duration (c_Window c))"
      by (intro reach_duration_fits) (auto simp: wf_control_def)
    with Cons show ?case
      by (auto simp: energy_of_def exec_power_def ratScaled_eq seconds_def split: option.splits)
  qed (simp add: energy_of_def)
  from this [of 0] show ?thesis by (simp add: Committed_def)
qed

lemma checkEnergy_None_iff:
  assumes "\<forall>c \<in> set execs. wf_control c" and "g_Energy g \<noteq> None"
  shows "checkEnergy g execs = None \<longleftrightarrow> energy_of execs \<le> energy_bound g"
  using assms
  by (auto simp: checkEnergy_def Committed_eq energy_bound_def ratScaled_eq split: if_splits)

lemma sum_covers:
  assumes "lo \<le> Start w" and "Start w + uint (Duration w) \<le> hi"
  shows "(\<Sum>t\<in>{lo..<hi}. if covers w t then x else 0) = x * seconds w"
proof -
  have "{t \<in> {lo..<hi}. covers w t} = {Start w ..< Start w + uint (Duration w)}"
    using assms by (auto simp: covers_def)
  then have "(\<Sum>t\<in>{lo..<hi}. if covers w t then x else 0)
      = (\<Sum>t\<in>{Start w ..< Start w + uint (Duration w)}. x)"
    by (simp add: sum.inter_filter [symmetric])
  then show ?thesis by (simp add: seconds_def)
qed

lemma power_at_sum: "power_at execs t = (\<Sum>c\<leftarrow>execs. if covers (c_Window c) t then exec_power c else 0)"
  by (induction execs) (auto simp: power_at_def)

lemma energy_is_integral:
  assumes "\<forall>c \<in> set execs. lo \<le> Start (c_Window c) \<and> Start (c_Window c) + uint (Duration (c_Window c)) \<le> hi"
  shows "energy_of execs = (\<Sum>t\<in>{lo..<hi}. power_at execs t)"
proof -
  have "(\<Sum>t\<in>{lo..<hi}. power_at execs t)
      = (\<Sum>c\<leftarrow>execs. \<Sum>t\<in>{lo..<hi}. if covers (c_Window c) t then exec_power c else 0)"
    unfolding power_at_sum by (induction execs) (simp_all add: sum.distrib)
  also have "\<dots> = energy_of execs"
    unfolding energy_of_def
    by (intro arg_cong [where f = sum_list] map_cong refl sum_covers) (use assms in auto)
  finally show ?thesis by simp
qed

section \<open>All the rules together\<close>

abbreviation with_proposal :: "control list \<Rightarrow> control option \<Rightarrow> control list" where
  "with_proposal existing proposal \<equiv>
     existing @ (case proposal of None \<Rightarrow> [] | Some p \<Rightarrow> [p])"

lemma checkEach_None_iff:
  "checkEach g pidx want j cs = None \<longleftrightarrow>
     (\<forall>i < length cs. checkExecution_rules g pidx want (j + i) (cs ! i) = None)"
proof (induction cs arbitrary: j)
  case (Cons c cs)
  have "checkEach g pidx want j (c # cs) = None \<longleftrightarrow>
      checkExecution_rules g pidx want j c = None \<and> checkEach g pidx want (Suc j) cs = None"
    by (simp split: option.splits)
  also have "\<dots> \<longleftrightarrow> (\<forall>i < length (c # cs). checkExecution_rules g pidx want (j + i) ((c # cs) ! i) = None)"
    unfolding Cons.IH by (simp add: All_less_Suc2)
  finally show ?case .
qed simp

lemma checkExecution_rules_None_iff:
  assumes "wf_grant g" and "wf_control c" and "g_Window g = Some w" and "g_Energy g = Some e"
  shows "checkExecution_rules g pidx (- sign (re_Value e)) j c = None \<longleftrightarrow>
     execution_ok g c \<and> (Some j = pidx \<longrightarrow> Duration (c_Window c) \<noteq> 0)"
proof -
  have "Within (c_Window c) w \<longleftrightarrow> (\<forall>t. covers (c_Window c) t \<longrightarrow> covers w t)"
    using assms by (intro Within_iff) (auto simp: wf_grant_def wf_control_def)
  then show ?thesis
    using assms(3,4)
    by (cases "c_TargetW c") (auto simp: checkExecution_rules_def execution_ok_def)
qed

lemma checkEach_with_proposal:
  assumes "wf_grant g" and "g_Window g = Some w" and "g_Energy g = Some e"
    and "\<forall>c \<in> set (with_proposal existing proposal). wf_control c"
  shows "checkEach g (case proposal of None \<Rightarrow> None | Some _ \<Rightarrow> Some (length existing))
           (- sign (re_Value e)) 0 (with_proposal existing proposal) = None \<longleftrightarrow>
     (\<forall>c \<in> set (with_proposal existing proposal). execution_ok g c) \<and>
     (\<forall>p. proposal = Some p \<longrightarrow> Duration (c_Window p) \<noteq> 0)"
proof -
  let ?all = "with_proposal existing proposal"
  let ?i = "case proposal of None \<Rightarrow> None | Some _ \<Rightarrow> Some (length existing)"
  have "checkEach g ?i (- sign (re_Value e)) 0 ?all = None \<longleftrightarrow>
      (\<forall>i < length ?all. execution_ok g (?all ! i) \<and> (Some i = ?i \<longrightarrow> Duration (c_Window (?all ! i)) \<noteq> 0))"
    unfolding checkEach_None_iff
    using assms checkExecution_rules_None_iff [OF assms(1) _ assms(2,3)] nth_mem [of _ ?all]
    by simp
  also have "\<dots> \<longleftrightarrow> (\<forall>c \<in> set ?all. execution_ok g c) \<and>
      (\<forall>i < length ?all. Some i = ?i \<longrightarrow> Duration (c_Window (?all ! i)) \<noteq> 0)"
    unfolding all_set_conv_all_nth by blast
  also have "(\<forall>i < length ?all. Some i = ?i \<longrightarrow> Duration (c_Window (?all ! i)) \<noteq> 0)
      \<longleftrightarrow> (\<forall>p. proposal = Some p \<longrightarrow> Duration (c_Window p) \<noteq> 0)"
    by (cases proposal) auto
  finally show ?thesis .
qed

lemma FitsGrant_None:
  assumes "wf_grant g" and "\<forall>c \<in> set (with_proposal existing proposal). wf_control c"
  shows "FitsGrant g existing proposal = None \<longleftrightarrow>
     fits_bounds g (with_proposal existing proposal) \<and>
     (\<forall>p. proposal = Some p \<longrightarrow> Duration (c_Window p) \<noteq> 0)"
proof (cases "g_CancelledAt g = None \<and> executable g")
  case False
  then show ?thesis by (auto simp: FitsGrant_def fits_bounds_def)
next
  case True
  then obtain w e where we: "g_Window g = Some w" "g_Energy g = Some e"
    by (auto simp: executable_def split: option.splits)
  let ?all = "with_proposal existing proposal"
  let ?i = "case proposal of None \<Rightarrow> None | Some _ \<Rightarrow> Some (length existing)"
  let ?each = "checkEach g ?i (- sign (re_Value e)) 0 ?all"
  have dir: "DirectionOf g = Inr (- sign (re_Value e))" by (simp add: DirectionOf_def we)
  have fits: "FitsGrant g existing proposal = None \<longleftrightarrow>
      ?each = None \<and> checkPower g ?all ?i = None \<and> checkEnergy g ?all = None"
    using True by (simp add: FitsGrant_def Let_def dir split: option.splits)
  have "(\<forall>c \<in> set ?all. execution_ok g c) \<Longrightarrow>
      checkPower g ?all ?i = None \<longleftrightarrow> (\<forall>t. power_at ?all t \<le> power_bound g)"
    using assms(2) True
    by (intro checkPower_None_iff) (force simp: execution_ok_def executable_def split: option.splits)+
  moreover have "checkEnergy g ?all = None \<longleftrightarrow> energy_of ?all \<le> energy_bound g"
    using assms(2) we by (intro checkEnergy_None_iff) auto
  ultimately show ?thesis
    using True unfolding fits checkEach_with_proposal [OF assms(1) we assms(2)] fits_bounds_def
    by blast
qed

section \<open>Fewer, shorter or reordered executions still fit\<close>

lemma power_at_sum_mset:
  "power_at xs t = (\<Sum>c\<in>#filter_mset (\<lambda>c. covers (c_Window c) t) (mset xs). exec_power c)"
  by (induction xs) (auto simp: power_at_def)

lemma energy_of_sum_mset: "energy_of xs = (\<Sum>c\<in>#mset xs. exec_power c * seconds (c_Window c))"
  by (induction xs) (auto simp: energy_of_def)

lemma power_at_mset: "mset xs = mset ys \<Longrightarrow> power_at xs t = power_at ys t"
  by (simp only: power_at_sum_mset)

lemma energy_of_mset: "mset xs = mset ys \<Longrightarrow> energy_of xs = energy_of ys"
  by (simp only: energy_of_sum_mset)

lemma fits_bounds_mset: "mset xs = mset ys \<Longrightarrow> fits_bounds g xs \<Longrightarrow> fits_bounds g ys"
  by (simp add: fits_bounds_def power_at_mset [of xs ys] energy_of_mset [of xs ys]
      mset_eq_setD [of xs ys])

lemma fits_bounds_append1:
  assumes "\<forall>c \<in> set (xs @ ys). 0 \<le> c_Reach c" and "fits_bounds g (xs @ ys)"
  shows "fits_bounds g xs"
proof -
  have "power_at xs t \<le> power_at (xs @ ys) t" for t
    using power_at_nonneg [of ys t] assms(1) by (simp add: power_at_def)
  moreover have "0 \<le> energy_of ys"
    unfolding energy_of_def using assms(1) by (intro sum_list_map_nonneg) auto
  then have "energy_of xs \<le> energy_of (xs @ ys)" by (simp add: energy_of_def)
  ultimately show ?thesis using assms(2) by (auto simp: fits_bounds_def intro: order.trans)
qed

text \<open>A control that stops earlier, as a superseded one does.\<close>

definition shortened :: "control \<Rightarrow> control \<Rightarrow> bool" where
  "shortened d c \<longleftrightarrow> c_TargetW d = c_TargetW c \<and> c_Reach d = c_Reach c \<and>
     c_FleetKey d = c_FleetKey c \<and>
     (\<forall>t. covers (c_Window d) t \<longrightarrow> covers (c_Window c) t) \<and>
     uint (Duration (c_Window d)) \<le> uint (Duration (c_Window c))"

lemma shortened_refl [simp]: "shortened c c"
  by (simp add: shortened_def)

lemma ClipAt_Duration_le:
  assumes "wf_window w"
  shows "uint (Duration (ClipAt w t)) \<le> uint (Duration w)"
proof -
  consider "t \<le> Start w" | "Start w < t" "t < window_End w" | "window_End w \<le> t" by linarith
  then show ?thesis
  proof cases
    case 2
    from ClipAt_clipped(2) [OF assms this] 2 assms show ?thesis by simp
  qed (auto simp: ClipAt_def)
qed

lemma shortened_ClipAt:
  "wf_window (c_Window c) \<Longrightarrow> shortened (c\<lparr>c_Window := ClipAt (c_Window c) t\<rparr>) c"
  by (simp add: shortened_def ClipAt_covers ClipAt_Duration_le)

lemma shortened_fits:
  assumes "list_all2 shortened ds cs" and "\<forall>c \<in> set cs. 0 \<le> c_Reach c" and "fits_bounds g cs"
  shows "fits_bounds g ds"
proof -
  have p: "power_at ds t \<le> power_at cs t" for t
    using assms(1,2)
    by (induction rule: list_all2_induct)
      (auto simp: power_at_def shortened_def exec_power_def split: option.splits
        intro!: add_mono add_increasing)
  have e: "energy_of ds \<le> energy_of cs"
    using assms(1,2)
    by (induction rule: list_all2_induct)
      (auto simp: energy_of_def shortened_def exec_power_def split: option.splits
        intro!: add_mono mult_left_mono seconds_mono)
  have "\<forall>d \<in> set ds. \<exists>c \<in> set cs. shortened d c"
    using assms(1) by (induction rule: list_all2_induct) auto
  moreover have "execution_ok g d" if "shortened d c" "execution_ok g c" for d c
    using that by (auto simp: execution_ok_def shortened_def split: option.splits)
  ultimately show ?thesis
    using assms(3) p e by (fastforce simp: fits_bounds_def intro: order.trans)
qed


section \<open>What a refusal names\<close>

lemma checkEach_Some:
  "checkEach g pidx want j cs = Some e \<Longrightarrow> g_Window g \<noteq> None \<Longrightarrow>
     \<exists>c \<in> set cs. \<exists>code. e = ConflictError code (c_MRID c) \<and> code \<noteq> ConflictPower"
  by (induction cs arbitrary: j)
    (auto simp: checkExecution_rules_def split: option.splits if_splits)

lemma checkEach_None_target:
  "checkEach g pidx want j cs = None \<Longrightarrow> \<forall>c \<in> set cs. c_TargetW c \<noteq> None"
  by (induction cs arbitrary: j) (auto simp: checkExecution_rules_def split: option.splits)

lemma checkPower_at_Some:
  assumes "checkPower_at g execs pidx t = Some e" and "\<forall>c \<in> set execs. c_TargetW c \<noteq> None"
    and "g_Power g \<noteq> None"
  shows "\<exists>m. e = ConflictError ConflictPower m \<and>
     (m = g_MRID g \<or> (\<exists>j < length execs. Some j \<noteq> pidx \<and> m = c_MRID (execs ! j)))"
proof -
  let ?act = "active_at execs t"
  have "power_term (execs ! j) = Some (the (power_term (execs ! j)))" if "j \<in> set ?act" for j
  proof -
    from that have "execs ! j \<in> set execs" by (simp add: active_at_def)
    with assms(2) show ?thesis by (auto simp: power_term_def)
  qed
  then have "those (map (\<lambda>j. power_term (execs ! j)) ?act)
      = Some (map (\<lambda>j. the (power_term (execs ! j))) ?act)" by (rule those_map_Some)
  then obtain ts where ts: "those (map (\<lambda>j. power_term (execs ! j)) ?act) = Some ts" by simp
  from assms(3) obtain p where p: "g_Power g = Some p" by blast
  show ?thesis
  proof (cases "filter (\<lambda>j. Some j \<noteq> pidx) ?act")
    case Nil
    with assms(1) show ?thesis by (auto simp: checkPower_at_def Let_def ts p split: if_splits)
  next
    case (Cons j js)
    then have "j \<in> set (filter (\<lambda>j. Some j \<noteq> pidx) ?act)" by simp
    then have "j < length execs" "Some j \<noteq> pidx" by (auto simp: active_at_def)
    with assms(1) Cons show ?thesis by (auto simp: checkPower_at_def Let_def ts p split: if_splits)
  qed
qed

lemma checkPower_loop_Some:
  "checkPower_loop g execs pidx xs = Some e \<Longrightarrow> \<exists>t. checkPower_at g execs pidx t = Some e"
  by (induction xs) (auto split: option.splits)

lemma FitsGrant_Some:
  assumes "FitsGrant g existing proposal = Some e"
  shows "\<exists>code m. e = ConflictError code m \<and>
     (code = ConflictPower \<longrightarrow> m = g_MRID g \<or> m \<in> c_MRID ` set existing)"
proof (cases "g_CancelledAt g = None \<and> executable g")
  case False
  with assms show ?thesis by (auto simp: FitsGrant_def split: if_splits)
next
  case True
  then obtain w en p where we: "g_Window g = Some w" "g_Energy g = Some en" "g_Power g = Some p"
    by (auto simp: executable_def split: option.splits)
  let ?all = "with_proposal existing proposal"
  let ?i = "case proposal of None \<Rightarrow> None | Some _ \<Rightarrow> Some (length existing)"
  let ?each = "checkEach g ?i (- sign (re_Value en)) 0 ?all"
  have dir: "DirectionOf g = Inr (- sign (re_Value en))" by (simp add: DirectionOf_def we)
  consider "?each = Some e" | "?each = None" "checkPower g ?all ?i = Some e"
    | "checkEnergy g ?all = Some e"
    using assms True by (auto simp: FitsGrant_def Let_def dir split: option.splits)
  then show ?thesis
  proof cases
    case 1
    from checkEach_Some [OF this] we show ?thesis by blast
  next
    case 2
    then obtain t where "checkPower_at g ?all ?i t = Some e"
      by (auto simp: checkPower_def dest: checkPower_loop_Some)
    from checkPower_at_Some [OF this checkEach_None_target [OF 2(1)]] we obtain m
      where m: "e = ConflictError ConflictPower m" and
        n: "m = g_MRID g \<or> (\<exists>j < length ?all. Some j \<noteq> ?i \<and> m = c_MRID (?all ! j))"
      by auto
    from n have "m = g_MRID g \<or> m \<in> c_MRID ` set existing"
      by (cases proposal) (auto simp: nth_append less_Suc_eq)
    with m show ?thesis by blast
  next
    case 3
    then show ?thesis by (auto simp: checkEnergy_def we split: if_splits)
  qed
qed

section \<open>Properties\<close>

text \<open>
  C5: \<open>FitsGrant\<close> accepts exactly the execution sets that fit the grant at every second: the
  grant is live and executable, every execution is a target of the grant's direction inside
  its fleet and interval, the summed power at every instant (not only at the starts the code
  tests) is within the grant's power, the energy over all windows is within its energy, and
  the proposed execution has a positive duration.
\<close>

theorem FitsGrant_decides_fit:
  assumes "wf_grant g" and "\<forall>c \<in> set (with_proposal existing proposal). wf_control c"
  shows "FitsGrant g existing proposal = None \<longleftrightarrow>
     fits_bounds g (with_proposal existing proposal) \<and>
     (\<forall>p. proposal = Some p \<longrightarrow> Duration (c_Window p) \<noteq> 0)"
  by (rule FitsGrant_None [OF assms])

definition sample_grant :: grant where
  "sample_grant =
     \<lparr>g_MRID = ''G'', g_ID = ''1'', g_EndDeviceID = ''7'', g_FleetKey = ''F'',
      g_Window = Some \<lparr>Start = 1000, Duration = 3600\<rparr>,
      g_Energy = Some \<lparr>re_Value = - 50, re_Multiplier = 2\<rparr>,
      g_Power = Some \<lparr>ap_Value = 5, ap_Multiplier = 3\<rparr>,
      g_CancelledAt = None, g_Subject = ''S'', g_CreationTime = 900\<rparr>"

definition sample_control :: "string \<Rightarrow> int \<Rightarrow> 32 word \<Rightarrow> control" where
  "sample_control m s d =
     \<lparr>c_MRID = m, c_ID = m, c_Scope = ''7/1/1'', c_EndDeviceID = ''7'', c_FleetKey = ''F'',
      c_Window = \<lparr>Start = s, Duration = d\<rparr>, c_GrantMRID = ''G'',
      c_TargetW = Some \<lparr>ap_Value = 25, ap_Multiplier = 2\<rparr>, c_Reach = 2,
      c_Cancelled = False, c_FleetTotal = False\<rparr>"

theorem FitsGrant_decides_fit_witness:
  "fits_bounds sample_grant [sample_control ''A'' 1000 1800, sample_control ''B'' 2800 1800]"
proof -
  have "wf_grant sample_grant" by code_simp
  moreover have "wf_control (sample_control ''A'' 1000 1800)" by code_simp
  moreover have "wf_control (sample_control ''B'' 2800 1800)" by code_simp
  moreover have "FitsGrant sample_grant [sample_control ''A'' 1000 1800]
      (Some (sample_control ''B'' 2800 1800)) = None" by code_simp
  ultimately show ?thesis
    using FitsGrant_decides_fit [of sample_grant "[sample_control ''A'' 1000 1800]"
        "Some (sample_control ''B'' 2800 1800)"] by simp
qed

text \<open>
  C12: the energy the check compares with the grant (reach times duration times power, in
  64-bit arithmetic, summed as rationals) is the power drawn summed over every second of any
  span that holds the executions.
\<close>

theorem Committed_is_integral_of_power:
  assumes "\<forall>c \<in> set execs. wf_control c"
    and "\<forall>c \<in> set execs. lo \<le> Start (c_Window c) \<and> Start (c_Window c) + uint (Duration (c_Window c)) \<le> hi"
  shows "Committed execs = (\<Sum>t\<in>{lo..<hi}. power_at execs t)"
  using Committed_eq [OF assms(1)] energy_is_integral [OF assms(2)] by simp

theorem Committed_is_integral_of_power_witness:
  "(\<Sum>t\<in>{1000..<1020}. power_at [sample_control ''A'' 1000 10, sample_control ''B'' 1005 10] t) = 100000"
proof -
  let ?cs = "[sample_control ''A'' 1000 10, sample_control ''B'' 1005 10]"
  have "\<forall>c \<in> set ?cs. wf_control c" by code_simp
  moreover have "\<forall>c \<in> set ?cs. 1000 \<le> Start (c_Window c) \<and>
      Start (c_Window c) + uint (Duration (c_Window c)) \<le> 1020" by code_simp
  moreover have "Committed ?cs = 100000" by code_simp
  ultimately show ?thesis using Committed_is_integral_of_power [of ?cs 1000 1020] by simp
qed

text \<open>
  C13: \<open>FitsGrant\<close> never dereferences a nil field, and every refusal is a conflict error; a
  power conflict names an existing execution or the grant, never the proposal, whose mRID the
  caller does not know yet.
\<close>

theorem FitsGrant_refusal_is_conflict:
  assumes "FitsGrant g existing proposal = Some e"
  shows "\<exists>code m. e = ConflictError code m \<and>
     (code = ConflictPower \<longrightarrow> m = g_MRID g \<or> m \<in> c_MRID ` set existing)"
  by (rule FitsGrant_Some [OF assms])

theorem FitsGrant_refusal_is_conflict_witness:
  "\<exists>code m. FitsGrant sample_grant [sample_control ''A'' 1000 60] (Some (sample_control ''B'' 1030 60))
     = Some (ConflictError code m)"
proof -
  have "FitsGrant sample_grant [sample_control ''A'' 1000 60] (Some (sample_control ''B'' 1030 60))
      = Some (ConflictError ConflictPower ''A'')" by code_simp
  from FitsGrant_refusal_is_conflict [OF this] this show ?thesis by blast
qed

end
