(* ===== verification/SplitTargets.thy ===== *)
theory SplitTargets
  imports FitsGrant
begin

text \<open>
  \<open>internal/dercontrol/split.go\<close>: one power request divided over weighted shares by largest
  remainder, each share then encoded as an \<open>int16\<close> value and a power of ten.
  \<open>big.Rat\<close> is \<open>rat\<close>; \<open>int64\<close> arithmetic wraps. A nil weight is \<open>None\<close>.
\<close>

abbreviation (input) powerOfTen_min :: int where "powerOfTen_min \<equiv> - 9"
abbreviation (input) powerOfTen_max :: int where "powerOfTen_max \<equiv> 9"
abbreviation (input) int16_max :: int where "int16_max \<equiv> 32767"

definition ValidMultiplier :: "int \<Rightarrow> bool" where
  "ValidMultiplier m \<longleftrightarrow> powerOfTen_min \<le> m \<and> m \<le> powerOfTen_max"

record SplitShare =
  sh_Units :: int
  sh_TargetW :: "active_power option"

definition ErrSplitRequest :: err where
  "ErrSplitRequest = Errorf ''dercontrol: split needs x of at least 1, an allowed multiplier y, a sign of 1 or -1 and positive weights'' []"

definition ErrShareUnencodable :: err where
  "ErrShareUnencodable = Errorf ''dercontrol: a share does not fit an int16 value at any allowed multiplier'' []"

definition int16_of :: "int \<Rightarrow> int" where
  "int16_of v = (v + 2 ^ 15) mod 2 ^ 16 - 2 ^ 15"

text \<open>The loop of \<open>encodeUnits\<close> from multiplier \<open>m\<close>, with \<open>n\<close> multipliers left to try.\<close>

fun encode_loop :: "int \<Rightarrow> int \<Rightarrow> nat \<Rightarrow> int \<Rightarrow> int \<Rightarrow> err + active_power" where
  "encode_loop u sg 0 m dv = Inl ErrShareUnencodable"
| "encode_loop u sg (Suc n) m dv =
     (let v = quo (wrap64 (u + quo dv 2)) dv
      in if v \<le> int16_max
         then Inr \<lparr>ap_Value = int16_of (wrap64 (sg * v)), ap_Multiplier = m\<rparr>
         else encode_loop u sg n (m + 1) (wrap64 (dv * 10)))"

definition encodeUnits :: "int \<Rightarrow> int \<Rightarrow> int \<Rightarrow> err + active_power" where
  "encodeUnits u y sg = encode_loop u sg (nat (powerOfTen_max - y + 1)) y 1"

fun total_weight :: "rat option list \<Rightarrow> rat \<Rightarrow> rat option" where
  "total_weight [] acc = Some acc"
| "total_weight (None # ws) acc = None"
| "total_weight (Some w # ws) acc = (if w \<le> 0 then None else total_weight ws (acc + w))"

definition whole_of :: "rat \<Rightarrow> int" where
  "whole_of q = (case quotient_of q of (n, d) \<Rightarrow> quo n d)"

definition quota :: "int \<Rightarrow> rat \<Rightarrow> rat \<Rightarrow> rat" where
  "quota x tot w = of_int x * w / tot"

text \<open>The first loop: whole units, remainders, and the units still to give.\<close>

fun apportion :: "int \<Rightarrow> rat \<Rightarrow> rat list \<Rightarrow> int \<Rightarrow> int list \<times> rat list \<times> int" where
  "apportion x tot [] left = ([], [], left)"
| "apportion x tot (w # ws) left =
     (let q = quota x tot w; u = wrap64 (whole_of q);
          (us, rs, l) = apportion x tot ws (wrap64 (left - u))
      in (u # us, (q - of_int (whole_of q)) # rs, l))"

fun bump :: "nat list \<Rightarrow> int list \<Rightarrow> int list" where
  "bump [] us = us"
| "bump (n # ns) us = bump ns (us[n := wrap64 (us ! n + 1)])"

fun encode_all :: "int \<Rightarrow> int \<Rightarrow> int list \<Rightarrow> err + SplitShare list" where
  "encode_all y sg [] = Inr []"
| "encode_all y sg (u # us) =
     (case (if u = 0 then Inr None else map_sum id Some (encodeUnits u y sg)) of
        Inl e \<Rightarrow> Inl e
      | Inr p \<Rightarrow>
          (case encode_all y sg us of
             Inl e \<Rightarrow> Inl e
           | Inr shs \<Rightarrow> Inr (\<lparr>sh_Units = u, sh_TargetW = p\<rparr> # shs)))"

definition SplitTarget :: "int \<Rightarrow> int \<Rightarrow> int \<Rightarrow> rat option list \<Rightarrow> err + SplitShare list" where
  "SplitTarget x y sg weights =
     (if x < 1 \<or> \<not> ValidMultiplier y \<or> (sg \<noteq> 1 \<and> sg \<noteq> - 1) \<or> weights = []
      then Inl ErrSplitRequest
      else case total_weight weights 0 of
        None \<Rightarrow> Inl ErrSplitRequest
      | Some tot \<Rightarrow>
          (let ws = map the weights;
               (units, remainders, left) = apportion x tot ws x;
               order = sort_key (\<lambda>n. - remainders ! n) [0..<length weights]
           in if left < 0 \<or> int (length weights) < left
              then Inl (Panic ''slice bounds out of range'')
              else encode_all y sg (bump (take (nat left) order) units)))"

section \<open>The shares\<close>

lemma total_weight_Some:
  "total_weight (map Some ws) acc = (if \<forall>w \<in> set ws. 0 < w then Some (acc + sum_list ws) else None)"
  by (induction ws arbitrary: acc) (auto simp: add.assoc)

lemma whole_of_nonneg: "0 \<le> q \<Longrightarrow> whole_of q = \<lfloor>q\<rfloor>"
proof -
  assume q: "0 \<le> q"
  obtain n d where nd: "quotient_of q = (n, d)" by fastforce
  then have d: "0 < d" and e: "q = of_int n / of_int d"
    by (auto intro: quotient_of_denom_pos quotient_of_div)
  have "0 \<le> n" using q d by (simp add: e zero_le_divide_iff)
  with d show ?thesis by (simp add: whole_of_def nd quo_nonneg) (simp add: e floor_divide_of_int_eq)
qed

lemma quota_sum: "(\<Sum>w\<leftarrow>ws. quota x tot w) = of_int x * sum_list ws / tot"
  by (induction ws) (simp_all add: quota_def add_divide_distrib distrib_left)

lemma quota_nonneg: "0 \<le> x \<Longrightarrow> 0 < tot \<Longrightarrow> 0 < w \<Longrightarrow> 0 \<le> quota x tot w"
  by (simp add: quota_def)

lemma apportion_eq:
  assumes "0 \<le> x" and "0 < tot"
  shows "\<forall>w \<in> set ws. 0 < w \<Longrightarrow> 0 \<le> left \<Longrightarrow> left < 2 ^ 63 \<Longrightarrow>
    (\<Sum>w\<leftarrow>ws. quota x tot w) \<le> of_int left \<Longrightarrow>
    apportion x tot ws left =
      (map (\<lambda>w. \<lfloor>quota x tot w\<rfloor>) ws, map (\<lambda>w. frac (quota x tot w)) ws,
       left - (\<Sum>w\<leftarrow>ws. \<lfloor>quota x tot w\<rfloor>))"
proof (induction ws arbitrary: left)
  case (Cons w ws)
  let ?q = "quota x tot w"
  have q: "0 \<le> ?q" using assms Cons.prems(1) by (simp add: quota_nonneg)
  have rest: "0 \<le> (\<Sum>w\<leftarrow>ws. quota x tot w)"
    using assms Cons.prems(1) by (intro sum_list_map_nonneg quota_nonneg) auto
  have fl: "of_int \<lfloor>?q\<rfloor> \<le> ?q" by simp
  have le: "of_int \<lfloor>?q\<rfloor> + (\<Sum>w\<leftarrow>ws. quota x tot w) \<le> (of_int left :: rat)"
    using Cons.prems(4) fl by (simp only: list.map sum_list.Cons)
  then have "of_int \<lfloor>?q\<rfloor> \<le> (of_int left :: rat)" using rest by linarith
  then have b: "0 \<le> \<lfloor>?q\<rfloor>" "\<lfloor>?q\<rfloor> \<le> left" using q by simp_all
  have w: "wrap64 u = u" "wrap64 (left - u) = left - u" "0 \<le> left - u" "left - u < 2 ^ 63"
    if "0 \<le> u" "u \<le> left" for u
    using that Cons.prems(2,3) by (auto intro!: wrap64_id simp: is_int64_def)
  note w = w [OF b]
  have "apportion x tot ws (left - \<lfloor>?q\<rfloor>) =
      (map (\<lambda>w. \<lfloor>quota x tot w\<rfloor>) ws, map (\<lambda>w. frac (quota x tot w)) ws,
       left - \<lfloor>?q\<rfloor> - (\<Sum>w\<leftarrow>ws. \<lfloor>quota x tot w\<rfloor>))"
    using Cons.prems(1) le by (intro Cons.IH w(3,4)) auto
  then show ?case by (simp add: whole_of_nonneg [OF q] w(1,2) frac_def Let_def)
qed simp

lemma bump_eq:
  "distinct ns \<Longrightarrow> \<forall>n \<in> set ns. n < length us \<and> is_int64 (us ! n + 1) \<Longrightarrow>
   bump ns us = map (\<lambda>i. us ! i + (if i \<in> set ns then 1 else 0)) [0..<length us]"
proof (induction ns arbitrary: us)
  case Nil
  then show ?case by (simp add: map_nth)
next
  case (Cons n ns)
  let ?us = "us[n := us ! n + 1]"
  have "bump (n # ns) us = bump ns ?us" using Cons.prems by simp
  also have "\<dots> = map (\<lambda>i. ?us ! i + (if i \<in> set ns then 1 else 0)) [0..<length ?us]"
    using Cons.prems by (intro Cons.IH) (auto simp: nth_list_update)
  finally show ?case using Cons.prems by (auto simp: nth_list_update)
qed

lemma sum_indicator: "distinct ns \<Longrightarrow> set ns \<subseteq> {..<n} \<Longrightarrow>
   (\<Sum>i\<leftarrow>[0..<n]. if i \<in> set ns then 1 else 0 :: int) = int (length ns)"
proof -
  assume "distinct ns" "set ns \<subseteq> {..<n}"
  then have "int (length ns) = (\<Sum>i \<in> set ns. 1)" by (simp add: distinct_card)
  also have "\<dots> = (\<Sum>i \<in> {..<n}. if i \<in> set ns then 1 else 0)"
    using \<open>set ns \<subseteq> {..<n}\<close> by (simp add: sum.If_cases Int_absorb1)
  finally show ?thesis by (simp add: interv_sum_list_conv_sum_set_nat atLeast0LessThan)
qed

text \<open>
  The reference: floors of the quotas, and one more unit for the largest remainders, ties to
  the lower index.
\<close>

definition remaining :: "rat list \<Rightarrow> int \<Rightarrow> nat" where
  "remaining qs x = nat (x - (\<Sum>q\<leftarrow>qs. \<lfloor>q\<rfloor>))"

definition given :: "rat list \<Rightarrow> int \<Rightarrow> nat list" where
  "given qs x = take (remaining qs x) (sort_key (\<lambda>n. - frac (qs ! n)) [0..<length qs])"

definition largest_remainder :: "rat list \<Rightarrow> int \<Rightarrow> int list" where
  "largest_remainder qs x =
     map (\<lambda>i. \<lfloor>qs ! i\<rfloor> + (if i \<in> set (given qs x) then 1 else 0)) [0..<length qs]"

lemma sum_frac_le_count: "(\<Sum>w\<leftarrow>ws. frac (f w :: rat)) \<le> of_nat (length (filter (\<lambda>w. 0 < frac (f w)) ws))"
proof (induction ws)
  case (Cons w ws)
  have "frac (f w) < 1" by (simp add: frac_lt_1)
  show ?case
  proof (cases "0 < frac (f w)")
    case True
    then have "f w \<notin> \<int>" using frac_eq_0_iff [of "f w"] by auto
    then show ?thesis using Cons.IH \<open>frac (f w) < 1\<close> by (simp add: frac_gt_0_iff)
  next
    case False
    then have "frac (f w) = 0" "f w \<in> \<int>" using frac_ge_0 [of "f w"] frac_eq_0_iff [of "f w"] by auto
    then show ?thesis using Cons.IH by (simp del: frac_eq_0_iff add: frac_gt_0_iff)
  qed
qed simp

lemma insort_key_cong:
  "\<forall>y \<in> set ys. f y = g y \<Longrightarrow> f x = g x \<Longrightarrow> insort_key f x ys = insort_key g x ys"
  by (induction ys) auto

lemma sort_key_cong: "\<forall>y \<in> set xs. f y = g y \<Longrightarrow> sort_key f xs = sort_key g xs"
proof (induction xs)
  case (Cons x xs)
  then have "insort_key f x (sort_key g xs) = insort_key g x (sort_key g xs)"
    by (intro insort_key_cong) auto
  with Cons show ?case by simp
qed simp

text \<open>Sorting by descending remainder puts every positive remainder first.\<close>

lemma take_largest_positive:
  fixes r :: "nat \<Rightarrow> rat"
  assumes "k \<le> length (filter (\<lambda>n. 0 < r n) xs)" and "i \<in> set (take k (sort_key (\<lambda>n. - r n) xs))"
  shows "0 < r i"
proof -
  let ?ys = "sort_key (\<lambda>n. - r n) xs"
  have "sorted (rev (map r ?ys))"
  proof -
    have "sorted (map (\<lambda>n. - r n) ?ys)" by simp
    then have "sorted_wrt (\<lambda>a b. r b \<le> r a) ?ys" by (simp add: sorted_wrt_map)
    then show ?thesis by (simp add: sorted_wrt_rev sorted_wrt_map)
  qed
  then have tw: "filter (\<lambda>n. 0 < r n) ?ys = takeWhile (\<lambda>n. 0 < r n) ?ys"
    by (rule filter_equals_takeWhile_sorted_rev)
  have "length (filter (\<lambda>n. 0 < r n) ?ys) = length (filter (\<lambda>n. 0 < r n) xs)"
    by (metis mset_filter mset_sort size_mset)
  then have "k \<le> length (takeWhile (\<lambda>n. 0 < r n) ?ys)" using assms(1) tw by simp
  then have "set (take k ?ys) \<subseteq> set (takeWhile (\<lambda>n. 0 < r n) ?ys)"
    by (metis set_take_subset_set_take takeWhile_eq_take)
  with assms(2) show ?thesis by (blast dest: set_takeWhileD)
qed

lemma left_remainders:
  "sum_list qs = of_int x \<Longrightarrow> of_int (x - (\<Sum>q\<leftarrow>qs. \<lfloor>q\<rfloor>)) = (\<Sum>q\<leftarrow>qs. frac q)"
proof -
  assume "sum_list qs = of_int x"
  moreover have "(\<Sum>q\<leftarrow>qs. frac q) = sum_list qs - of_int (\<Sum>q\<leftarrow>qs. \<lfloor>q\<rfloor>)"
    by (induction qs) (simp_all add: frac_def)
  ultimately show ?thesis by simp
qed

lemma remaining_bounds:
  assumes "sum_list qs = of_int x"
  shows "0 \<le> x - (\<Sum>q\<leftarrow>qs. \<lfloor>q\<rfloor>)"
    and "remaining qs x \<le> length (filter (\<lambda>i. 0 < frac (qs ! i)) [0..<length qs])"
    and "remaining qs x \<le> length qs"
proof -
  let ?l = "x - (\<Sum>q\<leftarrow>qs. \<lfloor>q\<rfloor>)"
  have lr: "of_int ?l = (\<Sum>q\<leftarrow>qs. frac q)" using left_remainders [OF assms] .
  have "(0 :: rat) \<le> of_int ?l" unfolding lr by (rule sum_list_map_nonneg) simp
  then show l0: "0 \<le> ?l" by (simp only: of_int_0_le_iff)
  have "(of_int ?l :: rat) \<le> of_int (int (length (filter (\<lambda>q. 0 < frac q) qs)))"
    unfolding lr using sum_frac_le_count [of "\<lambda>q. q" qs] by simp
  then have "?l \<le> int (length (filter (\<lambda>q. 0 < frac q) qs))" by (simp only: of_int_le_iff)
  moreover have "filter (\<lambda>q. 0 < frac q) qs = map ((!) qs) (filter (\<lambda>i. 0 < frac (qs ! i)) [0..<length qs])"
    using arg_cong [OF map_nth [of qs], of "filter (\<lambda>q. 0 < frac q)"] by (simp only: filter_map comp_def)
  ultimately show le: "remaining qs x \<le> length (filter (\<lambda>i. 0 < frac (qs ! i)) [0..<length qs])"
    by (simp add: remaining_def)
  also have "\<dots> \<le> length qs" using length_filter_le [of _ "[0..<length qs]"] by simp
  finally show "remaining qs x \<le> length qs" .
qed

lemma given_props:
  assumes "sum_list qs = of_int x"
  shows "distinct (given qs x)" and "set (given qs x) \<subseteq> {..<length qs}"
    and "length (given qs x) = remaining qs x" and "i \<in> set (given qs x) \<Longrightarrow> 0 < frac (qs ! i)"
  using remaining_bounds(3) [OF assms] take_largest_positive [OF remaining_bounds(2) [OF assms], of i]
    set_take_subset [of "remaining qs x" "sort_key (\<lambda>n. - frac (qs ! n)) [0..<length qs]"]
  by (auto simp: given_def)

lemma largest_remainder_sum:
  assumes "sum_list qs = of_int x"
  shows "sum_list (largest_remainder qs x) = x"
proof -
  have "sum_list (largest_remainder qs x) =
      (\<Sum>i\<leftarrow>[0..<length qs]. \<lfloor>qs ! i\<rfloor>) + (\<Sum>i\<leftarrow>[0..<length qs]. if i \<in> set (given qs x) then 1 else 0)"
    by (simp add: largest_remainder_def sum_list_addf)
  also have "(\<Sum>i\<leftarrow>[0..<length qs]. \<lfloor>qs ! i\<rfloor>) = (\<Sum>q\<leftarrow>qs. \<lfloor>q\<rfloor>)"
    using arg_cong [OF map_nth [of qs], of "map floor"] by (simp only: map_map comp_def)
  also have "(\<Sum>i\<leftarrow>[0..<length qs]. if i \<in> set (given qs x) then 1 else 0) = int (remaining qs x)"
    using sum_indicator [OF given_props(1,2) [OF assms]] given_props(3) [OF assms] by simp
  finally show ?thesis using remaining_bounds(1) [OF assms] by (simp add: remaining_def)
qed

lemma largest_remainder_quota:
  assumes "sum_list qs = of_int x" and i: "i < length qs"
  shows "largest_remainder qs x ! i \<in> {\<lfloor>qs ! i\<rfloor>, \<lceil>qs ! i\<rceil>}"
proof (cases "i \<in> set (given qs x)")
  case True
  then have "0 < frac (qs ! i)" by (rule given_props(4) [OF assms(1)])
  then have "\<lceil>qs ! i\<rceil> = \<lfloor>qs ! i\<rfloor> + 1" by (simp add: ceiling_altdef frac_def)
  with True i show ?thesis by (simp add: largest_remainder_def)
qed (use i in \<open>simp add: largest_remainder_def\<close>)

lemma largest_remainder_bounds:
  assumes "sum_list qs = of_int x" and "\<forall>q \<in> set qs. 0 \<le> q" and "u \<in> set (largest_remainder qs x)"
  shows "0 \<le> u" and "u \<le> x"
proof -
  have nonneg: "0 \<le> v" if v: "v \<in> set (largest_remainder qs x)" for v
  proof -
    from v obtain i where i: "i < length qs" "v = largest_remainder qs x ! i"
      by (auto simp: largest_remainder_def)
    have "0 \<le> qs ! i" using assms(2) i(1) by simp
    then have "0 \<le> \<lfloor>qs ! i\<rfloor>" "0 \<le> \<lceil>qs ! i\<rceil>" by linarith+
    with largest_remainder_quota [OF assms(1) i(1)] show ?thesis by (auto simp: i(2))
  qed
  then show "0 \<le> u" using assms(3) .
  show "u \<le> x" using member_le_sum_list [of u "largest_remainder qs x"] nonneg assms(3)
    by (simp add: largest_remainder_sum [OF assms(1)])
qed

section \<open>The encoding of a share\<close>

text \<open>\<open>u\<close> in units of the \<open>k\<close>-th power of ten above the request's, rounded half up.\<close>

definition rounded :: "int \<Rightarrow> nat \<Rightarrow> int" where
  "rounded u k = (u + 10 ^ k div 2) div 10 ^ k"

abbreviation (input) max_units :: int where "max_units \<equiv> 8000000000000000000"

lemma rounded_near: "2 * \<bar>rounded u k * 10 ^ k - u\<bar> \<le> 10 ^ k"
proof -
  let ?d = "10 ^ k :: int"
  have *: "rounded u k * ?d = u + ?d div 2 - (u + ?d div 2) mod ?d"
    by (simp add: rounded_def minus_mod_eq_div_mult [symmetric])
  have "0 \<le> (u + ?d div 2) mod ?d" "(u + ?d div 2) mod ?d < ?d" by simp_all
  note mod = this
  show ?thesis
  proof (cases "k = 0")
    case False
    then have "?d = 2 * (?d div 2)" by (cases k) simp_all
    then have "2 * (u + ?d div 2 - (u + ?d div 2) mod ?d - u) = ?d - 2 * ((u + ?d div 2) mod ?d)" by simp
    with mod show ?thesis unfolding * by linarith
  qed (simp add: rounded_def)
qed

lemma power10_le: "k \<le> 18 \<Longrightarrow> (10 :: int) ^ k \<le> 1000000000000000000"
  using power_increasing [of k 18 "10 :: int"] by simp

lemma encode_value:
  assumes "0 \<le> u" and "u \<le> max_units" and "k \<le> 18"
  shows "quo (wrap64 (u + quo (10 ^ k) 2)) (10 ^ k) = rounded u k"
proof -
  define h :: int where "h = 10 ^ k div 2"
  have h: "0 \<le> h" "h \<le> 500000000000000000"
    using power10_le [OF assms(3)] by (simp_all add: h_def)
  have "quo (10 ^ k) 2 = h" by (simp add: quo_nonneg h_def)
  moreover have "wrap64 (u + h) = u + h" using assms(1,2) h by (simp add: is_int64_def)
  ultimately show ?thesis using assms(1) h by (simp add: quo_nonneg rounded_def h_def)
qed

lemma encode_loop_eq:
  assumes "0 \<le> u" and "u \<le> max_units" and "sg = 1 \<or> sg = - 1"
  shows "k + n \<le> 19 \<Longrightarrow> encode_loop u sg n m (10 ^ k) =
    (case find (\<lambda>j. rounded u j \<le> int16_max) [k..<k + n] of
       None \<Rightarrow> Inl ErrShareUnencodable
     | Some j \<Rightarrow> Inr \<lparr>ap_Value = sg * rounded u j, ap_Multiplier = m + int (j - k)\<rparr>)"
proof (induction n arbitrary: m k)
  case (Suc n)
  let ?v = "rounded u k"
  have v: "quo (wrap64 (u + quo (10 ^ k) 2)) (10 ^ k) = ?v"
    using Suc.prems assms by (intro encode_value) auto
  have nonneg: "0 \<le> ?v" using assms(1) by (simp add: rounded_def pos_imp_zdiv_nonneg_iff)
  have list: "[k..<k + Suc n] = k # [Suc k..<Suc k + n]" by (simp add: upt_conv_Cons)
  show ?case
  proof (cases "?v \<le> int16_max")
    case True
    have "int16_of (wrap64 (sg * ?v)) = sg * ?v"
      using assms(3) nonneg True by (auto simp: is_int64_def int16_of_def)
    with True show ?thesis unfolding list by (simp add: v)
  next
    case False
    have rest: "encode_loop u sg n (m + 1) (wrap64 (10 ^ k * 10)) = encode_loop u sg n (m + 1) (10 ^ Suc k)"
    proof (cases n)
      case (Suc j)
      then have "(10 :: int) ^ Suc k \<le> 1000000000000000000" using Suc.prems by (intro power10_le) auto
      then have "is_int64 (10 ^ k * 10)" by (simp add: is_int64_def mult.commute order_trans [of _ 0])
      then show ?thesis by (simp add: mult.commute)
    qed simp
    have sh: "m + 1 + int (j - Suc k) = m + int (j - k)"
      if "find (\<lambda>j. rounded u j \<le> int16_max) [Suc k..<Suc k + n] = Some j" for j
    proof -
      from that have "j \<in> set [Suc k..<Suc k + n]" unfolding find_Some_iff by (metis nth_mem)
      then show ?thesis unfolding set_upt by (simp add: of_nat_diff)
    qed
    from False Suc.IH [of "Suc k" "m + 1"] Suc.prems sh show ?thesis
      unfolding list by (simp add: v rest split: option.splits)
  qed
qed simp

definition first_fit :: "int \<Rightarrow> int \<Rightarrow> nat option" where
  "first_fit u y = find (\<lambda>j. rounded u j \<le> int16_max) [0..<nat (powerOfTen_max - y + 1)]"

lemma encodeUnits_eq:
  assumes "0 \<le> u" and "u \<le> max_units" and "sg = 1 \<or> sg = - 1" and "ValidMultiplier y"
  shows "encodeUnits u y sg =
    (case first_fit u y of
       None \<Rightarrow> Inl ErrShareUnencodable
     | Some j \<Rightarrow> Inr \<lparr>ap_Value = sg * rounded u j, ap_Multiplier = y + int j\<rparr>)"
  using encode_loop_eq [OF assms(1-3), of 0 "nat (powerOfTen_max - y + 1)" y] assms(4)
  by (auto simp: encodeUnits_def first_fit_def ValidMultiplier_def split: option.splits)

section \<open>Properties\<close>

text \<open>
  The share of weight \<open>w\<close> as the split reports it: \<open>u\<close> whole units, and nothing on the wire
  for none, else \<open>u\<close> rounded at the least multiplier that fits.
\<close>

definition encoded :: "int \<Rightarrow> int \<Rightarrow> SplitShare \<Rightarrow> bool" where
  "encoded y sg sh =
     (case sh_TargetW sh of
        None \<Rightarrow> sh_Units sh = 0
      | Some p \<Rightarrow>
          sh_Units sh > 0 \<and> y \<le> ap_Multiplier p \<and> ap_Multiplier p \<le> powerOfTen_max \<and>
          \<bar>ap_Value p\<bar> \<le> int16_max \<and>
          (let d = 10 ^ nat (ap_Multiplier p - y)
           in 2 * \<bar>ap_Value p * d - sg * sh_Units sh\<bar> \<le> d) \<and>
          (\<forall>j < nat (ap_Multiplier p - y). int16_max < rounded (sh_Units sh) j))"

lemma encodeUnits_encoded:
  assumes "0 < u" "u \<le> max_units" "sg = 1 \<or> sg = - 1" "ValidMultiplier y"
    and "encodeUnits u y sg = Inr p"
  shows "encoded y sg \<lparr>sh_Units = u, sh_TargetW = Some p\<rparr>"
proof -
  from assms encodeUnits_eq [of u sg y] obtain j where j: "first_fit u y = Some j"
    and p: "p = \<lparr>ap_Value = sg * rounded u j, ap_Multiplier = y + int j\<rparr>"
    by (auto split: option.splits)
  from j have lt: "j < nat (powerOfTen_max - y + 1)" and fit: "rounded u j \<le> int16_max"
    and least: "\<forall>i < j. int16_max < rounded u i"
    by (auto simp: first_fit_def find_Some_iff)
  have "0 \<le> rounded u j" using assms(1) by (simp add: rounded_def pos_imp_zdiv_nonneg_iff)
  moreover have "\<bar>sg * rounded u j * 10 ^ j - sg * u\<bar> = \<bar>rounded u j * 10 ^ j - u\<bar>"
    using assms(3) by auto
  ultimately show ?thesis
    using lt fit least assms(1,3) rounded_near [of u j] by (auto simp: encoded_def p Let_def)
qed

lemma encode_all_encoded:
  assumes "sg = 1 \<or> sg = - 1" "ValidMultiplier y"
  shows "\<forall>u \<in> set us. 0 \<le> u \<and> u \<le> max_units \<Longrightarrow> encode_all y sg us = Inr shs \<Longrightarrow>
    map sh_Units shs = us \<and> (\<forall>sh \<in> set shs. encoded y sg sh)"
proof (induction us arbitrary: shs)
  case (Cons u us)
  from Cons.prems(2) obtain p rest where
    p: "(if u = 0 then Inr None else map_sum id Some (encodeUnits u y sg)) = (Inr p :: err + _)"
    and rest: "encode_all y sg us = Inr rest" and shs: "shs = \<lparr>sh_Units = u, sh_TargetW = p\<rparr> # rest"
    by (auto split: sum.splits)
  have "encoded y sg \<lparr>sh_Units = u, sh_TargetW = p\<rparr>"
  proof (cases "u = 0")
    case False
    with p obtain q where "encodeUnits u y sg = Inr q" "p = Some q" by (cases "encodeUnits u y sg") auto
    with False Cons.prems(1) assms encodeUnits_encoded show ?thesis by auto
  qed (use p in \<open>simp add: encoded_def\<close>)
  with Cons.IH [OF _ rest] Cons.prems(1) show ?case by (simp add: shs)
qed simp

lemma encode_all_error:
  assumes "sg = 1 \<or> sg = - 1" "ValidMultiplier y"
  shows "\<forall>u \<in> set us. 0 \<le> u \<and> u \<le> max_units \<Longrightarrow> encode_all y sg us = Inl e \<Longrightarrow>
    e = ErrShareUnencodable \<and> (\<exists>u \<in> set us. u \<noteq> 0 \<and> first_fit u y = None)"
proof (induction us)
  case (Cons u us)
  show ?case
  proof (cases "u = 0 \<or> first_fit u y \<noteq> None")
    case True
    then obtain p where "(if u = 0 then Inr None else map_sum id Some (encodeUnits u y sg)) = (Inr p :: err + _)"
      using encodeUnits_eq [of u sg y] Cons.prems(1) assms by (cases "u = 0") auto
    with Cons show ?thesis by (auto split: sum.splits)
  next
    case False
    with encodeUnits_eq [of u sg y] Cons.prems assms show ?thesis by auto
  qed
qed simp

text \<open>The code's loops compute the reference.\<close>

lemma SplitTarget_eq:
  assumes x: "1 \<le> x" "x \<le> max_units" and ws: "ws \<noteq> []" "\<forall>w \<in> set ws. 0 < w"
    and y: "ValidMultiplier y" and sg: "sg = 1 \<or> sg = - 1"
  defines "qs \<equiv> map (quota x (sum_list ws)) ws"
  shows "SplitTarget x y sg (map Some ws) = encode_all y sg (largest_remainder qs x)"
    and "sum_list qs = of_int x" and "\<forall>q \<in> set qs. 0 \<le> q"
proof -
  let ?fl = "map (\<lambda>q. \<lfloor>q\<rfloor>) qs"
  have tot: "0 < sum_list ws"
    using ws by (cases ws) (auto intro!: add_pos_nonneg sum_list_nonneg simp: order_less_imp_le)
  show qsum: "sum_list qs = of_int x" using tot by (simp add: qs_def quota_sum)
  show q0: "\<forall>q \<in> set qs. 0 \<le> q" using ws x tot by (auto simp: qs_def quota_nonneg)
  have app: "apportion x (sum_list ws) ws x = (?fl, map frac qs, x - (\<Sum>q\<leftarrow>qs. \<lfloor>q\<rfloor>))"
    using apportion_eq [of x "sum_list ws" ws x] x tot ws qsum by (simp add: qs_def comp_def)
  have ord: "sort_key (\<lambda>n. - map frac qs ! n) [0..<length qs] = sort_key (\<lambda>n. - frac (qs ! n)) [0..<length qs]"
    by (rule sort_key_cong) simp
  have small: "is_int64 (?fl ! n + 1)" if "n < length qs" for n
  proof -
    have "qs ! n \<in> set qs" using that by simp
    then have "qs ! n \<le> of_int x" "0 \<le> qs ! n" using member_le_sum_list [of "qs ! n" qs] q0 qsum by auto
    then have "0 \<le> \<lfloor>qs ! n\<rfloor>" "\<lfloor>qs ! n\<rfloor> \<le> x" by linarith+
    moreover have "is_int64 (u + 1)" if "0 \<le> u" "u \<le> x" for u
      using x that by (simp add: is_int64_def)
    ultimately have "is_int64 (\<lfloor>qs ! n\<rfloor> + 1)" by blast
    with that show ?thesis by simp
  qed
  have "bump (given qs x) ?fl = largest_remainder qs x"
    using given_props(1,2) [OF qsum] small by (subst bump_eq) (auto simp: largest_remainder_def)
  then show "SplitTarget x y sg (map Some ws) = encode_all y sg (largest_remainder qs x)"
    using x ws y sg remaining_bounds [OF qsum]
    by (auto simp: SplitTarget_def total_weight_Some app comp_def ord qs_def [symmetric] given_def remaining_def
        simp flip: length_map [of "quota x (sum_list ws)" ws])
qed

text \<open>
  C23: splitting a request of at most 8*10^18 units, so that the sums stay within an int64, over
  positive weights. When every share can be encoded the shares sum
  to the request exactly, each is the floor or the ceiling of its exact proportional quota, and
  each wire value is the share rounded to the nearest at the least multiplier not finer than
  the request at which an int16 holds it. The only error is a share that fits at no multiplier.
\<close>

theorem SplitTarget_apportions:
  assumes "1 \<le> x" "x \<le> max_units" and "ws \<noteq> []" "\<forall>w \<in> set ws. 0 < w"
    and "ValidMultiplier y" and "sg = 1 \<or> sg = - 1"
  shows "case SplitTarget x y sg (map Some ws) of
      Inr shs \<Rightarrow>
        length shs = length ws \<and> (\<Sum>sh\<leftarrow>shs. sh_Units sh) = x \<and>
        (\<forall>i < length ws. sh_Units (shs ! i) \<in>
           {\<lfloor>of_int x * (ws ! i) / sum_list ws\<rfloor>, \<lceil>of_int x * (ws ! i) / sum_list ws\<rceil>}) \<and>
        (\<forall>sh \<in> set shs. encoded y sg sh)
    | Inl e \<Rightarrow> e = ErrShareUnencodable \<and>
        (\<exists>u. 1 \<le> u \<and> u \<le> x \<and> first_fit u y = None)"
proof -
  define qs where "qs = map (quota x (sum_list ws)) ws"
  note eq = SplitTarget_eq [OF assms, folded qs_def]
  have b: "0 \<le> u \<and> u \<le> x" if "u \<in> set (largest_remainder qs x)" for u
    using largest_remainder_bounds [OF eq(2,3) that] by simp
  then have b': "\<forall>u \<in> set (largest_remainder qs x). 0 \<le> u \<and> u \<le> max_units"
    using assms(2) by fastforce
  show ?thesis
  proof (cases "encode_all y sg (largest_remainder qs x)")
    case (Inl e)
    from encode_all_error [OF assms(6,5) b' this] obtain u where
      "e = ErrShareUnencodable" "u \<in> set (largest_remainder qs x)" "u \<noteq> 0" "first_fit u y = None" by blast
    with b [of u] show ?thesis by (auto simp: eq(1) Inl intro!: exI [of _ u])
  next
    case (Inr shs)
    from encode_all_encoded [OF assms(6,5) b' this]
    have m: "map sh_Units shs = largest_remainder qs x" and e: "\<forall>sh \<in> set shs. encoded y sg sh" by auto
    have len: "length shs = length ws"
      using arg_cong [OF m, of length] by (simp add: largest_remainder_def qs_def)
    have "sh_Units (shs ! i) = largest_remainder qs x ! i" if "i < length ws" for i
      using m len that by (metis nth_map)
    moreover have "largest_remainder qs x ! i \<in> {\<lfloor>of_int x * (ws ! i) / sum_list ws\<rfloor>, \<lceil>of_int x * (ws ! i) / sum_list ws\<rceil>}"
      if "i < length ws" for i
      using largest_remainder_quota [OF eq(2), of i] that by (simp add: qs_def quota_def)
    ultimately show ?thesis
      using len e largest_remainder_sum [OF eq(2)] unfolding eq(1) Inr by (simp add: m)
  qed
qed

theorem SplitTarget_apportions_witness:
  "ValidMultiplier 3 \<and> SplitTarget 10 3 1 (map Some [1, 1, 1]) = Inr
     [\<lparr>sh_Units = 4, sh_TargetW = Some \<lparr>ap_Value = 4, ap_Multiplier = 3\<rparr>\<rparr>,
      \<lparr>sh_Units = 3, sh_TargetW = Some \<lparr>ap_Value = 3, ap_Multiplier = 3\<rparr>\<rparr>,
      \<lparr>sh_Units = 3, sh_TargetW = Some \<lparr>ap_Value = 3, ap_Multiplier = 3\<rparr>\<rparr>] \<and>
   (\<Sum>u\<leftarrow>[4, 3, 3]. u) = (10 :: int)"
proof -
  have v: "ValidMultiplier 3" by (simp add: ValidMultiplier_def)
  have e: "SplitTarget 10 3 1 (map Some [1, 1, 1]) = Inr
     [\<lparr>sh_Units = 4, sh_TargetW = Some \<lparr>ap_Value = 4, ap_Multiplier = 3\<rparr>\<rparr>,
      \<lparr>sh_Units = 3, sh_TargetW = Some \<lparr>ap_Value = 3, ap_Multiplier = 3\<rparr>\<rparr>,
      \<lparr>sh_Units = 3, sh_TargetW = Some \<lparr>ap_Value = 3, ap_Multiplier = 3\<rparr>\<rparr>]"
    by code_simp
  from SplitTarget_apportions [of 10 "[1, 1, 1]" 3 1, unfolded e] v show ?thesis using e by simp
qed

end
