(* ===== verification/MemStore.thy ===== *)
theory MemStore
  imports Errors
begin

text \<open>
  \<open>pkg/store/store.go\<close> (list options and results) and \<open>pkg/store/memory/memory.go\<close>,
  \<open>scoped.go\<close>: the in-memory collections every other store wraps. A Go map is a partial
  function; \<open>Copy\<close> is the identity, since values here are immutable. Each method runs under
  its mutex, so a method is one atomic step of the state.
\<close>

section \<open>List options\<close>

datatype SortKey = SortByIDAsc | SortByIDDesc | SortByListOrdering | SortOther nat

record ListOptions =
  o_Start :: "32 word"
  o_Limit :: "32 word"
  o_After :: string
  o_Sort :: SortKey
  o_Unbounded :: bool

record 'a ListResult =
  lr_All :: "32 word"
  lr_Results :: "32 word"
  lr_Items :: "'a list"

abbreviation zero_result :: "'a ListResult" where
  "zero_result \<equiv> \<lparr>lr_All = 0, lr_Results = 0, lr_Items = []\<rparr>"

abbreviation unbounded_options :: ListOptions where
  "unbounded_options \<equiv> \<lparr>o_Start = 0, o_Limit = 0, o_After = [], o_Sort = SortByIDAsc, o_Unbounded = True\<rparr>"

definition ListOptions_Validate :: "ListOptions \<Rightarrow> err option" where
  "ListOptions_Validate opts =
     (if o_Unbounded opts \<and> o_Limit opts \<noteq> 0
      then Some (Errorf ''Unbounded set with Limit'' [ErrInvalidListOptions]) else None)"

definition validateListOptions :: "ListOptions \<Rightarrow> err option" where
  "validateListOptions opts =
     (case ListOptions_Validate opts of
        Some e \<Rightarrow> Some e
      | None \<Rightarrow>
          (case o_Sort opts of
             SortByIDAsc \<Rightarrow> None
           | SortByIDDesc \<Rightarrow> None
           | _ \<Rightarrow> Some (Errorf ''unsupported sort key'' [ErrUnsupportedSort])))"

section \<open>Binary search\<close>

text \<open>
  \<open>slices.BinarySearchFunc\<close>: the loop over \<open>[i, j)\<close>, with \<open>below\<close> the test
  \<open>cmp(x, target) < 0\<close>.
\<close>

function search_loop :: "('a \<Rightarrow> bool) \<Rightarrow> 'a list \<Rightarrow> nat \<Rightarrow> nat \<Rightarrow> nat" where
  "search_loop below xs i j =
     (if i < j then
        (let h = (i + j) div 2
         in if below (xs ! h) then search_loop below xs (h + 1) j else search_loop below xs i h)
      else i)"
  by pat_completeness auto
termination by (relation "measure (\<lambda>(_, _, i, j). j - i)") auto

declare search_loop.simps [simp del]

definition BinarySearch :: "string list \<Rightarrow> string \<Rightarrow> nat \<times> bool" where
  "BinarySearch xs target =
     (let i = search_loop (\<lambda>x. x < target) xs 0 (length xs)
      in (i, i < length xs \<and> xs ! i = target))"

definition findAfter :: "string list \<Rightarrow> string \<Rightarrow> SortKey \<Rightarrow> nat" where
  "findAfter ks after srt =
     (let below = (if srt = SortByIDDesc then (\<lambda>x. after < x) else (\<lambda>x. x < after));
          i = search_loop below ks 0 (length ks)
      in if i < length ks \<and> ks ! i = after then i + 1 else i)"

text \<open>\<open>slices.Insert(xs, i, x)\<close> and \<open>slices.Delete(xs, i, i+1)\<close>\<close>

definition slice_insert :: "'a list \<Rightarrow> nat \<Rightarrow> 'a \<Rightarrow> 'a list" where
  "slice_insert xs i x = take i xs @ x # drop i xs"

definition slice_delete :: "'a list \<Rightarrow> nat \<Rightarrow> 'a list" where
  "slice_delete xs i = take i xs @ drop (i + 1) xs"

section \<open>Store\<close>

record 'a Store =
  data :: "string \<rightharpoonup> 'a"
  keys :: "string list"

definition NewStore :: "'a Store" where
  "NewStore = \<lparr>data = Map.empty, keys = []\<rparr>"

definition Store_Get :: "'a Store \<Rightarrow> string \<Rightarrow> err + 'a" where
  "Store_Get s rid = (case data s rid of None \<Rightarrow> Inl ErrNotFound | Some item \<Rightarrow> Inr item)"

definition Store_List :: "'a Store \<Rightarrow> ListOptions \<Rightarrow> err + 'a ListResult" where
  "Store_List s opts =
     (case validateListOptions opts of
        Some e \<Rightarrow> Inl e
      | None \<Rightarrow>
          (let all = word_of_nat (length (keys s)) :: 32 word;
               ks = (if o_Sort opts = SortByIDDesc then rev (keys s) else keys s);
               ks = (if o_After opts \<noteq> []
                     then drop (findAfter ks (o_After opts) (o_Sort opts)) ks else ks);
               nothing = \<lparr>lr_All = all, lr_Results = 0, lr_Items = []\<rparr>
           in if o_Start opts \<ge> word_of_nat (length ks) then Inr nothing
              else
                (let ks = drop (unat (o_Start opts)) ks;
                     page = (\<lambda>ks. \<lparr>lr_All = all, lr_Results = word_of_nat (length ks),
                                   lr_Items = map (\<lambda>k. the (data s k)) ks\<rparr>)
                 in if o_Unbounded opts then Inr (page ks)
                    else if o_Limit opts = 0 then Inr nothing
                    else if o_Limit opts > word_of_nat (length ks)
                    then Inr (page (take (unat (word_of_nat (length ks) :: 32 word)) ks))
                    else Inr (page (take (unat (o_Limit opts)) ks)))))"

definition Store_Create :: "string \<Rightarrow> 'a \<Rightarrow> (err, 'a Store, unit) io" where
  "Store_Create rid resource s =
     (if data s rid \<noteq> None then (Inl ErrAlreadyExists, s)
      else (Inr (), s\<lparr>data := (data s)(rid \<mapsto> resource),
                      keys := slice_insert (keys s) (fst (BinarySearch (keys s) rid)) rid\<rparr>))"

definition Store_Update :: "string \<Rightarrow> 'a \<Rightarrow> (err, 'a Store, unit) io" where
  "Store_Update rid resource s =
     (if data s rid = None then (Inl ErrNotFound, s)
      else (Inr (), s\<lparr>data := (data s)(rid \<mapsto> resource)\<rparr>))"

definition Store_Delete :: "string \<Rightarrow> (err, 'a Store, unit) io" where
  "Store_Delete rid s =
     (if data s rid = None then (Inl ErrNotFound, s)
      else (let (idx, found) = BinarySearch (keys s) rid
            in (Inr (), s\<lparr>data := (data s)(rid := None),
                          keys := (if found then slice_delete (keys s) idx else keys s)\<rparr>)))"

definition Store_Count :: "'a Store \<Rightarrow> 32 word" where
  "Store_Count s = word_of_nat (card (dom (data s)))"

section \<open>ScopedStore\<close>

record 'a ScopedStore =
  stores :: "string \<rightharpoonup> 'a Store"

definition NewScopedStore :: "'a ScopedStore" where
  "NewScopedStore = \<lparr>stores = Map.empty\<rparr>"

definition ForParent :: "'a ScopedStore \<Rightarrow> string \<Rightarrow> 'a Store \<times> 'a ScopedStore" where
  "ForParent s parentID =
     (case stores s parentID of
        Some st \<Rightarrow> (st, s)
      | None \<Rightarrow> (NewStore, s\<lparr>stores := (stores s)(parentID \<mapsto> NewStore)\<rparr>))"

definition parentStore :: "'a ScopedStore \<Rightarrow> string \<Rightarrow> 'a Store option" where
  "parentStore s parentID = stores s parentID"

definition Scoped_HasParent :: "'a ScopedStore \<Rightarrow> string \<Rightarrow> bool" where
  "Scoped_HasParent s parentID \<longleftrightarrow> stores s parentID \<noteq> None"

definition Scoped_Parents :: "'a ScopedStore \<Rightarrow> string list" where
  "Scoped_Parents s = sorted_list_of_set (dom (stores s))"

definition Scoped_Get :: "'a ScopedStore \<Rightarrow> string \<Rightarrow> string \<Rightarrow> err + 'a" where
  "Scoped_Get s parentID rid =
     (case parentStore s parentID of None \<Rightarrow> Inl ErrNotFound | Some st \<Rightarrow> Store_Get st rid)"

definition Scoped_List :: "'a ScopedStore \<Rightarrow> string \<Rightarrow> ListOptions \<Rightarrow> err + 'a ListResult" where
  "Scoped_List s parentID opts =
     (case parentStore s parentID of
        None \<Rightarrow> (case validateListOptions opts of Some e \<Rightarrow> Inl e | None \<Rightarrow> Inr zero_result)
      | Some st \<Rightarrow> Store_List st opts)"

text \<open>A write through the pointer the parent map holds: the child store is replaced in place.\<close>

definition put_child :: "'a ScopedStore \<Rightarrow> string \<Rightarrow> 'e \<times> 'a Store \<Rightarrow> 'e \<times> 'a ScopedStore" where
  "put_child s parentID r = (fst r, s\<lparr>stores := (stores s)(parentID \<mapsto> snd r)\<rparr>)"

definition Scoped_Create :: "string \<Rightarrow> string \<Rightarrow> 'a \<Rightarrow> (err, 'a ScopedStore, unit) io" where
  "Scoped_Create parentID rid resource s =
     (let (st, s') = ForParent s parentID in put_child s' parentID (Store_Create rid resource st))"

definition Scoped_Update :: "string \<Rightarrow> string \<Rightarrow> 'a \<Rightarrow> (err, 'a ScopedStore, unit) io" where
  "Scoped_Update parentID rid resource s =
     (case parentStore s parentID of
        None \<Rightarrow> (Inl ErrNotFound, s)
      | Some st \<Rightarrow> put_child s parentID (Store_Update rid resource st))"

definition Scoped_Delete :: "string \<Rightarrow> string \<Rightarrow> (err, 'a ScopedStore, unit) io" where
  "Scoped_Delete parentID rid s =
     (case parentStore s parentID of
        None \<Rightarrow> (Inl ErrNotFound, s)
      | Some st \<Rightarrow> put_child s parentID (Store_Delete rid st))"

definition Scoped_Count :: "'a ScopedStore \<Rightarrow> string \<Rightarrow> 32 word" where
  "Scoped_Count s parentID =
     (case parentStore s parentID of None \<Rightarrow> 0 | Some st \<Rightarrow> Store_Count st)"

definition Scoped_DeleteParent :: "string \<Rightarrow> (err, 'a ScopedStore, 32 word) io" where
  "Scoped_DeleteParent parentID s =
     (case stores s parentID of
        None \<Rightarrow> (Inr 0, s)
      | Some st \<Rightarrow> (Inr (Store_Count st), s\<lparr>stores := (stores s)(parentID := None)\<rparr>))"

text \<open>The total of the detached counts does not depend on the order the Go map yields them in.\<close>

definition Scoped_DeleteParentsWithPrefix :: "string \<Rightarrow> (err, 'a ScopedStore, 32 word) io" where
  "Scoped_DeleteParentsWithPrefix pre s =
     (if pre = [] then (Inl (Errorf ''memory: DeleteParentsWithPrefix: prefix is required'' []), s)
      else (let gone = filter (prefix pre) (Scoped_Parents s)
            in (Inr (\<Sum>p\<leftarrow>gone. Scoped_Count s p),
                s\<lparr>stores := (\<lambda>p. if prefix pre p then None else stores s p)\<rparr>)))"


section \<open>Search in an ordered list\<close>

lemma search_loop_takeWhile:
  assumes "i \<le> j" and "j \<le> length xs"
    and "\<forall>k<i. below (xs ! k)" and "\<forall>k. j \<le> k \<and> k < length xs \<longrightarrow> \<not> below (xs ! k)"
    and "\<forall>b < length xs. \<forall>a \<le> b. below (xs ! b) \<longrightarrow> below (xs ! a)"
  shows "search_loop below xs i j = length (takeWhile below xs)"
  using assms
proof (induction below xs i j rule: search_loop.induct)
  case (1 below xs i j)
  note prems = "1.prems"
  show ?case
  proof (cases "i < j")
    case False
    with prems have "takeWhile below xs = take i xs"
      by (intro takeWhile_eq_take_P_nth) auto
    with False prems show ?thesis by (simp add: search_loop.simps)
  next
    case True
    define h where "h = (i + j) div 2"
    have h: "i \<le> h" "h < j" using True by (auto simp: h_def)
    note step = search_loop.simps [of below xs i j, folded h_def, unfolded Let_def]
    show ?thesis
    proof (cases "below (xs ! h)")
      case b: True
      have "below (xs ! k)" if "k < h + 1" for k
      proof -
        from that have "k \<le> h" by simp
        then show ?thesis using prems(2,5) b h(2) by (meson order.strict_trans2)
      qed
      then have "search_loop below xs (h + 1) j = length (takeWhile below xs)"
        using h prems(2,4,5) by (intro "1.IH"(1) [OF True h_def b]) (simp_all add: Suc_leI)
      then show ?thesis using True b step by simp
    next
      case b: False
      have "\<forall>k. h \<le> k \<and> k < length xs \<longrightarrow> \<not> below (xs ! k)"
        using b prems(5) by blast
      then have "search_loop below xs i h = length (takeWhile below xs)"
        using h prems(2,3,5) by (intro "1.IH"(2) [OF True h_def b]) simp_all
      then show ?thesis using True b step by simp
    qed
  qed
qed

lemma search_loop_sorted:
  assumes "sorted_wrt R xs" and "transp R"
  shows "search_loop (\<lambda>x. R x t) xs 0 (length xs) = length (takeWhile (\<lambda>x. R x t) xs)"
proof (rule search_loop_takeWhile)
  have "R (xs ! a) t" if "b < length xs" "a \<le> b" "R (xs ! b) t" for a b
    using that assms by (cases "a = b") (auto simp: sorted_wrt_iff_nth_less intro: transpD [of R _ "xs ! b"])
  then show "\<forall>b < length xs. \<forall>a \<le> b. R (xs ! b) t \<longrightarrow> R (xs ! a) t" by blast
qed auto

lemma BinarySearch_sorted:
  assumes "sorted_wrt (<) xs"
  shows "fst (BinarySearch xs t) = length (takeWhile (\<lambda>x. x < t) xs)"
    and "snd (BinarySearch xs t) \<longleftrightarrow> t \<in> set xs"
proof -
  let ?i = "length (takeWhile (\<lambda>x. x < t) xs)"
  have i: "search_loop (\<lambda>x. x < t) xs 0 (length xs) = ?i"
    using assms by (intro search_loop_sorted) (auto simp: transp_def)
  then show "fst (BinarySearch xs t) = ?i" by (simp add: BinarySearch_def Let_def)
  have "?i < length xs \<and> xs ! ?i = t \<longleftrightarrow> t \<in> set xs"
    using assms by (induction xs) auto
  with i show "snd (BinarySearch xs t) \<longleftrightarrow> t \<in> set xs" by (simp add: BinarySearch_def Let_def)
qed

lemma slice_insert_sorted:
  assumes "sorted_wrt (<) xs" and "t \<notin> set xs"
  defines "ys \<equiv> slice_insert xs (fst (BinarySearch xs t)) t"
  shows "sorted_wrt (<) ys" and "set ys = insert t (set xs)"
proof -
  have ys: "ys = takeWhile (\<lambda>x. x < t) xs @ t # dropWhile (\<lambda>x. x < t) xs"
    by (simp add: ys_def slice_insert_def BinarySearch_sorted(1) [OF assms(1)]
        takeWhile_eq_take [symmetric] dropWhile_eq_drop [symmetric])
  have "sorted_wrt (<) (takeWhile (\<lambda>x. x < t) xs @ t # dropWhile (\<lambda>x. x < t) xs)"
    using assms(1,2) by (induction xs) (auto dest: set_takeWhileD set_dropWhileD)
  with ys show "sorted_wrt (<) ys" by simp
  have "set (takeWhile (\<lambda>x. x < t) xs) \<union> set (dropWhile (\<lambda>x. x < t) xs) = set xs"
    by (simp flip: set_append)
  then show "set ys = insert t (set xs)" unfolding ys by auto
qed

lemma slice_delete_sorted:
  assumes "sorted_wrt (<) xs" and "t \<in> set xs"
  shows "slice_delete xs (fst (BinarySearch xs t)) = remove1 t xs"
proof -
  have "take (length (takeWhile (\<lambda>x. x < t) xs)) xs @
        drop (length (takeWhile (\<lambda>x. x < t) xs) + 1) xs = remove1 t xs"
    using assms by (induction xs) auto
  then show ?thesis by (simp add: slice_delete_def BinarySearch_sorted(1) [OF assms(1)])
qed

lemma drop_after:
  fixes R :: "'a \<Rightarrow> 'a \<Rightarrow> bool"
  assumes "sorted_wrt R ks" and "asymp R" and "totalp R" and "transp R"
  shows "drop (let i = length (takeWhile (\<lambda>x. R x a) ks)
               in if i < length ks \<and> ks ! i = a then i + 1 else i) ks = filter (R a) ks"
  using assms(1)
proof (induction ks)
  case (Cons x xs)
  consider "R x a" | "x = a" | "\<not> R x a" "x \<noteq> a" "R a x"
    using assms(3) by (auto simp: totalp_on_def)
  then show ?case
  proof cases
    case 1
    then have "\<not> R a x" using assms(2) by (auto dest: asympD)
    with 1 Cons show ?thesis by (auto simp: Let_def split: if_splits)
  next
    case 2
    then have "\<not> R a a" using assms(2) by (auto dest: asympD)
    moreover have "filter (R a) xs = xs" using 2 Cons.prems by simp
    ultimately show ?thesis using 2 by simp
  next
    case 3
    then have "filter (R a) xs = xs" using Cons.prems assms(4) by (auto simp: filter_id_conv dest: transpD)
    with 3 show ?thesis by simp
  qed
qed simp

lemma drop_findAfter:
  assumes "sorted_wrt (<) ks"
  shows "drop (findAfter ks a SortByIDAsc) ks = filter (\<lambda>k. a < k) ks"
    and "drop (findAfter (rev ks) a SortByIDDesc) (rev ks) = filter (\<lambda>k. k < a) (rev ks)"
proof -
  have "search_loop (\<lambda>x. x < a) ks 0 (length ks) = length (takeWhile (\<lambda>x. x < a) ks)"
    using assms by (intro search_loop_sorted) simp_all
  then have "findAfter ks a SortByIDAsc = (let i = length (takeWhile (\<lambda>x. x < a) ks)
               in if i < length ks \<and> ks ! i = a then i + 1 else i)"
    by (simp add: findAfter_def)
  then show "drop (findAfter ks a SortByIDAsc) ks = filter (\<lambda>k. a < k) ks"
    using drop_after [of "(<)" ks a] assms by simp
  have r: "sorted_wrt (>) (rev ks)" using assms by (simp add: sorted_wrt_rev)
  then have "search_loop (\<lambda>x. a < x) (rev ks) 0 (length (rev ks)) = length (takeWhile (\<lambda>x. a < x) (rev ks))"
    by (intro search_loop_sorted [of "(>)"]) simp_all
  then have "findAfter (rev ks) a SortByIDDesc = (let i = length (takeWhile (\<lambda>x. a < x) (rev ks))
               in if i < length (rev ks) \<and> rev ks ! i = a then i + 1 else i)"
    by (simp add: findAfter_def)
  then show "drop (findAfter (rev ks) a SortByIDDesc) (rev ks) = filter (\<lambda>k. k < a) (rev ks)"
    using drop_after [of "(>)" "rev ks" a] r by simp
qed


section \<open>The collection invariant and the reference page\<close>

definition wf_store :: "'a Store \<Rightarrow> bool" where
  "wf_store s \<longleftrightarrow> sorted_wrt (<) (keys s) \<and> set (keys s) = dom (data s)"

definition wf_scoped :: "'a ScopedStore \<Rightarrow> bool" where
  "wf_scoped s \<longleftrightarrow> finite (dom (stores s)) \<and> (\<forall>st \<in> ran (stores s). wf_store st)"

text \<open>
  The reference page: the keys of the collection in the requested order, those not after the
  \<open>After\<close> key dropped, then \<open>Start\<close> of them skipped and at most \<open>Limit\<close> kept.
\<close>

definition ordered_keys :: "'a Store \<Rightarrow> SortKey \<Rightarrow> string list" where
  "ordered_keys s srt =
     (let ks = sorted_list_of_set (dom (data s)) in if srt = SortByIDDesc then rev ks else ks)"

definition after_key :: "ListOptions \<Rightarrow> string \<Rightarrow> bool" where
  "after_key opts k \<longleftrightarrow> o_After opts = [] \<or>
     (if o_Sort opts = SortByIDDesc then k < o_After opts else o_After opts < k)"

definition reference_page :: "'a Store \<Rightarrow> ListOptions \<Rightarrow> string list" where
  "reference_page s opts =
     (let ks = drop (unat (o_Start opts)) (filter (after_key opts) (ordered_keys s (o_Sort opts)))
      in if o_Unbounded opts then ks else take (unat (o_Limit opts)) ks)"

lemma wf_store_keys: "wf_store s \<Longrightarrow> keys s = sorted_list_of_set (dom (data s))"
  by (metis wf_store_def sorted_list_of_set.idem_if_sorted_distinct strict_sorted_iff)

lemma wf_store_distinct: "wf_store s \<Longrightarrow> distinct (keys s)"
  by (simp add: wf_store_def strict_sorted_iff)

lemma wf_store_length: "wf_store s \<Longrightarrow> length (keys s) = card (dom (data s))"
  by (metis wf_store_def wf_store_distinct distinct_card)

lemma unat_of_nat_lt: "n < 2 ^ 32 \<Longrightarrow> unat (word_of_nat n :: 32 word) = n"
  by (simp add: unat_of_nat take_bit_nat_eq_self)

lemma word_of_nat_le_iff:
  "n < 2 ^ 32 \<Longrightarrow> word_of_nat n \<le> (w :: 32 word) \<longleftrightarrow> n \<le> unat w"
  by (simp add: word_le_nat_alt unat_of_nat_lt)

lemma word_of_nat_less_iff:
  "n < 2 ^ 32 \<Longrightarrow> word_of_nat n < (w :: 32 word) \<longleftrightarrow> n < unat w"
  by (simp add: word_less_nat_alt unat_of_nat_lt)

lemma after_keys_eq:
  assumes "wf_store s" and "o_Sort opts \<in> {SortByIDAsc, SortByIDDesc}"
  defines "ks \<equiv> if o_Sort opts = SortByIDDesc then rev (keys s) else keys s"
  shows "(if o_After opts \<noteq> [] then drop (findAfter ks (o_After opts) (o_Sort opts)) ks else ks) =
         filter (after_key opts) (ordered_keys s (o_Sort opts))"
proof -
  have "sorted_wrt (<) (keys s)" using assms(1) by (simp add: wf_store_def)
  from drop_findAfter [OF this, of "o_After opts"] assms(2) show ?thesis
    by (auto simp: ks_def after_key_def [abs_def] ordered_keys_def wf_store_keys [OF assms(1)] Let_def)
qed

theorem Store_List_reference:
  assumes wf: "wf_store s" and small: "card (dom (data s)) < 2 ^ 32"
    and valid: "validateListOptions opts = None"
  shows "Store_List s opts =
           Inr \<lparr>lr_All = word_of_nat (card (dom (data s))),
                lr_Results = word_of_nat (length (reference_page s opts)),
                lr_Items = map (\<lambda>k. the (data s k)) (reference_page s opts)\<rparr>"
proof -
  have srt: "o_Sort opts \<in> {SortByIDAsc, SortByIDDesc}"
    using valid by (auto simp: validateListOptions_def split: option.splits SortKey.splits)
  define ks where "ks = filter (after_key opts) (ordered_keys s (o_Sort opts))"
  have "length (ordered_keys s (o_Sort opts)) = card (dom (data s))"
    by (simp add: ordered_keys_def Let_def)
  then have len: "length ks < 2 ^ 32"
    using small length_filter_le [of "after_key opts" "ordered_keys s (o_Sort opts)"]
    unfolding ks_def by linarith
  define ds where "ds = drop (unat (o_Start opts)) ks"
  have len2: "length ds < 2 ^ 32" using len by (simp add: ds_def)
  have page: "reference_page s opts = (if o_Unbounded opts then ds else take (unat (o_Limit opts)) ds)"
    by (simp add: reference_page_def ks_def ds_def Let_def)
  have none: "ds = []" if "length ks \<le> unat (o_Start opts)" using that by (simp add: ds_def)
  note w = word_of_nat_le_iff [OF len] word_of_nat_less_iff [OF len2] unat_of_nat_lt [OF len2]
  show ?thesis
    using after_keys_eq [OF wf srt, folded ks_def] none
    by (auto simp: Store_List_def valid Let_def page ds_def [symmetric] w wf_store_length [OF wf])
qed

lemma Store_List_unbounded:
  assumes "wf_store s" and "card (dom (data s)) < 2 ^ 32"
  shows "Store_List s unbounded_options =
           Inr \<lparr>lr_All = word_of_nat (card (dom (data s))), lr_Results = word_of_nat (card (dom (data s))),
                lr_Items = map (\<lambda>k. the (data s k)) (keys s)\<rparr>"
  using assms
  by (subst Store_List_reference)
    (simp_all add: validateListOptions_def ListOptions_Validate_def reference_page_def after_key_def
      ordered_keys_def wf_store_keys [symmetric] wf_store_length)

section \<open>Every operation keeps the invariant\<close>

lemma wf_NewStore [simp, intro]: "wf_store NewStore"
  by (simp add: wf_store_def NewStore_def)

lemma Store_Create_wf: "wf_store s \<Longrightarrow> wf_store (snd (Store_Create rid v s))"
  using slice_insert_sorted [of "keys s" rid]
  by (auto simp: Store_Create_def wf_store_def)

lemma Store_Update_wf: "wf_store s \<Longrightarrow> wf_store (snd (Store_Update rid v s))"
  by (auto simp: Store_Update_def wf_store_def)

lemma sorted_wrt_remove1: "sorted_wrt R xs \<Longrightarrow> sorted_wrt R (remove1 x xs)"
  by (induction xs) (auto dest: in_set_remove1 [THEN iffD1, rotated] notin_set_remove1 set_remove1_subset [THEN subsetD])

lemma Store_Delete_eq:
  assumes "wf_store s" and "data s rid = Some v"
  shows "Store_Delete rid s = (Inr (), s\<lparr>data := (data s)(rid := None), keys := remove1 rid (keys s)\<rparr>)"
proof -
  have k: "sorted_wrt (<) (keys s)" "rid \<in> set (keys s)"
    using assms by (auto simp: wf_store_def dom_def)
  with BinarySearch_sorted(2) [OF k(1), of rid] slice_delete_sorted [OF k] assms(2) show ?thesis
    by (cases "BinarySearch (keys s) rid") (simp add: Store_Delete_def)
qed

lemma Store_Delete_wf:
  assumes "wf_store s"
  shows "wf_store (snd (Store_Delete rid s))"
proof (cases "data s rid")
  case (Some v)
  then show ?thesis
    using assms Store_Delete_eq [OF assms Some] wf_store_distinct [OF assms]
    by (auto simp: wf_store_def sorted_wrt_remove1 set_remove1_eq)
qed (simp add: Store_Delete_def assms)

text \<open>A deleted record put back gives the very same store, and so does a created one taken out.\<close>

lemma wf_store_eqI: "wf_store s \<Longrightarrow> wf_store t \<Longrightarrow> data s = data t \<Longrightarrow> s = t"
  by (cases s; cases t) (metis wf_store_keys Store.select_convs(1,2))


lemma Store_Delete_Create:
  assumes "wf_store s" and "data s rid = None"
  shows "Store_Delete rid (snd (Store_Create rid v s)) = (Inr (), s)"
proof -
  let ?t = "snd (Store_Create rid v s)"
  have t: "wf_store ?t" "data ?t = (data s)(rid \<mapsto> v)"
    using Store_Create_wf [OF assms(1)] by blast (simp add: Store_Create_def assms(2))
  have "wf_store (snd (Store_Delete rid ?t))" using t by (intro Store_Delete_wf)
  moreover have "data (snd (Store_Delete rid ?t)) = data s" "fst (Store_Delete rid ?t) = Inr ()"
    using t(2) assms(2) Store_Delete_eq [OF t(1), of rid v] by (auto simp: fun_upd_idem)
  ultimately show ?thesis using wf_store_eqI [OF _ assms(1)] by (metis prod.collapse)
qed

lemma Store_Create_Delete:
  assumes "wf_store s" and "data s rid = Some v"
  shows "Store_Create rid v (snd (Store_Delete rid s)) = (Inr (), s)"
proof -
  let ?t = "snd (Store_Delete rid s)"
  have t: "wf_store ?t" "data ?t = (data s)(rid := None)"
    using Store_Delete_wf [OF assms(1)] by blast (simp add: Store_Delete_eq [OF assms])
  have "wf_store (snd (Store_Create rid v ?t))" using t by (intro Store_Create_wf)
  moreover have "data (snd (Store_Create rid v ?t)) = data s" "fst (Store_Create rid v ?t) = Inr ()"
    using t(2) assms(2) by (auto simp: Store_Create_def fun_upd_idem)
  ultimately show ?thesis using wf_store_eqI [OF _ assms(1)] by (metis prod.collapse)
qed

section \<open>The scoped store as a map of two keys\<close>

definition scoped_lookup :: "'a ScopedStore \<Rightarrow> string \<Rightarrow> string \<Rightarrow> 'a option" where
  "scoped_lookup s p i = (case stores s p of None \<Rightarrow> None | Some st \<Rightarrow> data st i)"

definition child :: "'a ScopedStore \<Rightarrow> string \<Rightarrow> 'a Store" where
  "child s p = (case stores s p of None \<Rightarrow> NewStore | Some st \<Rightarrow> st)"

abbreviation set_child :: "'a ScopedStore \<Rightarrow> string \<Rightarrow> 'a Store \<Rightarrow> 'a ScopedStore" where
  "set_child s p st \<equiv> s\<lparr>stores := (stores s)(p \<mapsto> st)\<rparr>"

lemma wf_child [simp]: "wf_scoped s \<Longrightarrow> wf_store (child s p)"
  by (auto simp: child_def wf_scoped_def ran_def split: option.splits)

lemma data_child: "data (child s p) = scoped_lookup s p"
  by (auto simp: child_def scoped_lookup_def NewStore_def fun_eq_iff split: option.splits)

lemma wf_set_child: "wf_scoped s \<Longrightarrow> wf_store st \<Longrightarrow> wf_scoped (set_child s p st)"
  by (auto simp: wf_scoped_def ran_def)

lemma scoped_lookup_set_child:
  "scoped_lookup (set_child s p st) q i = (if q = p then data st i else scoped_lookup s q i)"
  by (simp add: scoped_lookup_def)

lemma Scoped_Get_lookup:
  "Scoped_Get s p i = (case scoped_lookup s p i of None \<Rightarrow> Inl ErrNotFound | Some v \<Rightarrow> Inr v)"
  by (simp add: Scoped_Get_def parentStore_def scoped_lookup_def Store_Get_def split: option.splits)

lemma Scoped_Create_eq:
  "Scoped_Create p i v s =
     (if scoped_lookup s p i \<noteq> None then (Inl ErrAlreadyExists, s)
      else (Inr (), set_child s p (snd (Store_Create i v (child s p)))))"
proof (cases "stores s p")
  case None
  then show ?thesis
    by (simp add: Scoped_Create_def ForParent_def put_child_def scoped_lookup_def child_def
        Store_Create_def NewStore_def)
next
  case (Some st)
  then have "set_child s p st = s" by (simp add: map_upd_triv)
  with Some show ?thesis
    by (auto simp: Scoped_Create_def ForParent_def put_child_def scoped_lookup_def child_def Store_Create_def)
qed

lemma Scoped_Update_eq:
  "Scoped_Update p i v s =
     (if scoped_lookup s p i = None then (Inl ErrNotFound, s)
      else (Inr (), set_child s p (snd (Store_Update i v (child s p)))))"
proof (cases "stores s p")
  case None
  then show ?thesis by (simp add: Scoped_Update_def parentStore_def scoped_lookup_def)
next
  case (Some st)
  then have "set_child s p st = s" by (simp add: map_upd_triv)
  with Some show ?thesis
    by (auto simp: Scoped_Update_def parentStore_def put_child_def scoped_lookup_def child_def Store_Update_def)
qed

lemma Scoped_Delete_eq:
  assumes "wf_scoped s"
  shows "Scoped_Delete p i s =
     (if scoped_lookup s p i = None then (Inl ErrNotFound, s)
      else (Inr (), set_child s p (snd (Store_Delete i (child s p)))))"
proof (cases "stores s p")
  case None
  then show ?thesis by (simp add: Scoped_Delete_def parentStore_def scoped_lookup_def)
next
  case (Some st)
  then have "set_child s p st = s" by (simp add: map_upd_triv)
  moreover have "wf_store st" using Some assms by (auto simp: wf_scoped_def ran_def)
  ultimately show ?thesis
    using Some by (cases "data st i")
      (auto simp: Scoped_Delete_def parentStore_def put_child_def scoped_lookup_def child_def
        Store_Delete_def [of _ st] split: prod.splits)
qed

lemma wf_NewScopedStore [simp]: "wf_scoped NewScopedStore"
  by (simp add: wf_scoped_def NewScopedStore_def)

section \<open>Properties\<close>

text \<open>
  C14: a page of a collection is exactly the reference page: the keys in the requested order,
  ascending or descending, those not strictly after the \<open>After\<close> key left out, \<open>Start\<close> of
  them skipped and at most \<open>Limit\<close> kept (all of them when unbounded); the binary searches and
  the 32-bit counters lose nothing below \<open>2^32\<close> records.
\<close>

theorem Store_List_serves_reference_page:
  assumes "wf_store s" and "card (dom (data s)) < 2 ^ 32" and "validateListOptions opts = None"
  shows "Store_List s opts =
           Inr \<lparr>lr_All = word_of_nat (card (dom (data s))),
                lr_Results = word_of_nat (length (reference_page s opts)),
                lr_Items = map (\<lambda>k. the (data s k)) (reference_page s opts)\<rparr>"
  by (rule Store_List_reference [OF assms])

theorem Store_List_serves_reference_page_witness:
  "Store_List \<lparr>data = [''a'' \<mapsto> (1::nat), ''b'' \<mapsto> 2, ''c'' \<mapsto> 3], keys = [''a'', ''b'', ''c'']\<rparr>
     \<lparr>o_Start = 0, o_Limit = 1, o_After = ''c'', o_Sort = SortByIDDesc, o_Unbounded = False\<rparr>
   = Inr \<lparr>lr_All = 3, lr_Results = 1, lr_Items = [2]\<rparr>"
proof -
  let ?s = "\<lparr>data = [''a'' \<mapsto> (1::nat), ''b'' \<mapsto> 2, ''c'' \<mapsto> 3], keys = [''a'', ''b'', ''c'']\<rparr>"
  let ?o = "\<lparr>o_Start = 0, o_Limit = 1, o_After = ''c'', o_Sort = SortByIDDesc, o_Unbounded = False\<rparr>"
  have wf: "wf_store ?s" by (auto simp: wf_store_def less_char_def)
  have page: "reference_page ?s ?o = [''b'']"
    using wf_store_keys [OF wf]
    by (simp add: reference_page_def ordered_keys_def after_key_def less_char_def Let_def)
  have c: "card (dom (data ?s)) = 3" using wf_store_length [OF wf] by simp
  show ?thesis
    using Store_List_serves_reference_page [OF wf, of ?o] page c
    by (simp add: validateListOptions_def ListOptions_Validate_def)
qed

end
