(* ===== verification/PersistStore.thy ===== *)
theory PersistStore
  imports MemStore
begin

text \<open>
  The snapshot stores: \<open>pkg/store/memory/persistent_scoped.go\<close> and
  \<open>internal/dercontrol/lifecycle_persistence.go\<close>. Every write mutates the collection, writes
  the whole snapshot and undoes the mutation when the write fails. The file is \<open>disk\<close>, the
  records it holds; \<open>faults\<close> is the script of the coming snapshot writes: \<open>True\<close> is a write
  the operating system fails and which, as \<open>atomicfile.Write\<close> stages and renames, leaves the
  file alone. Past the end of the script every write succeeds.
  One \<open>writeMu\<close> covers mutate, persist and rollback, so each method is one atomic step.
\<close>

record 'a pstore =
  inner :: "'a ScopedStore"
  pkeys :: "string \<rightharpoonup> string list"
  persistPath :: string
  disk :: "(string \<times> string \<times> 'a) list"
  faults :: "bool list"

section \<open>Shared machinery\<close>

definition on_inner :: "(err, 'a ScopedStore, 'b) io \<Rightarrow> (err, ('a, 'z) pstore_scheme, 'b) io" where
  "on_inner m s = (case m (inner s) of (r, i) \<Rightarrow> (r, s\<lparr>inner := i\<rparr>))"

definition write_snapshot ::
    "(string \<times> string \<times> 'a) list \<Rightarrow> (err, ('a, 'z) pstore_scheme, unit) io" where
  "write_snapshot records s =
     (case faults s of
        [] \<Rightarrow> (Inr (), s\<lparr>disk := records\<rparr>)
      | False # fs \<Rightarrow> (Inr (), s\<lparr>disk := records, faults := fs\<rparr>)
      | True # fs \<Rightarrow> (Inl (Errorf ''persistence'' [Errorf ''atomicfile'' []]), s\<lparr>faults := fs\<rparr>))"

definition idsUnder :: "('a, 'z) pstore_scheme \<Rightarrow> string \<Rightarrow> string list" where
  "idsUnder s parentID = (case pkeys s parentID of None \<Rightarrow> [] | Some ids \<Rightarrow> ids)"

definition addKey :: "string \<Rightarrow> string \<Rightarrow> ('a, 'z) pstore_scheme \<Rightarrow> ('a, 'z) pstore_scheme" where
  "addKey parentID rid s =
     (let ids = idsUnder s parentID; (idx, found) = BinarySearch ids rid
      in if found then s
         else s\<lparr>pkeys := (pkeys s)(parentID \<mapsto> slice_insert ids idx rid)\<rparr>)"

definition dropKey :: "string \<Rightarrow> string \<Rightarrow> ('a, 'z) pstore_scheme \<Rightarrow> ('a, 'z) pstore_scheme" where
  "dropKey parentID rid s =
     (let ids = idsUnder s parentID; (idx, found) = BinarySearch ids rid
      in if \<not> found then s
         else (let ids' = slice_delete ids idx
               in if ids' = [] then s\<lparr>pkeys := (pkeys s)(parentID := None)\<rparr>
                  else s\<lparr>pkeys := (pkeys s)(parentID \<mapsto> ids')\<rparr>))"

definition snapshotKeys :: "('a, 'z) pstore_scheme \<Rightarrow> (string \<times> string) list" where
  "snapshotKeys s =
     concat (map (\<lambda>p. map (Pair p) (idsUnder s p)) (sorted_list_of_set (dom (pkeys s))))"

section \<open>PersistentScopedStore\<close>

fun read_records ::
    "'a ScopedStore \<Rightarrow> (string \<times> string) list \<Rightarrow> err + (string \<times> string \<times> 'a) list" where
  "read_records i [] = Inr []"
| "read_records i ((p, rid) # ks) =
     (case Scoped_Get i p rid of
        Inl e \<Rightarrow> Inl (Errorf ''read for snapshot'' [])
      | Inr v \<Rightarrow> (case read_records i ks of Inl e \<Rightarrow> Inl e | Inr rs \<Rightarrow> Inr ((p, rid, v) # rs)))"

definition P_persistLocked :: "(err, ('a, 'z) pstore_scheme, unit) io" where
  "P_persistLocked s =
     (if persistPath s = [] then (Inr (), s)
      else (case read_records (inner s) (snapshotKeys s) of
              Inl e \<Rightarrow> (Inl (Errorf ''persistence'' [e]), s)
            | Inr records \<Rightarrow> write_snapshot records s))"

definition P_Create :: "string \<Rightarrow> string \<Rightarrow> 'a \<Rightarrow> (err, ('a, 'z) pstore_scheme, unit) io" where
  "P_Create parentID rid value s =
     (let hadParent = Scoped_HasParent (inner s) parentID
      in case on_inner (Scoped_Create parentID rid value) s of
           (Inl e, s1) \<Rightarrow> (Inl e, s1)
         | (Inr _, s1) \<Rightarrow>
             (case P_persistLocked (addKey parentID rid s1) of
                (Inr _, s2) \<Rightarrow> (Inr (), s2)
              | (Inl e, s2) \<Rightarrow>
                  (case (if hadParent then on_inner (Scoped_Delete parentID rid) s2
                         else on_inner (io_bind (Scoped_DeleteParent parentID) (\<lambda>_. io_return ())) s2) of
                     (Inl rerr, s3) \<Rightarrow>
                       if err_is rerr ErrNotFound then (Inl e, dropKey parentID rid s3)
                       else (Inl (Errorf ''join'' [e, Errorf ''rollback create'' [rerr]]), s3)
                   | (Inr _, s3) \<Rightarrow> (Inl e, dropKey parentID rid s3))))"

definition P_Update :: "string \<Rightarrow> string \<Rightarrow> 'a \<Rightarrow> (err, ('a, 'z) pstore_scheme, unit) io" where
  "P_Update parentID rid value s =
     (case Scoped_Get (inner s) parentID rid of
        Inl e \<Rightarrow> (Inl e, s)
      | Inr before \<Rightarrow>
          (case on_inner (Scoped_Update parentID rid value) s of
             (Inl e, s1) \<Rightarrow> (Inl e, s1)
           | (Inr _, s1) \<Rightarrow>
               (case P_persistLocked s1 of
                  (Inr _, s2) \<Rightarrow> (Inr (), s2)
                | (Inl e, s2) \<Rightarrow>
                    (case on_inner (Scoped_Update parentID rid before) s2 of
                       (Inl rerr, s3) \<Rightarrow> (Inl (Errorf ''join'' [e, Errorf ''rollback update'' [rerr]]), s3)
                     | (Inr _, s3) \<Rightarrow> (Inl e, s3)))))"

definition P_Delete :: "string \<Rightarrow> string \<Rightarrow> (err, ('a, 'z) pstore_scheme, unit) io" where
  "P_Delete parentID rid s =
     (case Scoped_Get (inner s) parentID rid of
        Inl e \<Rightarrow> (Inl e, s)
      | Inr before \<Rightarrow>
          (case on_inner (Scoped_Delete parentID rid) s of
             (Inl e, s1) \<Rightarrow> (Inl e, s1)
           | (Inr _, s1) \<Rightarrow>
               (case P_persistLocked (dropKey parentID rid s1) of
                  (Inr _, s2) \<Rightarrow> (Inr (), s2)
                | (Inl e, s2) \<Rightarrow>
                    (case on_inner (Scoped_Create parentID rid before) s2 of
                       (Inl rerr, s3) \<Rightarrow> (Inl (Errorf ''join'' [e, Errorf ''rollback delete'' [rerr]]), s3)
                     | (Inr _, s3) \<Rightarrow> (Inl e, addKey parentID rid s3)))))"

text \<open>
  \<open>deleteParentLocked\<close>: the records are read first and put back one by one on a failed
  snapshot; the loop returns the index it stopped at.
\<close>

fun restore_records ::
    "string \<Rightarrow> nat \<Rightarrow> (string \<times> 'a) list \<Rightarrow> 'a ScopedStore \<Rightarrow> (err \<times> nat) option \<times> 'a ScopedStore" where
  "restore_records p n [] i = (None, i)"
| "restore_records p n ((rid, v) # rs) i =
     (case Scoped_Create p rid v i of
        (Inl e, i') \<Rightarrow> (Some (e, n), i')
      | (Inr _, i') \<Rightarrow> restore_records p (Suc n) rs i')"

definition P_deleteParentLocked ::
    "string \<Rightarrow> (err, ('a, 'z) pstore_scheme, 32 word \<times> (string \<times> 'a) list) io" where
  "P_deleteParentLocked parentID s =
     (if \<not> Scoped_HasParent (inner s) parentID then (Inr (0, []), s)
      else
        (let ids = idsUnder s parentID
         in case read_records (inner s) (map (Pair parentID) ids) of
              Inl e \<Rightarrow> (Inl (Errorf ''read before delete'' []), s)
            | Inr recs \<Rightarrow>
                (case on_inner (Scoped_DeleteParent parentID) s of
                   (Inl e, s1) \<Rightarrow> (Inl e, s1)
                 | (Inr n, s1) \<Rightarrow>
                     (let before = map snd recs;
                          s2 = s1\<lparr>pkeys := (pkeys s1)(parentID := None)\<rparr>
                      in case P_persistLocked s2 of
                           (Inr _, s3) \<Rightarrow> (Inr (n, before), s3)
                         | (Inl e, s3) \<Rightarrow>
                             (case restore_records parentID 0 before (snd (ForParent (inner s3) parentID)) of
                                (Some (rerr, k), i) \<Rightarrow>
                                  (Inl (Errorf ''join'' [e, Errorf ''rollback delete parent'' [rerr]]),
                                   if k > 0
                                   then s3\<lparr>inner := i, pkeys := (pkeys s3)(parentID \<mapsto> take k ids)\<rparr>
                                   else s3\<lparr>inner := i\<rparr>)
                              | (None, i) \<Rightarrow>
                                  (Inl e,
                                   if ids \<noteq> []
                                   then s3\<lparr>inner := i, pkeys := (pkeys s3)(parentID \<mapsto> ids)\<rparr>
                                   else s3\<lparr>inner := i\<rparr>))))))"

definition P_DeleteParent :: "string \<Rightarrow> (err, ('a, 'z) pstore_scheme, 32 word) io" where
  "P_DeleteParent parentID = io_bind (P_deleteParentLocked parentID) (\<lambda>(n, _). io_return n)"

fun P_delete_each :: "string list \<Rightarrow> 32 word \<Rightarrow> ('a, 'z) pstore_scheme \<Rightarrow> (32 word \<times> err option) \<times> ('a, 'z) pstore_scheme" where
  "P_delete_each [] tot s = ((tot, None), s)"
| "P_delete_each (p # ps) tot s =
     (case P_deleteParentLocked p s of
        (Inl e, t) \<Rightarrow> ((tot, Some e), t)
      | (Inr (n, _), t) \<Rightarrow> P_delete_each ps (tot + n) t)"

text \<open>The count of what was removed is returned beside the error.\<close>

definition P_DeleteParentsWithPrefix ::
    "string \<Rightarrow> ('a, 'z) pstore_scheme \<Rightarrow> (32 word \<times> err option) \<times> ('a, 'z) pstore_scheme" where
  "P_DeleteParentsWithPrefix pre s =
     (if pre = [] then ((0, Some (Errorf ''memory: DeleteParentsWithPrefix: prefix is required'' [])), s)
      else P_delete_each (filter (prefix pre) (Scoped_Parents (inner s))) 0 s)"

text \<open>\<open>TakeParent\<close>: the second result is the undo, every record attempted.\<close>

fun P_undo_take :: "string \<Rightarrow> (string \<times> 'a) list \<Rightarrow> ('a, 'z) pstore_scheme \<Rightarrow> err list \<times> ('a, 'z) pstore_scheme" where
  "P_undo_take p [] s = ([], s)"
| "P_undo_take p ((rid, v) # rs) s =
     (case P_Create p rid v s of
        (Inr _, t) \<Rightarrow> P_undo_take p rs t
      | (Inl e, t) \<Rightarrow> (case P_undo_take p rs t of (es, u) \<Rightarrow> (Errorf ''record'' [e] # es, u)))"

definition P_TakeParent ::
    "string \<Rightarrow> (err, ('a, 'z) pstore_scheme, (('a, 'z) pstore_scheme \<Rightarrow> err list \<times> ('a, 'z) pstore_scheme) \<times> 32 word) io" where
  "P_TakeParent parentID =
     io_bind (P_deleteParentLocked parentID) (\<lambda>(n, before). io_return (P_undo_take parentID before, n))"

text \<open>Reading the snapshot back: the records are created one by one with no path configured.\<close>

fun P_load_records ::
    "('a \<Rightarrow> string) option \<Rightarrow> (string \<times> string \<times> 'a) list \<Rightarrow> (err, ('a, 'z) pstore_scheme, unit) io" where
  "P_load_records idOf [] s = (Inr (), s)"
| "P_load_records idOf ((p, rid, v) # rs) s =
     (if p = [] \<or> rid = [] then (Inl (Errorf ''record with empty parent or id'' []), s)
      else if (case idOf of None \<Rightarrow> False | Some f \<Rightarrow> f v \<noteq> rid)
      then (Inl (Errorf ''record carries id'' []), s)
      else (case P_Create p rid v s of
              (Inl e, t) \<Rightarrow> (Inl (Errorf ''rehydrate'' [e]), t)
            | (Inr _, t) \<Rightarrow> P_load_records idOf rs t))"

definition empty_pstore :: "(string \<times> string \<times> 'a) list \<Rightarrow> bool list \<Rightarrow> 'a pstore" where
  "empty_pstore file script =
     \<lparr>inner = NewScopedStore, pkeys = Map.empty, persistPath = [], disk = file, faults = script\<rparr>"

definition NewPersistentScopedStore ::
    "string \<Rightarrow> ('a \<Rightarrow> string) option \<Rightarrow> (string \<times> string \<times> 'a) list \<Rightarrow> bool list \<Rightarrow> err + 'a pstore" where
  "NewPersistentScopedStore path idOf file script =
     (if path = [] then Inr (empty_pstore file script)
      else (case P_load_records idOf file (empty_pstore file script) of
              (Inl e, _) \<Rightarrow> Inl (Errorf ''persistence: load'' [e])
            | (Inr _, s) \<Rightarrow> Inr (s\<lparr>persistPath := path\<rparr>)))"


section \<open>The invariant\<close>

text \<open>
  The key index names exactly the stored records, and the file, when there is one, holds
  exactly what is served.
\<close>

definition index_of :: "'a ScopedStore \<Rightarrow> string \<rightharpoonup> string list" where
  "index_of i p = (if keys (child i p) = [] then None else Some (keys (child i p)))"

definition records_of :: "'a ScopedStore \<Rightarrow> (string \<times> string \<times> 'a) list" where
  "records_of i =
     concat (map (\<lambda>p. map (\<lambda>rid. (p, rid, the (scoped_lookup i p rid))) (keys (child i p)))
       (sorted_list_of_set (dom (index_of i))))"

definition indexed :: "('a, 'z) pstore_scheme \<Rightarrow> bool" where
  "indexed s \<longleftrightarrow> wf_scoped (inner s) \<and> pkeys s = index_of (inner s)"

definition pinv :: "('a, 'z) pstore_scheme \<Rightarrow> bool" where
  "pinv s \<longleftrightarrow> indexed s \<and> (persistPath s \<noteq> [] \<longrightarrow> disk s = records_of (inner s))"

lemma idsUnder_indexed: "indexed s \<Longrightarrow> idsUnder s p = keys (child (inner s) p)"
  by (simp add: idsUnder_def indexed_def index_of_def)

lemma child_set_child [simp]: "child (set_child i p st) q = (if q = p then st else child i q)"
  by (simp add: child_def)

lemma index_of_set_child:
  "index_of (set_child i p st) = (index_of i)(p := if keys st = [] then None else Some (keys st))"
  by (auto simp: index_of_def fun_eq_iff)

lemma keys_lookup: "wf_scoped i \<Longrightarrow> rid \<in> set (keys (child i p)) \<longleftrightarrow> scoped_lookup i p rid \<noteq> None"
  using wf_child [of i p] by (auto simp: wf_store_def data_child)

lemma keys_Store_Create:
  "data st rid = None \<Longrightarrow> keys (snd (Store_Create rid v st))
     = slice_insert (keys st) (fst (BinarySearch (keys st) rid)) rid"
  by (simp add: Store_Create_def)

abbreviation created :: "'a ScopedStore \<Rightarrow> string \<Rightarrow> string \<Rightarrow> 'a \<Rightarrow> 'a ScopedStore" where
  "created i p rid v \<equiv> set_child i p (snd (Store_Create rid v (child i p)))"

abbreviation updated :: "'a ScopedStore \<Rightarrow> string \<Rightarrow> string \<Rightarrow> 'a \<Rightarrow> 'a ScopedStore" where
  "updated i p rid v \<equiv> set_child i p (snd (Store_Update rid v (child i p)))"

abbreviation deleted :: "'a ScopedStore \<Rightarrow> string \<Rightarrow> string \<Rightarrow> 'a ScopedStore" where
  "deleted i p rid \<equiv> set_child i p (snd (Store_Delete rid (child i p)))"

abbreviation with_inner :: "('a, 'z) pstore_scheme \<Rightarrow> 'a ScopedStore \<Rightarrow> ('a, 'z) pstore_scheme" where
  "with_inner s i \<equiv> s\<lparr>inner := i, pkeys := index_of i\<rparr>"

lemma addKey_created:
  assumes "indexed s" and "scoped_lookup (inner s) p rid = None"
  shows "addKey p rid (s\<lparr>inner := created (inner s) p rid v\<rparr>) = with_inner s (created (inner s) p rid v)"
proof -
  define i' where "i' = created (inner s) p rid v"
  let ?ks = "keys (child (inner s) p)"
  have ids: "idsUnder (s\<lparr>inner := i'\<rparr>) p = ?ks"
    using idsUnder_indexed [OF assms(1)] by (simp add: idsUnder_def)
  have wf: "wf_scoped (inner s)" "sorted_wrt (<) ?ks"
    using assms(1) wf_child [of "inner s" p] by (auto simp: indexed_def wf_store_def)
  have nf: "\<not> snd (BinarySearch ?ks rid)"
    using assms(2) keys_lookup [OF wf(1)] BinarySearch_sorted(2) [OF wf(2)] by simp
  have k: "keys (snd (Store_Create rid v (child (inner s) p)))
      = slice_insert ?ks (fst (BinarySearch ?ks rid)) rid"
    using assms(2) by (intro keys_Store_Create) (simp add: data_child)
  have ne: "slice_insert ?ks (fst (BinarySearch ?ks rid)) rid \<noteq> []" by (simp add: slice_insert_def)
  have idx: "index_of i' = (index_of (inner s))(p \<mapsto> slice_insert ?ks (fst (BinarySearch ?ks rid)) rid)"
    by (simp add: i'_def index_of_set_child k ne)
  show ?thesis
    unfolding i'_def [symmetric] using nf assms(1)
    by (cases "BinarySearch ?ks rid")
      (simp add: addKey_def ids idx indexed_def Let_def)
qed

lemma dropKey_deleted:
  assumes "indexed s" and "scoped_lookup (inner s) p rid = Some v"
  shows "dropKey p rid (s\<lparr>inner := deleted (inner s) p rid\<rparr>) = with_inner s (deleted (inner s) p rid)"
proof -
  define i' where "i' = deleted (inner s) p rid"
  let ?ks = "keys (child (inner s) p)"
  have ids: "idsUnder (s\<lparr>inner := i'\<rparr>) p = ?ks"
    using idsUnder_indexed [OF assms(1)] by (simp add: idsUnder_def)
  have wf: "wf_scoped (inner s)" "wf_store (child (inner s) p)" "sorted_wrt (<) ?ks"
    using assms(1) wf_child [of "inner s" p] by (auto simp: indexed_def wf_store_def)
  have f: "rid \<in> set ?ks" using assms(2) keys_lookup [OF wf(1)] by simp
  then have found: "snd (BinarySearch ?ks rid)" using BinarySearch_sorted(2) [OF wf(3)] by simp
  have k: "keys (snd (Store_Delete rid (child (inner s) p))) = slice_delete ?ks (fst (BinarySearch ?ks rid))"
    using Store_Delete_eq [OF wf(2), of rid v] assms(2) slice_delete_sorted [OF wf(3) f]
    by (simp add: data_child)
  have idx: "index_of i' = (let ks = slice_delete ?ks (fst (BinarySearch ?ks rid))
      in (index_of (inner s))(p := if ks = [] then None else Some ks))"
    by (simp add: i'_def index_of_set_child k)
  show ?thesis
    unfolding i'_def [symmetric] using found assms(1)
    by (cases "BinarySearch ?ks rid")
      (simp add: dropKey_def ids idx indexed_def Let_def)
qed

section \<open>Writing the snapshot\<close>

lemma read_records_ok:
  "(\<And>p rid. (p, rid) \<in> set ks \<Longrightarrow> scoped_lookup i p rid \<noteq> None) \<Longrightarrow>
   read_records i ks = Inr (map (\<lambda>(p, rid). (p, rid, the (scoped_lookup i p rid))) ks)"
proof (induction ks)
  case (Cons k ks)
  obtain p rid where k: "k = (p, rid)" by force
  with Cons.prems obtain v where "scoped_lookup i p rid = Some v" by fastforce
  moreover have "read_records i ks = Inr (map (\<lambda>(p, rid). (p, rid, the (scoped_lookup i p rid))) ks)"
    using Cons by auto
  ultimately show ?case by (simp add: k Scoped_Get_lookup)
qed simp

lemma snapshot_indexed:
  assumes "indexed s"
  shows "read_records (inner s) (snapshotKeys s) = Inr (records_of (inner s))"
proof -
  have wf: "wf_scoped (inner s)" using assms by (simp add: indexed_def)
  have "read_records (inner s) (snapshotKeys s)
      = Inr (map (\<lambda>(p, rid). (p, rid, the (scoped_lookup (inner s) p rid))) (snapshotKeys s))"
    using keys_lookup [OF wf] by (intro read_records_ok) (auto simp: snapshotKeys_def idsUnder_indexed [OF assms])
  then show ?thesis
    using assms by (simp add: snapshotKeys_def records_of_def idsUnder_indexed [OF assms] map_concat o_def indexed_def)
qed

definition flushed :: "('a, 'z) pstore_scheme \<Rightarrow> ('a, 'z) pstore_scheme" where
  "flushed s = (if persistPath s = [] then s
     else s\<lparr>disk := records_of (inner s), faults := tl (faults s)\<rparr>)"

lemma P_persist_eq:
  assumes "indexed s"
  shows "P_persistLocked s =
     (if persistPath s \<noteq> [] \<and> faults s \<noteq> [] \<and> hd (faults s)
      then (Inl (Errorf ''persistence'' [Errorf ''atomicfile'' []]), s\<lparr>faults := tl (faults s)\<rparr>)
      else (Inr (), flushed s))"
  using assms
  by (cases "faults s") (auto simp: P_persistLocked_def snapshot_indexed write_snapshot_def flushed_def)


section \<open>Every method, on both of its ways\<close>

abbreviation fails :: "('a, 'z) pstore_scheme \<Rightarrow> bool" where
  "fails s \<equiv> persistPath s \<noteq> [] \<and> faults s \<noteq> [] \<and> hd (faults s)"

abbreviation write_error :: err where
  "write_error \<equiv> Errorf ''persistence'' [Errorf ''atomicfile'' []]"

abbreviation next_write :: "('a, 'z) pstore_scheme \<Rightarrow> ('a, 'z) pstore_scheme" where
  "next_write s \<equiv> s\<lparr>faults := tl (faults s)\<rparr>"

lemma wf_created [simp]: "wf_scoped i \<Longrightarrow> wf_scoped (created i p rid v)"
  by (intro wf_set_child Store_Create_wf wf_child)

lemma wf_updated [simp]: "wf_scoped i \<Longrightarrow> wf_scoped (updated i p rid v)"
  by (intro wf_set_child Store_Update_wf wf_child)

lemma wf_deleted [simp]: "wf_scoped i \<Longrightarrow> wf_scoped (deleted i p rid)"
  by (intro wf_set_child Store_Delete_wf wf_child)

lemma indexed_with_inner [simp]: "wf_scoped i \<Longrightarrow> indexed (with_inner s i)"
  by (simp add: indexed_def)

lemma lookup_created:
  "scoped_lookup i p rid = None \<Longrightarrow> scoped_lookup (created i p rid v) q r
     = (if q = p \<and> r = rid then Some v else scoped_lookup i q r)"
  by (auto simp: scoped_lookup_set_child Store_Create_def data_child)

lemma lookup_updated:
  "scoped_lookup i p rid \<noteq> None \<Longrightarrow> scoped_lookup (updated i p rid v) q r
     = (if q = p \<and> r = rid then Some v else scoped_lookup i q r)"
  by (auto simp: scoped_lookup_set_child Store_Update_def data_child)

lemma lookup_deleted:
  assumes "wf_scoped i" and "scoped_lookup i p rid \<noteq> None"
  shows "scoped_lookup (deleted i p rid) q r = (if q = p \<and> r = rid then None else scoped_lookup i q r)"
proof -
  obtain v where "scoped_lookup i p rid = Some v" using assms(2) by blast
  then show ?thesis
    using Store_Delete_eq [of "child i p" rid v] assms(1)
    by (auto simp: scoped_lookup_set_child data_child)
qed

lemma stores_set_child_same: "stores i p \<noteq> None \<Longrightarrow> set_child i p (child i p) = i"
  by (auto simp: child_def map_upd_triv)

lemma lookup_has_parent: "scoped_lookup i p rid = Some v \<Longrightarrow> stores i p \<noteq> None"
  by (auto simp: scoped_lookup_def split: option.splits)

lemma deleted_created:
  assumes "wf_scoped i" and "scoped_lookup i p rid = None"
  shows "deleted (created i p rid v) p rid = set_child i p (child i p)"
  using Store_Delete_Create [of "child i p" rid v] assms by (simp add: data_child)

lemma created_deleted:
  assumes "wf_scoped i" and "scoped_lookup i p rid = Some v"
  shows "created (deleted i p rid) p rid v = i"
  using Store_Create_Delete [of "child i p" rid v] assms stores_set_child_same [OF lookup_has_parent]
  by (simp add: data_child)

lemma updated_updated:
  assumes "scoped_lookup i p rid = Some v"
  shows "updated (updated i p rid w) p rid v = i"
proof -
  have "data (child i p) rid = Some v" using assms by (simp add: data_child)
  then have "snd (Store_Update rid v (snd (Store_Update rid w (child i p)))) = child i p"
    by (simp add: Store_Update_def fun_upd_idem)
  then show ?thesis using stores_set_child_same [OF lookup_has_parent [OF assms]] by simp
qed

lemma index_set_child_same [simp]: "index_of (set_child i p (child i p)) = index_of i"
  by (simp add: index_of_def fun_eq_iff)

lemma dropKey_inner: "dropKey p rid (s\<lparr>inner := i\<rparr>) = (dropKey p rid s)\<lparr>inner := i\<rparr>"
  by (auto simp: dropKey_def idsUnder_def Let_def split: prod.splits)

lemma on_inner_eq: "on_inner m s = (fst (m (inner s)), s\<lparr>inner := snd (m (inner s))\<rparr>)"
  by (simp add: on_inner_def split: prod.splits)

lemma P_rollback_create:
  assumes "indexed s" and "scoped_lookup (inner s) p rid = None"
  shows "dropKey p rid ((next_write (with_inner s (created (inner s) p rid v)))\<lparr>inner := x\<rparr>)
           = (next_write s)\<lparr>inner := x\<rparr>"
proof -
  let ?s2 = "next_write (with_inner s (created (inner s) p rid v))"
  have wf: "wf_scoped (inner s)" using assms(1) by (simp add: indexed_def)
  have i: "indexed ?s2" "scoped_lookup (inner ?s2) p rid = Some v"
    using wf lookup_created [OF assms(2)] by (simp_all add: indexed_def)
  define d where "d = deleted (inner ?s2) p rid"
  have "d = set_child (inner s) p (child (inner s) p)"
    using deleted_created [OF wf assms(2), of v] by (simp add: d_def)
  then have idx: "index_of d = pkeys s" using assms(1) by (simp add: indexed_def)
  have "dropKey p rid (?s2\<lparr>inner := x\<rparr>) = dropKey p rid (?s2\<lparr>inner := d\<rparr>\<lparr>inner := x\<rparr>)"
    by simp
  also have "\<dots> = (dropKey p rid (?s2\<lparr>inner := d\<rparr>))\<lparr>inner := x\<rparr>" by (rule dropKey_inner)
  also have "\<dots> = (with_inner ?s2 d)\<lparr>inner := x\<rparr>"
    unfolding d_def by (simp only: dropKey_deleted [OF i])
  finally show ?thesis by (simp add: idx)
qed

lemma P_persist_ok:
  "wf_scoped i \<Longrightarrow> \<not> fails s \<Longrightarrow> P_persistLocked (with_inner s i) = (Inr (), flushed (with_inner s i))"
  by (subst P_persist_eq) auto

lemma P_persist_fails:
  "wf_scoped i \<Longrightarrow> fails s \<Longrightarrow> P_persistLocked (with_inner s i) = (Inl write_error, next_write (with_inner s i))"
  by (subst P_persist_eq) auto

lemma P_Create_eq:
  assumes "indexed s"
  shows "P_Create p rid v s =
     (if scoped_lookup (inner s) p rid \<noteq> None then (Inl ErrAlreadyExists, s)
      else if fails s then (Inl write_error, next_write s)
      else (Inr (), flushed (with_inner s (created (inner s) p rid v))))"
proof (cases "scoped_lookup (inner s) p rid = None \<and> fails s")
  case False
  have wf: "wf_scoped (inner s)" using assms by (simp add: indexed_def)
  show ?thesis
  proof (cases "scoped_lookup (inner s) p rid = None")
    case True
    with False have nf: "\<not> fails s" by simp
    show ?thesis
      using True nf P_persist_ok [OF wf_created [OF wf, of p rid v] nf]
      by (auto simp: P_Create_def on_inner_eq Scoped_Create_eq addKey_created [OF assms True] Let_def)
  qed (simp add: P_Create_def on_inner_eq Scoped_Create_eq Let_def)
next
  case True
  then have none: "scoped_lookup (inner s) p rid = None" and f: "fails s" by auto
  have wf: "wf_scoped (inner s)" using assms by (simp add: indexed_def)
  let ?i = "created (inner s) p rid v"
  let ?s2 = "next_write (with_inner s ?i)"
  let ?undone = "set_child (inner s) p (child (inner s) p)"
  have persist: "P_persistLocked (with_inner s ?i) = (Inl write_error, ?s2)"
    by (rule P_persist_fails [OF wf_created [OF wf] f])
  have d: "dropKey p rid (?s2\<lparr>inner := inner s\<rparr>) = next_write s"
    using P_rollback_create [OF assms none, where v = v and x = "inner s"] by simp
  show ?thesis
  proof (cases "Scoped_HasParent (inner s) p")
    case h: True
    then have "?undone = inner s" by (intro stores_set_child_same) (simp add: Scoped_HasParent_def)
    moreover have "Scoped_Delete p rid ?i = (Inr (), ?undone)"
      using wf lookup_created [OF none, of v p rid] deleted_created [OF wf none, of v]
      by (simp add: Scoped_Delete_eq)
    ultimately show ?thesis
      using none f h d persist
      by (simp add: P_Create_def on_inner_eq Scoped_Create_eq addKey_created [OF assms none])
  next
    case h: False
    then have e: "(stores (inner s))(p := None) = stores (inner s)"
      by (simp add: Scoped_HasParent_def fun_upd_idem)
    with none f h persist d show ?thesis
      by (simp add: P_Create_def on_inner_eq Scoped_Create_eq addKey_created [OF assms none]
          Scoped_DeleteParent_def io_bind_def io_return_def)
  qed
qed


lemma on_inner_updated:
  assumes "indexed s" and "scoped_lookup (inner s) p rid = Some before"
  shows "on_inner (Scoped_Update p rid v) s = (Inr (), with_inner s (updated (inner s) p rid v))"
proof -
  have "index_of (updated (inner s) p rid v) = index_of (inner s)"
    by (auto simp: index_of_def fun_eq_iff Store_Update_def)
  then show ?thesis using assms by (simp add: on_inner_eq Scoped_Update_eq indexed_def)
qed

lemma P_Update_eq:
  assumes "indexed s"
  shows "P_Update p rid v s =
     (if scoped_lookup (inner s) p rid = None then (Inl ErrNotFound, s)
      else if fails s then (Inl write_error, next_write s)
      else (Inr (), flushed (with_inner s (updated (inner s) p rid v))))"
proof (cases "scoped_lookup (inner s) p rid")
  case None
  then show ?thesis by (simp add: P_Update_def Scoped_Get_lookup)
next
  case (Some before)
  let ?i = "updated (inner s) p rid v"
  have wf: "wf_scoped ?i" using assms by (simp add: indexed_def)
  have "index_of ?i = index_of (inner s)"
    by (auto simp: index_of_def fun_eq_iff Store_Update_def)
  then have w: "s\<lparr>inner := ?i\<rparr> = with_inner s ?i" using assms by (simp add: indexed_def)
  have fwd: "on_inner (Scoped_Update p rid v) s = (Inr (), with_inner s ?i)"
    using Some w by (simp add: on_inner_eq Scoped_Update_eq)
  have undone: "on_inner (Scoped_Update p rid before) (next_write (with_inner s ?i)) = (Inr (), next_write s)"
    using Some assms updated_updated [OF Some, of v] lookup_updated [of "inner s" p rid v p rid] w
    by (simp add: on_inner_eq Scoped_Update_eq indexed_def)
  show ?thesis
    using Some fwd undone P_persist_ok [OF wf, of s] P_persist_fails [OF wf, of s]
    by (cases "fails s") (auto simp: P_Update_def Scoped_Get_lookup)
qed

lemma P_Delete_eq:
  assumes "indexed s"
  shows "P_Delete p rid s =
     (if scoped_lookup (inner s) p rid = None then (Inl ErrNotFound, s)
      else if fails s then (Inl write_error, next_write s)
      else (Inr (), flushed (with_inner s (deleted (inner s) p rid))))"
proof (cases "scoped_lookup (inner s) p rid")
  case None
  then show ?thesis by (simp add: P_Delete_def Scoped_Get_lookup)
next
  case (Some before)
  let ?i = "deleted (inner s) p rid"
  have wf0: "wf_scoped (inner s)" using assms by (simp add: indexed_def)
  have wf: "wf_scoped ?i" using wf0 by simp
  have fwd: "on_inner (Scoped_Delete p rid) s = (Inr (), s\<lparr>inner := ?i\<rparr>)"
    using Some wf0 by (simp add: on_inner_eq Scoped_Delete_eq)
  have drop: "dropKey p rid (s\<lparr>inner := ?i\<rparr>) = with_inner s ?i"
    by (rule dropKey_deleted [OF assms Some])
  let ?s2 = "next_write (with_inner s ?i)"
  have gone: "scoped_lookup ?i p rid = None" using lookup_deleted [OF wf0, of p rid] Some by simp
  have cr: "created ?i p rid before = inner s" by (rule created_deleted [OF wf0 Some])
  have undone: "on_inner (Scoped_Create p rid before) ?s2 = (Inr (), ?s2\<lparr>inner := inner s\<rparr>)"
    using gone cr by (simp add: on_inner_eq Scoped_Create_eq)
  have "indexed ?s2" using wf by (simp add: indexed_def)
  from addKey_created [OF this, of p rid before] gone cr
  have add: "addKey p rid (?s2\<lparr>inner := inner s\<rparr>) = next_write s"
    using assms by (simp add: indexed_def)
  show ?thesis
    using Some fwd drop undone add P_persist_ok [OF wf, of s] P_persist_fails [OF wf, of s]
    by (cases "fails s") (auto simp: P_Delete_def Scoped_Get_lookup)
qed


lemma restore_records_ok:
  "wf_store st \<Longrightarrow> distinct (map fst rs) \<Longrightarrow> \<forall>r \<in> set rs. data st (fst r) = None \<Longrightarrow>
   \<exists>st'. restore_records p n rs (set_child i p st) = (None, set_child i p st') \<and> wf_store st' \<and>
     data st' = data st ++ map_of rs"
proof (induction rs arbitrary: n st)
  case Nil
  then show ?case by auto
next
  case (Cons r rs)
  obtain rid v where r: "r = (rid, v)" by force
  let ?st = "snd (Store_Create rid v st)"
  have d: "data ?st = (data st)(rid \<mapsto> v)" using Cons.prems(3) by (simp add: Store_Create_def r)
  have step: "Scoped_Create p rid v (set_child i p st) = (Inr (), set_child i p ?st)"
    using Cons.prems(3) by (simp add: Scoped_Create_eq scoped_lookup_set_child r)
  have "\<forall>q \<in> set rs. data ?st (fst q) = None"
    using Cons.prems(2,3) by (force simp: d r)
  moreover have "wf_store ?st" using Cons.prems(1) by (rule Store_Create_wf)
  ultimately obtain st' where "restore_records p (Suc n) rs (set_child i p ?st) = (None, set_child i p st')"
    "wf_store st'" "data st' = data ?st ++ map_of rs"
    using Cons.IH [of ?st "Suc n"] Cons.prems(2) by (simp del: fun_upd_apply) blast
  moreover have "map_of rs rid = None" using Cons.prems(2) by (simp add: r map_of_eq_None_iff)
  then have "(data st)(rid \<mapsto> v) ++ map_of rs = data st ++ map_of (r # rs)"
    by (simp add: r map_add_upd_left domIff)
  moreover have "restore_records p n (r # rs) (set_child i p st) = restore_records p (Suc n) rs (set_child i p ?st)"
    unfolding r restore_records.simps step prod.case sum.case ..
  ultimately show ?case by (metis d)
qed

abbreviation removed :: "'a ScopedStore \<Rightarrow> string \<Rightarrow> 'a ScopedStore" where
  "removed i p \<equiv> i\<lparr>stores := (stores i)(p := None)\<rparr>"

definition child_records :: "'a Store \<Rightarrow> (string \<times> 'a) list" where
  "child_records st = map (\<lambda>r. (r, the (data st r))) (keys st)"

lemma map_of_child_records: "wf_store st \<Longrightarrow> map_of (child_records st) = data st"
proof
  fix k assume "wf_store st"
  then show "map_of (child_records st) k = data st k"
    by (cases "k \<in> set (keys st)")
      (auto simp: child_records_def map_of_map_restrict restrict_map_def wf_store_def domIff)
qed

lemma wf_removed: "wf_scoped i \<Longrightarrow> wf_scoped (removed i p)"
  by (auto simp: wf_scoped_def ran_def split: if_splits)

lemma index_of_removed: "index_of (removed i p) = (index_of i)(p := None)"
  by (auto simp: index_of_def child_def NewStore_def fun_eq_iff)

lemma restore_child:
  assumes "wf_scoped i" and "stores i p = Some st"
  shows "restore_records p 0 (child_records st) (snd (ForParent (removed i p) p)) = (None, i)"
proof -
  have wf: "wf_store st" using assms by (auto simp: wf_scoped_def ran_def)
  have e: "data NewStore = Map.empty" by (simp add: NewStore_def)
  have "map fst (child_records st) = keys st" by (simp add: child_records_def o_def)
  then obtain st' where "restore_records p 0 (child_records st) (set_child i p NewStore) = (None, set_child i p st')"
    "wf_store st'" "data st' = map_of (child_records st)"
    using restore_records_ok [OF wf_NewStore, of "child_records st" p 0 i] wf_store_distinct [OF wf]
    by (simp add: e) blast
  moreover from this have "st' = st" using wf_store_eqI [OF _ wf] map_of_child_records [OF wf] by simp
  moreover have "snd (ForParent (removed i p) p) = set_child i p NewStore" by (simp add: ForParent_def)
  ultimately show ?thesis using assms(2) by (simp add: map_upd_triv)
qed

lemma read_child:
  assumes "wf_scoped i" and "stores i p = Some st"
  shows "read_records i (map (Pair p) (keys st)) = Inr (map (Pair p) (child_records st))"
proof -
  have c: "child i p = st" using assms(2) by (simp add: child_def)
  have l: "scoped_lookup i p = data st" using assms(2) by (simp add: scoped_lookup_def fun_eq_iff)
  have "read_records i (map (Pair p) (keys st))
      = Inr (map (\<lambda>(p, r). (p, r, the (scoped_lookup i p r))) (map (Pair p) (keys st)))"
    using keys_lookup [OF assms(1), of _ p] by (intro read_records_ok) (auto simp: c)
  then show ?thesis by (simp add: child_records_def l o_def)
qed

lemma P_deleteParentLocked_eq:
  assumes "indexed s"
  shows "P_deleteParentLocked p s =
     (case stores (inner s) p of
        None \<Rightarrow> (Inr (0, []), s)
      | Some st \<Rightarrow>
          if fails s then (Inl write_error, next_write s)
          else (Inr (Store_Count st, child_records st), flushed (with_inner s (removed (inner s) p))))"
proof (cases "stores (inner s) p")
  case None
  then show ?thesis by (simp add: P_deleteParentLocked_def Scoped_HasParent_def)
next
  case (Some st)
  let ?i = "removed (inner s) p"
  have wf: "wf_scoped (inner s)" using assms by (simp add: indexed_def)
  have c: "child (inner s) p = st" using Some by (simp add: child_def)
  have ids: "idsUnder s p = keys st" using idsUnder_indexed [OF assms, of p] c by simp
  have recs: "read_records (inner s) (map (Pair p) (keys st)) = Inr (map (Pair p) (child_records st))"
    by (rule read_child [OF wf Some])
  have w: "s\<lparr>inner := ?i, pkeys := (pkeys s)(p := None)\<rparr> = with_inner s ?i"
    using assms by (simp add: indexed_def index_of_removed)
  have del: "on_inner (Scoped_DeleteParent p) s = (Inr (Store_Count st), s\<lparr>inner := ?i\<rparr>)"
    using Some by (simp add: on_inner_eq Scoped_DeleteParent_def)
  have snd_map: "map snd (map (Pair p) xs) = xs" for xs :: "(string \<times> 'a) list" by (simp add: o_def)
  have idx: "keys st = [] \<Longrightarrow> index_of ?i = pkeys s" "keys st \<noteq> [] \<Longrightarrow> (index_of ?i)(p \<mapsto> keys st) = pkeys s"
    using assms c by (auto simp: indexed_def index_of_removed fun_eq_iff index_of_def)
  show ?thesis
    using Some del w restore_child [OF wf Some] P_persist_ok [OF wf_removed [OF wf], of s]
      P_persist_fails [OF wf_removed [OF wf], of s] idx
    by (cases "fails s")
      (auto simp: P_deleteParentLocked_def Scoped_HasParent_def ids recs Let_def snd_map
        simp del: map_map split: if_splits)
qed


section \<open>Reading a snapshot back\<close>

definition record_key :: "string \<times> string \<times> 'a \<Rightarrow> (string \<times> string) \<times> 'a" where
  "record_key r = (case r of (p, rid, v) \<Rightarrow> ((p, rid), v))"

lemma record_key_triple [simp]: "record_key (p, rid, v) = ((p, rid), v)"
  by (simp add: record_key_def)

definition loadable :: "('a \<Rightarrow> string) option \<Rightarrow> string \<times> string \<times> 'a \<Rightarrow> bool" where
  "loadable idOf r = (case r of (p, rid, v) \<Rightarrow>
     p \<noteq> [] \<and> rid \<noteq> [] \<and> (case idOf of None \<Rightarrow> True | Some f \<Rightarrow> f v = rid))"

lemma keys_child: "wf_scoped i \<Longrightarrow> keys (child i p) = sorted_list_of_set (dom (scoped_lookup i p))"
  using wf_store_keys [of "child i p"] by (simp add: data_child)

lemma records_of_cong:
  assumes "wf_scoped i" and "wf_scoped j" and "scoped_lookup i = scoped_lookup j"
  shows "index_of i = index_of j" and "records_of i = records_of j"
proof -
  have k: "keys (child i p) = keys (child j p)" for p using assms by (simp add: keys_child)
  then show "index_of i = index_of j" by (simp add: index_of_def fun_eq_iff)
  with k assms(3) show "records_of i = records_of j" by (simp add: records_of_def)
qed

lemma finite_index: "wf_scoped i \<Longrightarrow> finite (dom (index_of i))"
proof -
  assume "wf_scoped i"
  then have "finite (dom (stores i))" by (simp add: wf_scoped_def)
  moreover have "dom (index_of i) \<subseteq> dom (stores i)"
    by (auto simp: index_of_def child_def NewStore_def split: option.splits if_splits)
  ultimately show ?thesis by (rule finite_subset [rotated])
qed

lemma records_of_keys:
  assumes "wf_scoped i"
  shows "set (map record_key (records_of i)) = {((p, rid), v). scoped_lookup i p rid = Some v}"
    and "distinct (map fst (map record_key (records_of i)))"
proof -
  have mem: "(p, rid, v) \<in> set (records_of i) \<longleftrightarrow> scoped_lookup i p rid = Some v" for p rid v
  proof
    assume "scoped_lookup i p rid = Some v"
    moreover from this have k: "rid \<in> set (keys (child i p))" using keys_lookup [OF assms] by simp
    moreover from k have "p \<in> dom (index_of i)" by (auto simp: index_of_def domIff)
    ultimately show "(p, rid, v) \<in> set (records_of i)"
      using finite_index [OF assms] by (force simp: records_of_def)
  qed (use keys_lookup [OF assms] in \<open>auto simp: records_of_def\<close>)
  then show "set (map record_key (records_of i)) = {((p, rid), v). scoped_lookup i p rid = Some v}"
    by (force simp: record_key_def image_iff)
  let ?ps = "sorted_list_of_set (dom (index_of i))"
  have "distinct (concat (map (\<lambda>p. map (Pair p) (keys (child i p))) ps))" if "distinct ps" for ps
    using that wf_store_distinct [OF wf_child [OF assms]]
    by (induction ps) (auto simp: distinct_map inj_on_def)
  moreover have "map fst (map record_key (records_of i)) = concat (map (\<lambda>p. map (Pair p) (keys (child i p))) ?ps)"
    by (simp add: records_of_def record_key_def map_concat o_def)
  ultimately show "distinct (map fst (map record_key (records_of i)))" by simp
qed

lemma map_of_records_of:
  assumes "wf_scoped i"
  shows "map_of (map record_key (records_of i)) (p, rid) = scoped_lookup i p rid"
proof (cases "scoped_lookup i p rid")
  case None
  then show ?thesis using records_of_keys [OF assms] by (auto simp: map_of_eq_None_iff)
next
  case (Some v)
  then show ?thesis using records_of_keys [OF assms] by (simp add: map_of_eq_Some_iff)
qed

lemma P_load_records_ok:
  assumes "indexed s" and "persistPath s = []" and "list_all (loadable idOf) rs"
    and "distinct (map fst (map record_key rs))"
    and "\<forall>(p, rid, v) \<in> set rs. scoped_lookup (inner s) p rid = None"
  shows "\<exists>i. P_load_records idOf rs s = (Inr (), with_inner s i) \<and> wf_scoped i \<and>
     (\<forall>p rid. scoped_lookup i p rid
        = (case map_of (map record_key rs) (p, rid) of None \<Rightarrow> scoped_lookup (inner s) p rid | Some v \<Rightarrow> Some v))"
  using assms
proof (induction rs arbitrary: s)
  case Nil
  then show ?case by (intro exI [of _ "inner s"]) (simp add: indexed_def)
next
  case (Cons r rs)
  obtain p rid v where r: "r = (p, rid, v)" by (cases r) auto
  let ?i = "created (inner s) p rid v"
  have wf: "wf_scoped (inner s)" and none: "scoped_lookup (inner s) p rid = None"
    using Cons.prems by (auto simp: indexed_def r)
  have c: "P_Create p rid v s = (Inr (), with_inner s ?i)"
    using Cons.prems(1,2) none by (simp add: P_Create_eq flushed_def)
  have l: "P_load_records idOf (r # rs) s = P_load_records idOf rs (with_inner s ?i)"
    using Cons.prems(3) c by (auto simp: r loadable_def split: option.splits)
  have fresh: "\<forall>(q, x, w) \<in> set rs. scoped_lookup ?i q x = None"
    using Cons.prems(4,5) lookup_created [OF none, of v] by (force simp: r)
  define t where "t = with_inner s ?i"
  have t: "indexed t" "persistPath t = []" "inner t = ?i"
    using Cons.prems(2) wf by (simp_all add: t_def)
  have rest: "list_all (loadable idOf) rs" "distinct (map fst (map record_key rs))"
    using Cons.prems(3,4) by simp_all
  from Cons.IH [OF t(1,2) rest, unfolded t(3), OF fresh]
  obtain i where "P_load_records idOf rs t = (Inr (), with_inner t i)"
    and "wf_scoped i" and lk: "\<forall>q x. scoped_lookup i q x
      = (case map_of (map record_key rs) (q, x) of None \<Rightarrow> scoped_lookup ?i q x | Some v \<Rightarrow> Some v)"
    by blast
  moreover have "with_inner t i = with_inner s i" by (simp add: t_def)
  moreover have "map_of (map record_key rs) (p, rid) = None"
    using Cons.prems(4) by (force simp: r map_of_eq_None_iff)
  then have "scoped_lookup i q x = (case map_of (map record_key (r # rs)) (q, x) of
      None \<Rightarrow> scoped_lookup (inner s) q x | Some v \<Rightarrow> Some v)" for q x
    using lk lookup_created [OF none, of v] by (auto simp: r split: option.splits)
  ultimately show ?case
    using l [folded t_def] by (intro exI [of _ i]) simp
qed


section \<open>The contract of a scoped store\<close>

text \<open>
  What the issuer and the commitment sources rely on: a store is a map of two keys, a read
  changes nothing, a write that returns nil took effect and a write that returns an error
  left every record as it was; a delete or an update answers not-found exactly for an absent
  record.
\<close>

definition upd2 :: "('k \<Rightarrow> 'i \<Rightarrow> 'a option) \<Rightarrow> 'k \<Rightarrow> 'i \<Rightarrow> 'a option \<Rightarrow> 'k \<Rightarrow> 'i \<Rightarrow> 'a option" where
  "upd2 m p i x = m(p := (m p)(i := x))"

lemma upd2_apply: "upd2 m p i x q j = (if q = p \<and> j = i then x else m q j)"
  by (simp add: upd2_def)

lemma upd2_upd2_same [simp]: "upd2 (upd2 m p i x) p i y = upd2 m p i y"
  by (simp add: upd2_def)

lemma upd2_triv: "m p i = x \<Longrightarrow> upd2 m p i x = m"
  by (auto simp: upd2_def fun_eq_iff)

locale scoped_store =
  fixes absm :: "'s \<Rightarrow> string \<Rightarrow> string \<Rightarrow> 'a option"
    and inv :: "'s \<Rightarrow> bool"
    and get :: "string \<Rightarrow> string \<Rightarrow> (err, 's, 'a) io"
    and create :: "string \<Rightarrow> string \<Rightarrow> 'a \<Rightarrow> (err, 's, unit) io"
    and delete :: "string \<Rightarrow> string \<Rightarrow> (err, 's, unit) io"
  assumes get_law: "inv s \<Longrightarrow> get p i s
      = (case absm s p i of None \<Rightarrow> Inl ErrNotFound | Some v \<Rightarrow> Inr v, s)"
    and create_law: "inv s \<Longrightarrow> create p i v s = (r, t) \<Longrightarrow> inv t \<and>
      (case r of Inr _ \<Rightarrow> absm s p i = None \<and> absm t = upd2 (absm s) p i (Some v) | Inl e \<Rightarrow> absm t = absm s)"
    and delete_law: "inv s \<Longrightarrow> delete p i s = (r, t) \<Longrightarrow> inv t \<and>
      (case r of Inr _ \<Rightarrow> absm s p i \<noteq> None \<and> absm t = upd2 (absm s) p i None
         | Inl e \<Rightarrow> absm t = absm s \<and> (err_is e ErrNotFound \<longleftrightarrow> absm s p i = None))"
begin

lemma create_ok: "inv s \<Longrightarrow> create p i v s = (Inr x, t) \<Longrightarrow>
    inv t \<and> absm s p i = None \<and> absm t = upd2 (absm s) p i (Some v)"
  using create_law by fastforce

lemma create_err: "inv s \<Longrightarrow> create p i v s = (Inl e, t) \<Longrightarrow> inv t \<and> absm t = absm s"
  using create_law by fastforce

lemma delete_ok: "inv s \<Longrightarrow> delete p i s = (Inr x, t) \<Longrightarrow>
    inv t \<and> absm s p i \<noteq> None \<and> absm t = upd2 (absm s) p i None"
  using delete_law by fastforce

lemma delete_err: "inv s \<Longrightarrow> delete p i s = (Inl e, t) \<Longrightarrow>
    inv t \<and> absm t = absm s \<and> (err_is e ErrNotFound \<longleftrightarrow> absm s p i = None)"
  using delete_law by fastforce

text \<open>A delete that answers nil or not-found leaves the key empty.\<close>

lemma delete_gone:
  assumes "inv s" and "delete p i s = (r, t)" and "\<And>e. r = Inl e \<Longrightarrow> err_is e ErrNotFound"
  shows "inv t \<and> absm t = upd2 (absm s) p i None"
proof (cases r)
  case (Inl e)
  with assms delete_err [OF assms(1)] show ?thesis by (auto simp: upd2_triv)
next
  case (Inr x)
  with assms(2) delete_ok [OF assms(1)] show ?thesis by blast
qed

end

locale rollback_store = scoped_store absm inv get create delete
  for absm :: "'s \<Rightarrow> string \<Rightarrow> string \<Rightarrow> 'a option"
    and inv :: "'s \<Rightarrow> bool"
    and get :: "string \<Rightarrow> string \<Rightarrow> (err, 's, 'a) io"
    and create :: "string \<Rightarrow> string \<Rightarrow> 'a \<Rightarrow> (err, 's, unit) io"
    and delete :: "string \<Rightarrow> string \<Rightarrow> (err, 's, unit) io" +
  fixes update :: "string \<Rightarrow> string \<Rightarrow> 'a \<Rightarrow> (err, 's, unit) io"
  assumes update_law: "inv s \<Longrightarrow> update p i v s = (r, t) \<Longrightarrow> inv t \<and>
      (case r of Inr _ \<Rightarrow> absm s p i \<noteq> None \<and> absm t = upd2 (absm s) p i (Some v)
         | Inl e \<Rightarrow> absm t = absm s \<and> (err_is e ErrNotFound \<longleftrightarrow> absm s p i = None))"
begin

lemma update_ok: "inv s \<Longrightarrow> update p i v s = (Inr x, t) \<Longrightarrow>
    inv t \<and> absm s p i \<noteq> None \<and> absm t = upd2 (absm s) p i (Some v)"
  using update_law by fastforce

lemma update_err: "inv s \<Longrightarrow> update p i v s = (Inl e, t) \<Longrightarrow>
    inv t \<and> absm t = absm s \<and> (err_is e ErrNotFound \<longleftrightarrow> absm s p i = None)"
  using update_law by fastforce

end

definition pabs :: "('a, 'z) pstore_scheme \<Rightarrow> string \<Rightarrow> string \<Rightarrow> 'a option" where
  "pabs s = scoped_lookup (inner s)"

definition P_Get :: "string \<Rightarrow> string \<Rightarrow> (err, ('a, 'z) pstore_scheme, 'a) io" where
  "P_Get parentID rid s = (Scoped_Get (inner s) parentID rid, s)"

lemma pinv_indexed: "pinv s \<Longrightarrow> indexed s"
  by (simp add: pinv_def)

lemma pinv_flushed: "wf_scoped i \<Longrightarrow> pinv (flushed (with_inner s i))"
  by (simp add: pinv_def flushed_def indexed_def)

lemma pinv_next_write [simp]: "pinv (next_write s) = pinv s"
  by (simp add: pinv_def indexed_def)

lemma inner_flushed [simp]: "inner (flushed s) = inner s"
  by (simp add: flushed_def)

lemma write_error_not_found [simp]: "\<not> err_is write_error ErrNotFound"
  by simp

lemma not_found_AlreadyExists [simp]: "\<not> err_is ErrAlreadyExists ErrNotFound"
  by (simp add: err_is_def)

lemma lookup_upd2:
  "scoped_lookup i p rid = None \<Longrightarrow> scoped_lookup (created i p rid v) = upd2 (scoped_lookup i) p rid (Some v)"
  "scoped_lookup i p rid \<noteq> None \<Longrightarrow> scoped_lookup (updated i p rid v) = upd2 (scoped_lookup i) p rid (Some v)"
  "wf_scoped i \<Longrightarrow> scoped_lookup i p rid \<noteq> None \<Longrightarrow> scoped_lookup (deleted i p rid) = upd2 (scoped_lookup i) p rid None"
  by (auto simp: fun_eq_iff upd2_apply lookup_created lookup_updated lookup_deleted)

interpretation ps: rollback_store pabs pinv P_Get P_Create P_Delete P_Update
proof
  fix s :: "('a, 'z) pstore_scheme" and t p i v r
  assume inv: "pinv s"
  then have ix: "indexed s" and wf: "wf_scoped (inner s)" by (simp_all add: pinv_def indexed_def)
  show "P_Get p i s = (case pabs s p i of None \<Rightarrow> Inl ErrNotFound | Some v \<Rightarrow> Inr v, s)"
    by (simp add: P_Get_def Scoped_Get_lookup pabs_def)
  show "pinv t \<and> (case r of Inr _ \<Rightarrow> pabs s p i = None \<and> pabs t = upd2 (pabs s) p i (Some v)
      | Inl e \<Rightarrow> pabs t = pabs s)" if "P_Create p i v s = (r, t)"
    using that inv wf lookup_upd2(1) [of "inner s" p i v] pinv_flushed [OF wf_created [OF wf, of p i v], of s]
    by (auto simp: P_Create_eq [OF ix] pabs_def split: if_splits)
  show "pinv t \<and> (case r of Inr _ \<Rightarrow> pabs s p i \<noteq> None \<and> pabs t = upd2 (pabs s) p i (Some v)
      | Inl e \<Rightarrow> pabs t = pabs s \<and> (err_is e ErrNotFound \<longleftrightarrow> pabs s p i = None))" if "P_Update p i v s = (r, t)"
    using that inv wf lookup_upd2(2) [of "inner s" p i v] pinv_flushed [OF wf_updated [OF wf, of p i v], of s]
    by (auto simp: P_Update_eq [OF ix] pabs_def split: if_splits)
  show "pinv t \<and> (case r of Inr _ \<Rightarrow> pabs s p i \<noteq> None \<and> pabs t = upd2 (pabs s) p i None
      | Inl e \<Rightarrow> pabs t = pabs s \<and> (err_is e ErrNotFound \<longleftrightarrow> pabs s p i = None))" if "P_Delete p i s = (r, t)"
    using that inv wf lookup_upd2(3) [of "inner s" p i] pinv_flushed [OF wf_deleted [OF wf, of p i], of s]
    by (auto simp: P_Delete_eq [OF ix] pabs_def split: if_splits)
qed


section \<open>Properties\<close>

text \<open>The four kinds of write, and what each means on the map of two keys.\<close>

datatype 'a pwrite =
    WCreate string string 'a
  | WUpdate string string 'a
  | WDelete string string
  | WDeleteParent string

fun P_step :: "'a pwrite \<Rightarrow> 'a pstore \<Rightarrow> err option \<times> 'a pstore" where
  "P_step (WCreate p i v) s = (case P_Create p i v s of (Inl e, t) \<Rightarrow> (Some e, t) | (Inr _, t) \<Rightarrow> (None, t))"
| "P_step (WUpdate p i v) s = (case P_Update p i v s of (Inl e, t) \<Rightarrow> (Some e, t) | (Inr _, t) \<Rightarrow> (None, t))"
| "P_step (WDelete p i) s = (case P_Delete p i s of (Inl e, t) \<Rightarrow> (Some e, t) | (Inr _, t) \<Rightarrow> (None, t))"
| "P_step (WDeleteParent p) s = (case P_DeleteParent p s of (Inl e, t) \<Rightarrow> (Some e, t) | (Inr _, t) \<Rightarrow> (None, t))"

fun abs_step :: "'a pwrite \<Rightarrow> (string \<Rightarrow> string \<Rightarrow> 'a option) \<Rightarrow> string \<Rightarrow> string \<Rightarrow> 'a option" where
  "abs_step (WCreate p i v) m = upd2 m p i (Some v)"
| "abs_step (WUpdate p i v) m = upd2 m p i (Some v)"
| "abs_step (WDelete p i) m = upd2 m p i None"
| "abs_step (WDeleteParent p) m = m(p := Map.empty)"

fun P_run :: "'a pwrite list \<Rightarrow> 'a pstore \<Rightarrow> 'a pstore" where
  "P_run [] s = s"
| "P_run (w # ws) s = P_run ws (snd (P_step w s))"

fun abs_run :: "'a pwrite list \<Rightarrow> 'a pstore \<Rightarrow> (string \<Rightarrow> string \<Rightarrow> 'a option) \<Rightarrow> string \<Rightarrow> string \<Rightarrow> 'a option" where
  "abs_run [] s m = m"
| "abs_run (w # ws) s m =
     abs_run ws (snd (P_step w s)) (if fst (P_step w s) = None then abs_step w m else m)"

lemma lookup_removed: "scoped_lookup (removed i p) = (scoped_lookup i)(p := Map.empty)"
  by (auto simp: scoped_lookup_def fun_eq_iff)

lemma lookup_absent: "stores i p = None \<Longrightarrow> (scoped_lookup i)(p := Map.empty) = scoped_lookup i"
  by (auto simp: scoped_lookup_def fun_eq_iff)

lemma P_step_law:
  assumes "pinv s" and "P_step w s = (r, t)"
  shows "pinv t" and "r \<noteq> None \<Longrightarrow> inner t = inner s \<and> pkeys t = pkeys s \<and> disk t = disk s"
    and "r = None \<Longrightarrow> pabs t = abs_step w (pabs s)" and "persistPath t = persistPath s"
proof -
  have ix: "indexed s" and wf: "wf_scoped (inner s)" using assms(1) by (simp_all add: pinv_def indexed_def)
  note eqs = P_Create_eq [OF ix] P_Update_eq [OF ix] P_Delete_eq [OF ix]
    P_deleteParentLocked_eq [OF ix] P_DeleteParent_def io_bind_def io_return_def
  from assms(2) assms(1) show "pinv t"
    by (cases w) (auto simp: eqs pinv_flushed wf wf_removed split: if_splits option.splits)
  from assms(2) show "inner t = inner s \<and> pkeys t = pkeys s \<and> disk t = disk s" if "r \<noteq> None"
    using that by (cases w) (auto simp: eqs split: if_splits option.splits)
  from assms(2) show "persistPath t = persistPath s"
    by (cases w) (auto simp: eqs flushed_def split: if_splits option.splits)
  from assms(2) show "pabs t = abs_step w (pabs s)" if "r = None"
    using that wf by (cases w)
      (auto simp: eqs pabs_def lookup_upd2 lookup_removed lookup_absent split: if_splits option.splits)
qed

lemma P_run_law: "pinv s \<Longrightarrow> pinv (P_run ws s) \<and> pabs (P_run ws s) = abs_run ws s (pabs s) \<and>
    persistPath (P_run ws s) = persistPath s"
proof (induction ws arbitrary: s)
  case (Cons w ws)
  obtain r t where st: "P_step w s = (r, t)" by force
  have "pabs t = pabs s" if "r \<noteq> None" using P_step_law(2) [OF Cons.prems st that] by (simp add: pabs_def)
  with Cons.IH [OF P_step_law(1) [OF Cons.prems st]] P_step_law(3,4) [OF Cons.prems st] show ?case
    by (simp add: st)
qed simp

text \<open>
  C7: a write of the persistent store is atomic, whatever the disk does. When it returns an
  error the collection, the key index, the parents and the file are what they were; when it
  returns nil the collection is the abstract map updated; and either way the file holds
  exactly the records served.
\<close>

theorem P_write_is_atomic:
  assumes "pinv s" and "P_step w s = (r, t)"
  shows "pinv t \<and>
    (case r of Some e \<Rightarrow> inner t = inner s \<and> pkeys t = pkeys s \<and> disk t = disk s
       | None \<Rightarrow> pabs t = abs_step w (pabs s))"
  using P_step_law [OF assms] by (simp split: option.splits)

definition sample_pstore :: "nat pstore" where
  "sample_pstore =
     \<lparr>inner = \<lparr>stores = [''p'' \<mapsto> \<lparr>data = [''a'' \<mapsto> 1], keys = [''a'']\<rparr>]\<rparr>,
      pkeys = [''p'' \<mapsto> [''a'']], persistPath = ''f'', disk = [(''p'', ''a'', 1)], faults = [True]\<rparr>"

lemma index_of_sample: "index_of (inner sample_pstore) = [''p'' \<mapsto> [''a'']]"
  by (auto simp: index_of_def child_def sample_pstore_def NewStore_def fun_eq_iff)

lemma sample_pstore_inv: "pinv sample_pstore"
proof -
  have "records_of (inner sample_pstore) = [(''p'', ''a'', 1)]"
    unfolding records_of_def index_of_sample
    by (simp add: child_def sample_pstore_def scoped_lookup_def)
  moreover have "wf_scoped (inner sample_pstore)"
    by (auto simp: wf_scoped_def wf_store_def sample_pstore_def)
  ultimately show ?thesis
    using index_of_sample by (simp add: pinv_def indexed_def) (simp add: sample_pstore_def)
qed

lemma sample_delete_fails:
  "P_step (WDelete ''p'' ''a'') sample_pstore = (Some write_error, next_write sample_pstore)"
  using P_Delete_eq [OF pinv_indexed [OF sample_pstore_inv], of "''p''" "''a''"]
  by (simp add: sample_pstore_def scoped_lookup_def)

theorem P_write_is_atomic_witness:
  "fst (P_step (WDelete ''p'' ''a'') sample_pstore) \<noteq> None \<and>
   inner (snd (P_step (WDelete ''p'' ''a'') sample_pstore)) = inner sample_pstore"
  using P_write_is_atomic [OF sample_pstore_inv sample_delete_fails] by (simp add: sample_delete_fails del: P_step.simps)

text \<open>
  A write names its record well when its parent and its id are not empty and the value
  carries the id it is stored under: the form in which the callers write, and the form
  that reading a file demands.
\<close>

fun well_named :: "('a \<Rightarrow> string) option \<Rightarrow> 'a pwrite \<Rightarrow> bool" where
  "well_named idOf (WCreate p i v) = loadable idOf (p, i, v)"
| "well_named idOf (WUpdate p i v) = loadable idOf (p, i, v)"
| "well_named idOf (WDelete p i) = True"
| "well_named idOf (WDeleteParent p) = True"

definition serves_loadable :: "('a \<Rightarrow> string) option \<Rightarrow> (string \<Rightarrow> string \<Rightarrow> 'a option) \<Rightarrow> bool" where
  "serves_loadable idOf m \<longleftrightarrow> (\<forall>p i v. m p i = Some v \<longrightarrow> loadable idOf (p, i, v))"

lemma serves_loadable_step: "serves_loadable idOf m \<Longrightarrow> well_named idOf w \<Longrightarrow> serves_loadable idOf (abs_step w m)"
  by (cases w) (auto simp: serves_loadable_def upd2_def split: if_splits)

lemma serves_loadable_run:
  "serves_loadable idOf m \<Longrightarrow> list_all (well_named idOf) ws \<Longrightarrow> serves_loadable idOf (abs_run ws s m)"
  by (induction ws arbitrary: s m) (auto simp: serves_loadable_step)

lemma records_loadable:
  assumes "wf_scoped i" and "serves_loadable idOf (scoped_lookup i)"
  shows "list_all (loadable idOf) (records_of i)"
proof -
  have "loadable idOf r" if "r \<in> set (records_of i)" for r
  proof -
    obtain p rid v where r: "r = (p, rid, v)" by (cases r)
    with that have "((p, rid), v) \<in> set (map record_key (records_of i))" by force
    then show ?thesis using assms(2) unfolding records_of_keys(1) [OF assms(1)] by (simp add: r serves_loadable_def)
  qed
  then show ?thesis by (simp add: list_all_iff)
qed

text \<open>
  C15: a restart serves what was stored. Let a store with a file serve records that name
  themselves well (a new store, which serves none, does). After any sequence of writes, each
  well named, with any disk failures, loading the file succeeds and gives a store with the
  same records as the running one, in which the invariant holds again; every record it
  serves is one whose write returned nil. The condition on the writes is needed: the store
  accepts a record with an empty parent or id, or one that carries another id, and a later
  load refuses the file.
\<close>

theorem P_restart_serves_the_same:
  assumes "pinv s" and "persistPath s \<noteq> []"
    and "serves_loadable idOf (pabs s)" and "list_all (well_named idOf) ws"
  shows "\<exists>t. NewPersistentScopedStore (persistPath s) idOf (disk (P_run ws s)) script = Inr t \<and>
     pinv t \<and> pabs t = pabs (P_run ws s) \<and> pabs t = abs_run ws s (pabs s)"
proof -
  let ?u = "P_run ws s"
  have u: "pinv ?u" "pabs ?u = abs_run ws s (pabs s)" "persistPath ?u = persistPath s"
    using P_run_law [OF assms(1)] by auto
  then have wf: "wf_scoped (inner ?u)" and d: "disk ?u = records_of (inner ?u)"
    using assms(2) by (simp_all add: pinv_def indexed_def)
  have "serves_loadable idOf (scoped_lookup (inner ?u))"
    using serves_loadable_run [OF assms(3,4), of s] u(2) by (simp add: pabs_def)
  then have ld: "list_all (loadable idOf) (disk ?u)" using records_loadable [OF wf] d by simp
  define e where "e = empty_pstore (disk ?u) script"
  have e: "indexed e" "persistPath e = []" "scoped_lookup (inner e) p rid = None" for p rid
    by (auto simp: e_def empty_pstore_def indexed_def index_of_def child_def NewScopedStore_def NewStore_def
        fun_eq_iff scoped_lookup_def wf_scoped_def)
  obtain i where i: "P_load_records idOf (disk ?u) e = (Inr (), with_inner e i)" "wf_scoped i"
    and lk: "\<forall>p rid. scoped_lookup i p rid
      = (case scoped_lookup (inner ?u) p rid of None \<Rightarrow> scoped_lookup (inner e) p rid | Some v \<Rightarrow> Some v)"
    using P_load_records_ok [OF e(1,2) ld] records_of_keys(2) [OF wf] map_of_records_of [OF wf]
    by (simp add: e(3) d) blast
  from lk have l: "scoped_lookup i = scoped_lookup (inner ?u)"
    by (auto simp: fun_eq_iff e(3) split: option.splits)
  let ?t = "(with_inner e i)\<lparr>persistPath := persistPath s\<rparr>"
  have "pinv ?t"
    using i(2) records_of_cong [OF i(2) wf l] by (simp add: pinv_def indexed_def e_def empty_pstore_def d)
  moreover have "pabs ?t = pabs ?u" using l by (simp add: pabs_def)
  ultimately show ?thesis using i(1) u(2) assms(2) by (auto simp: NewPersistentScopedStore_def e_def)
qed

lemma sample_restart_input:
  "serves_loadable (Some (\<lambda>v. if v = 1 then ''a'' else ''b'')) (pabs sample_pstore)"
  "list_all (well_named (Some (\<lambda>v. if v = 1 then ''a'' else ''b''))) [WDelete ''p'' ''a'', WCreate ''p'' ''b'' (2 :: nat)]"
  by (auto simp: serves_loadable_def loadable_def pabs_def sample_pstore_def scoped_lookup_def split: if_splits option.splits)

theorem P_restart_serves_the_same_witness:
  "\<exists>t. NewPersistentScopedStore ''f'' (Some (\<lambda>v. if v = 1 then ''a'' else ''b''))
       (disk (P_run [WDelete ''p'' ''a'', WCreate ''p'' ''b'' 2] sample_pstore)) [] = Inr t \<and>
     pabs t ''p'' ''a'' = Some 1 \<and> pabs t ''p'' ''b'' = Some 2"
proof -
  let ?ws = "[WDelete ''p'' ''a'', WCreate ''p'' ''b'' (2 :: nat)]"
  have ix: "indexed (next_write sample_pstore)"
    using sample_pstore_inv by (simp add: pinv_def indexed_def)
  have p: "persistPath sample_pstore = ''f''" by (simp add: sample_pstore_def)
  have c: "fst (P_step (WCreate ''p'' ''b'' 2) (next_write sample_pstore)) = None"
    using P_Create_eq [OF ix, of "''p''" "''b''" 2]
    by (simp add: sample_pstore_def scoped_lookup_def)
  have "abs_run ?ws sample_pstore (pabs sample_pstore) = upd2 (pabs sample_pstore) ''p'' ''b'' (Some 2)"
    by (simp add: sample_delete_fails c del: P_step.simps)
  moreover have "upd2 (pabs sample_pstore) ''p'' ''b'' (Some 2) ''p'' ''a'' = Some 1"
      "upd2 (pabs sample_pstore) ''p'' ''b'' (Some 2) ''p'' ''b'' = Some 2"
    by (simp_all add: upd2_def pabs_def sample_pstore_def scoped_lookup_def)
  ultimately show ?thesis
    using P_restart_serves_the_same [OF sample_pstore_inv _ sample_restart_input, of "[]"] p by auto
qed

end
