(* ===== verification/Href.thy ===== *)
theory Href
  imports Errors
begin

text \<open>
  \<open>internal/derhref\<close> and the \<open>Scope\<close> type of \<open>internal/dercontrol\<close>: the hrefs and store keys
  of DER programs and controls, with the string functions of Go's \<open>strings\<close> package they
  use. Strings are lists of bytes. A \<open>(string, bool)\<close> result is an option.
\<close>

section \<open>Go string functions\<close>

text \<open>
  \<open>strings.TrimSpace\<close> removes the characters of \<open>unicode.IsSpace\<close> from both ends. A string is a
  list of bytes, so a space is one of the UTF-8 encodings below: tab to carriage return, blank,
  U+0085, U+00A0, U+1680, U+2000 to U+200A, U+2028, U+2029, U+202F, U+205F and U+3000. None is the
  tail of another character's encoding, so looking at the bytes at either end decides as decoding
  a rune there does, also in a string that is not valid UTF-8.
\<close>

definition space_runes :: "string list" where
  "space_runes =
     map (map char_of)
       ([[9], [10], [11], [12], [13], [32], [0xC2, 0x85], [0xC2, 0xA0], [0xE1, 0x9A, 0x80],
         [0xE2, 0x80, 0x80], [0xE2, 0x80, 0x81], [0xE2, 0x80, 0x82], [0xE2, 0x80, 0x83], [0xE2, 0x80, 0x84],
         [0xE2, 0x80, 0x85], [0xE2, 0x80, 0x86], [0xE2, 0x80, 0x87], [0xE2, 0x80, 0x88], [0xE2, 0x80, 0x89],
         [0xE2, 0x80, 0x8A], [0xE2, 0x80, 0xA8], [0xE2, 0x80, 0xA9], [0xE2, 0x80, 0xAF], [0xE2, 0x81, 0x9F],
         [0xE3, 0x80, 0x80]] :: nat list list)"

function trim_runes :: "string list \<Rightarrow> string \<Rightarrow> string" where
  "trim_runes runes s =
     (case find (\<lambda>r. r \<noteq> [] \<and> prefix r s) runes of
        None \<Rightarrow> s
      | Some r \<Rightarrow> trim_runes runes (drop (length r) s))"
  by pat_completeness auto
termination
proof (relation "measure (length \<circ> snd)")
  fix runes s r assume "find (\<lambda>r. r \<noteq> [] \<and> prefix r s) runes = Some r"
  then have "r \<noteq> []" "prefix r s" by (auto simp: find_Some_iff)
  then have "0 < length r" "length r \<le> length s" by (auto dest: prefix_length_le)
  then have "length s - length r < length s" by linarith
  then show "((runes, drop (length r) s), runes, s) \<in> measure (length \<circ> snd)" by simp
qed simp

declare trim_runes.simps [simp del]

definition TrimSpace :: "string \<Rightarrow> string" where
  "TrimSpace s = rev (trim_runes (map rev space_runes) (rev (trim_runes space_runes s)))"

definition TrimPrefix :: "string \<Rightarrow> string \<Rightarrow> string" where
  "TrimPrefix s pre = (if prefix pre s then drop (length pre) s else s)"

definition CutSuffix :: "string \<Rightarrow> string \<Rightarrow> string option" where
  "CutSuffix s suf = (if suffix suf s then Some (take (length s - length suf) s) else None)"

text \<open>\<open>strings.Split(s, sep)\<close> for a one-byte separator: one more part than separators.\<close>

fun split_on :: "char \<Rightarrow> string \<Rightarrow> string list" where
  "split_on sep [] = [[]]"
| "split_on sep (c # cs) =
     (if c = sep then [] # split_on sep cs
      else (case split_on sep cs of
              [] \<Rightarrow> [[c]]
            | p # ps \<Rightarrow> (c # p) # ps))"

definition LastIndex :: "string \<Rightarrow> string \<Rightarrow> nat option" where
  "LastIndex s sub = find (\<lambda>i. prefix sub (drop i s)) (rev [0..<Suc (length s)])"

section \<open>derhref\<close>

definition Split :: "string \<Rightarrow> string \<Rightarrow> string \<Rightarrow> string \<Rightarrow> (string \<times> string \<times> string) option" where
  "Split href seg0 seg1 seg2 =
     (case split_on CHR ''/'' (TrimPrefix (TrimSpace href) ''/'') of
        [p0, p1, p2, p3, p4, p5] \<Rightarrow>
          if p0 \<noteq> seg0 \<or> p2 \<noteq> seg1 \<or> p4 \<noteq> seg2 then None
          else if p1 = [] \<or> p3 = [] \<or> p5 = [] then None
          else Some (p1, p3, p5)
      | _ \<Rightarrow> None)"

definition Program :: "string \<Rightarrow> (string \<times> string \<times> string) option" where
  "Program href = Split href ''edev'' ''fsa'' ''derp''"

definition ControlID :: "string \<Rightarrow> string option" where
  "ControlID href =
     (case LastIndex href ''/derc/'' of
        None \<Rightarrow> None
      | Some idx \<Rightarrow>
          (let i = drop (idx + length ''/derc/'') href in if i = [] then None else Some i))"

definition ControlList :: "string \<Rightarrow> (string \<times> string \<times> string) option" where
  "ControlList href =
     (case CutSuffix (TrimSpace href) ''/derc'' of None \<Rightarrow> None | Some t \<Rightarrow> Program t)"

definition ScopeKey :: "string \<Rightarrow> string \<Rightarrow> string \<Rightarrow> string" where
  "ScopeKey edev fsa derp = edev @ ''/'' @ fsa @ ''/'' @ derp"

definition ControlListScope :: "string \<Rightarrow> string option" where
  "ControlListScope href =
     (case ControlList href of None \<Rightarrow> None | Some (edev, fsa, derp) \<Rightarrow> Some (ScopeKey edev fsa derp))"

definition SplitScopeKey :: "string \<Rightarrow> (string \<times> string \<times> string) option" where
  "SplitScopeKey key =
     (case split_on CHR ''/'' key of
        [p0, p1, p2] \<Rightarrow> if p0 = [] \<or> p1 = [] \<or> p2 = [] then None else Some (p0, p1, p2)
      | _ \<Rightarrow> None)"

section \<open>Scopes\<close>

record Scope =
  EndDeviceID :: string
  FSAID :: string
  DERProgramID :: string

definition Key :: "Scope \<Rightarrow> string" where
  "Key s = ScopeKey (EndDeviceID s) (FSAID s) (DERProgramID s)"

definition ScopeFromKey :: "string \<Rightarrow> Scope option" where
  "ScopeFromKey key =
     (case SplitScopeKey key of
        None \<Rightarrow> None
      | Some (edev, fsa, derp) \<Rightarrow>
          Some \<lparr>EndDeviceID = edev, FSAID = fsa, DERProgramID = derp\<rparr>)"

definition ProgramListHref :: "Scope \<Rightarrow> string" where
  "ProgramListHref s = ''/edev/'' @ EndDeviceID s @ ''/fsa/'' @ FSAID s @ ''/derp''"

definition ProgramHref :: "Scope \<Rightarrow> string" where
  "ProgramHref s = ProgramListHref s @ ''/'' @ DERProgramID s"

definition ControlListHref :: "Scope \<Rightarrow> string" where
  "ControlListHref s = ProgramHref s @ ''/derc''"

definition ControlHref :: "Scope \<Rightarrow> string \<Rightarrow> string" where
  "ControlHref s i = ControlListHref s @ ''/'' @ i"

text \<open>\<open>controlIDOf\<close> of \<open>retire.go\<close>: the empty string for an href of another shape.\<close>

definition controlIDOf :: "string \<Rightarrow> string" where
  "controlIDOf href = (case ControlID href of None \<Rightarrow> [] | Some i \<Rightarrow> i)"

section \<open>Path segments\<close>

definition segment :: "string \<Rightarrow> bool" where
  "segment s \<longleftrightarrow> s \<noteq> [] \<and> CHR ''/'' \<notin> set s"

definition wf_scope :: "Scope \<Rightarrow> bool" where
  "wf_scope s \<longleftrightarrow> segment (EndDeviceID s) \<and> segment (FSAID s) \<and> segment (DERProgramID s)"

lemma split_on_nonempty [simp]: "split_on sep s \<noteq> []"
  by (induction s) (auto split: list.splits)

lemma split_on_none [simp]: "sep \<notin> set s \<Longrightarrow> split_on sep s = [s]"
  by (induction s) auto

lemma split_on_append: "sep \<notin> set s \<Longrightarrow> split_on sep (s @ sep # t) = s # split_on sep t"
  by (induction s) auto

lemma split_on_parts: "p \<in> set (split_on sep s) \<Longrightarrow> sep \<notin> set p"
  by (induction s arbitrary: p) (auto split: if_splits list.splits)

text \<open>Joining the parts with the separator gives the string back.\<close>

fun join_with :: "char \<Rightarrow> string list \<Rightarrow> string" where
  "join_with sep [] = []"
| "join_with sep [p] = p"
| "join_with sep (p # ps) = p @ sep # join_with sep ps"

lemma join_split_on: "join_with sep (split_on sep s) = s"
proof (induction s)
  case (Cons c s)
  show ?case
  proof (cases "split_on sep s")
    case (Cons p ps)
    with Cons.IH show ?thesis by (cases ps) auto
  qed simp
qed simp

lemma SplitScopeKey_Some_iff:
  "SplitScopeKey key = Some (e, f, d) \<longleftrightarrow>
     key = ScopeKey e f d \<and> segment e \<and> segment f \<and> segment d"
proof
  assume "SplitScopeKey key = Some (e, f, d)"
  then have parts: "split_on CHR ''/'' key = [e, f, d]" and ne: "e \<noteq> []" "f \<noteq> []" "d \<noteq> []"
    by (auto simp: SplitScopeKey_def split: list.splits if_splits)
  have "key = ScopeKey e f d"
    using join_split_on [of "CHR ''/''" key] by (simp add: parts ScopeKey_def)
  moreover have "CHR ''/'' \<notin> set e" "CHR ''/'' \<notin> set f" "CHR ''/'' \<notin> set d"
    using split_on_parts [of _ "CHR ''/''" key] by (simp_all add: parts)
  ultimately show "key = ScopeKey e f d \<and> segment e \<and> segment f \<and> segment d"
    using ne by (simp add: segment_def)
next
  assume "key = ScopeKey e f d \<and> segment e \<and> segment f \<and> segment d"
  then show "SplitScopeKey key = Some (e, f, d)"
    by (simp add: SplitScopeKey_def ScopeKey_def segment_def split_on_append)
qed

lemma ScopeFromKey_Some_iff: "ScopeFromKey key = Some s \<longleftrightarrow> key = Key s \<and> wf_scope s"
proof (cases s)
  case (fields e f d)
  have "ScopeFromKey key = Some s \<longleftrightarrow> SplitScopeKey key = Some (e, f, d)"
    by (auto simp: ScopeFromKey_def fields split: option.splits)
  then show ?thesis by (simp add: SplitScopeKey_Some_iff Key_def wf_scope_def fields)
qed

lemma Key_inj: "wf_scope s \<Longrightarrow> wf_scope t \<Longrightarrow> Key s = Key t \<Longrightarrow> s = t"
  by (metis ScopeFromKey_Some_iff option.inject)

section \<open>Reading an href back\<close>

text \<open>No white space at the end of a string, in Go's sense.\<close>

definition spaceless_end :: "string \<Rightarrow> bool" where
  "spaceless_end s \<longleftrightarrow> (\<forall>r \<in> set space_runes. \<not> suffix r s)"

lemma trim_runes_id: "\<forall>r \<in> set runes. \<not> prefix r s \<Longrightarrow> trim_runes runes s = s"
  by (subst trim_runes.simps) (auto simp: find_Some_iff split: option.splits dest: nth_mem)

lemma TrimSpace_id:
  assumes "\<forall>r \<in> set space_runes. \<not> prefix r s" and "spaceless_end s"
  shows "TrimSpace s = s"
proof -
  have "\<forall>r \<in> set (map rev space_runes). \<not> prefix r (rev s)"
    using assms(2) by (auto simp: spaceless_end_def suffix_to_prefix)
  with trim_runes_id [OF assms(1)] trim_runes_id show ?thesis by (simp add: TrimSpace_def)
qed

text \<open>
  No space begins or ends with one of the printing ASCII characters, so a string between two of
  them is trimmed to itself; the equation serves evaluation.
\<close>

definition printing :: "char \<Rightarrow> bool" where
  "printing c \<longleftrightarrow> (let n = of_char c :: nat in 32 < n \<and> n < 128)"

lemma space_runes_ends: "\<forall>r \<in> set space_runes. r \<noteq> [] \<and> \<not> printing (hd r) \<and> \<not> printing (last r)"
  by code_simp

lemma TrimSpace_code [code]:
  "TrimSpace s = (if s \<noteq> [] \<and> printing (hd s) \<and> printing (last s) then s
     else rev (trim_runes (map rev space_runes) (rev (trim_runes space_runes s))))"
proof (cases "s \<noteq> [] \<and> printing (hd s) \<and> printing (last s)")
  case True
  have "\<not> prefix r s" if "r \<in> set space_runes" for r
    using that True space_runes_ends by (auto simp: prefix_def)
  moreover have "spaceless_end s"
    unfolding spaceless_end_def using True space_runes_ends by (auto simp: suffix_def)
  ultimately show ?thesis using True by (simp add: TrimSpace_id)
qed (auto simp: TrimSpace_def)

lemma space_runes_plain: "\<forall>r \<in> set space_runes. r \<noteq> [] \<and> CHR ''/'' \<notin> set r \<and> CHR ''c'' \<notin> set r"
  by code_simp

lemma slash_no_space: "\<forall>r \<in> set space_runes. \<not> prefix r (CHR ''/'' # s)"
  using space_runes_plain by (auto simp: prefix_Cons)

lemma spaceless_after_slash:
  assumes "spaceless_end t" and "t \<noteq> []"
  shows "spaceless_end (p @ CHR ''/'' # t)"
  unfolding spaceless_end_def
proof (intro ballI notI)
  fix r assume r: "r \<in> set space_runes" and "suffix r (p @ CHR ''/'' # t)"
  then consider "suffix r t" | "CHR ''/'' \<in> set r"
    by (auto simp: suffix_append suffix_Cons)
  then show False using assms(1) r space_runes_plain by cases (auto simp: spaceless_end_def)
qed

lemma CutSuffix_append [simp]: "CutSuffix (s @ suf) suf = Some s"
  by (simp add: CutSuffix_def suffix_def)

lemma Program_ProgramHref:
  assumes "wf_scope s" and "spaceless_end (DERProgramID s)"
  shows "Program (ProgramHref s) = Some (EndDeviceID s, FSAID s, DERProgramID s)"
proof -
  let ?h = "ProgramHref s"
  obtain h where h: "?h = CHR ''/'' # h" by (simp add: ProgramHref_def ProgramListHref_def)
  have "spaceless_end ?h"
    using spaceless_after_slash [OF assms(2), of "ProgramListHref s"] assms(1)
    by (simp add: ProgramHref_def wf_scope_def segment_def)
  then have t: "TrimSpace ?h = ?h" using slash_no_space by (intro TrimSpace_id) (auto simp: h)
  have "TrimPrefix ?h ''/'' = ''edev'' @ CHR ''/'' # EndDeviceID s @ CHR ''/'' # ''fsa'' @ CHR ''/'' #
      FSAID s @ CHR ''/'' # ''derp'' @ CHR ''/'' # DERProgramID s"
    by (simp add: TrimPrefix_def ProgramHref_def ProgramListHref_def)
  then have "split_on CHR ''/'' (TrimPrefix ?h ''/'') =
      [''edev'', EndDeviceID s, ''fsa'', FSAID s, ''derp'', DERProgramID s]"
    using assms(1)
    by (simp only: split_on_append [where s = "''edev''"] split_on_append [where s = "''fsa''"]
        split_on_append [where s = "''derp''"])
      (simp add: wf_scope_def segment_def split_on_append)
  with t assms(1) show ?thesis by (simp add: Program_def Split_def wf_scope_def segment_def)
qed

lemma ControlList_ControlListHref:
  assumes "wf_scope s" and "spaceless_end (DERProgramID s)"
  shows "ControlList (ControlListHref s) = Some (EndDeviceID s, FSAID s, DERProgramID s)"
proof -
  let ?h = "ControlListHref s"
  obtain h where h: "?h = CHR ''/'' # h" by (simp add: ControlListHref_def ProgramHref_def ProgramListHref_def)
  have "spaceless_end ''derc''" by code_simp
  then have "spaceless_end ?h"
    using spaceless_after_slash [of "''derc''" "ProgramHref s"] by (simp add: ControlListHref_def)
  then have "TrimSpace ?h = ?h" using slash_no_space by (intro TrimSpace_id) (auto simp: h)
  then show ?thesis
    using Program_ProgramHref [OF assms] by (simp add: ControlList_def ControlListHref_def)
qed

lemma find_split: "\<forall>x \<in> set xs. \<not> P x \<Longrightarrow> P y \<Longrightarrow> find P (xs @ y # ys) = Some y"
  by (induction xs) auto

lemma LastIndex_eqI:
  assumes "prefix sub (drop n s)" and "n \<le> length s" and "\<And>k. n < k \<Longrightarrow> \<not> prefix sub (drop k s)"
  shows "LastIndex s sub = Some n"
proof -
  obtain d where "length s = n + d" using assms(2) le_Suc_ex by blast
  then have "[0..<Suc (length s)] = [0..<n] @ n # [Suc n..<Suc (length s)]"
    using upt_add_eq_append [of 0 n "Suc d"] by (simp add: upt_conv_Cons del: upt_Suc)
  then have "rev [0..<Suc (length s)] = rev [Suc n..<Suc (length s)] @ n # rev [0..<n]" by simp
  then show ?thesis unfolding LastIndex_def using assms(1,3) by (simp add: find_split del: upt_Suc)
qed

lemma LastIndex_derc:
  assumes "CHR ''/'' \<notin> set i"
  shows "LastIndex (p @ ''/derc/'' @ i) ''/derc/'' = Some (length p)"
proof -
  let ?s = "p @ ''/derc/'' @ i"
  have none: "\<not> prefix ''/derc/'' (drop k ?s)" if k: "length p < k" for k
  proof
    assume pre: "prefix ''/derc/'' (drop k ?s)"
    obtain j where j: "k = length p + Suc j" using k less_imp_Suc_add [of "length p" k] by auto
    have "drop k ?s = drop j (''derc/'' @ i)" by (simp add: j)
    with pre have m: "prefix ''/derc/'' (drop j (''derc/'' @ i))" by simp
    consider "j = 0" | "j = 1" | "j = 2" | "j = 3" | "j = 4" | m where "j = 5 + m"
      using le_Suc_ex [of 5 j] by (cases "j < 5") (auto simp: numeral_eq_Suc less_Suc_eq)
    then show False
    proof cases
      case 5
      with m have "prefix ''derc/'' i" by simp
      with assms show False by (auto simp: prefix_def)
    next
      case (6 m')
      with m have "prefix ''/derc/'' (drop m' i)" by (simp add: numeral_eq_Suc)
      then have "CHR ''/'' \<in> set (drop m' i)" by (auto simp: prefix_def)
      with assms show False by (meson in_set_dropD)
    qed (use m in simp_all)
  qed
  have "prefix ''/derc/'' (drop (length p) ?s)" by simp
  then show ?thesis by (rule LastIndex_eqI) (use none in simp_all)
qed

lemma ControlID_append:
  assumes "segment i"
  shows "ControlID (p @ ''/derc/'' @ i) = Some i"
  using assms LastIndex_derc [of i p] by (simp add: ControlID_def segment_def)

lemma ControlID_ControlHref: "segment i \<Longrightarrow> ControlID (ControlHref s i) = Some i"
  using ControlID_append [of i "ProgramHref s"] by (simp add: ControlHref_def ControlListHref_def)

text \<open>What is read from an href are path segments.\<close>

lemma Split_segments:
  assumes "Split href s0 s1 s2 = Some (a, b, c)"
  shows "segment a \<and> segment b \<and> segment c"
proof -
  from assms obtain p0 p2 p4 where "split_on CHR ''/'' (TrimPrefix (TrimSpace href) ''/'') = [p0, a, p2, b, p4, c]"
    and "a \<noteq> []" "b \<noteq> []" "c \<noteq> []"
    by (auto simp: Split_def split: list.splits if_splits)
  then show ?thesis
    using split_on_parts [of _ "CHR ''/''" "TrimPrefix (TrimSpace href) ''/''"] by (simp add: segment_def)
qed

lemma ControlList_segments:
  "ControlList href = Some (a, b, c) \<Longrightarrow> segment a \<and> segment b \<and> segment c"
  using Split_segments by (auto simp: ControlList_def Program_def split: option.splits)

section \<open>Properties\<close>

text \<open>
  C38: hrefs and scope keys read back. Let a scope have segments that are not empty and have
  no slash, and a program id that does not end in white space, ASCII or other. The hrefs built
  from it parse to the scope, a control's href gives its id, and a key is the key of one
  well-formed scope or of none. The condition on the program id is needed: the parsers trim
  white space from the end of an href.
\<close>

theorem hrefs_read_back:
  assumes "wf_scope s" and "spaceless_end (DERProgramID s)" and "segment x"
  shows "Program (ProgramHref s) = Some (EndDeviceID s, FSAID s, DERProgramID s) \<and>
    ControlList (ControlListHref s) = Some (EndDeviceID s, FSAID s, DERProgramID s) \<and>
    ControlListScope (ControlListHref s) = Some (Key s) \<and>
    ControlID (ControlHref s x) = Some x \<and> controlIDOf (ControlHref s x) = x \<and>
    (\<forall>key s'. ScopeFromKey key = Some s' \<longleftrightarrow> key = Key s' \<and> wf_scope s')"
  using assms by (simp add: Program_ProgramHref ControlList_ControlListHref ControlListScope_def Key_def
      ControlID_ControlHref controlIDOf_def ScopeFromKey_Some_iff)

theorem hrefs_read_back_witness:
  "Program ''/edev/7/fsa/2/derp/1'' = Some (''7'', ''2'', ''1'') \<and> ControlID ''/edev/7/fsa/2/derp/1/derc/9'' = Some ''9''"
proof -
  let ?s = "\<lparr>EndDeviceID = ''7'', FSAID = ''2'', DERProgramID = ''1''\<rparr>"
  have "wf_scope ?s" "spaceless_end (DERProgramID ?s)" "segment ''9''" by code_simp+
  from hrefs_read_back [OF this] show ?thesis
    by (simp add: ProgramHref_def ProgramListHref_def ControlHref_def ControlListHref_def)
qed

end
