(* ===== verification/Lifecycle.thy ===== *)
theory Lifecycle
  imports Href MemStore FitsGrant
begin

text \<open>
  \<open>internal/dercontrol/lifecycle.go\<close>, \<open>status.go\<close>, \<open>state.go\<close> and \<open>status_store.go\<close>: the
  record kept beside an issued control, the status served for it and the state the server
  acts on. The resources of the vendored core library are records of the fields this code
  reads; of a \<open>DERControlBase\<close> these are the active power target and the names of the
  catalog functions it carries, in catalog order (\<open>FunctionNames\<close>).
\<close>

section \<open>Resources\<close>

record EventStatus =
  CurrentStatus :: nat
  DateTime :: int
  PotentiallySuperseded :: bool

abbreviation (input) EventStatusScheduled :: nat where "EventStatusScheduled \<equiv> 0"
abbreviation (input) EventStatusActive :: nat where "EventStatusActive \<equiv> 1"
abbreviation (input) EventStatusCancelled :: nat where "EventStatusCancelled \<equiv> 2"
abbreviation (input) EventStatusSuperseded :: nat where "EventStatusSuperseded \<equiv> 4"

record DERControlBase =
  b_OpModTargetW :: "active_power option"
  b_FunctionNames :: "string list"

record DERControl =
  d_MRID :: string
  d_Description :: string
  d_CreationTime :: int
  d_Interval :: "window option"
  d_Href :: string
  d_Base :: "DERControlBase option"
  d_EventStatus :: "EventStatus option"

section \<open>The lifecycle record\<close>

record LifecycleRecord =
  lc_CancelledAt :: "int option"
  lc_CancelReason :: string
  lc_SupersededAt :: "int option"
  lc_SupersededBy :: string
  lc_GrantMRID :: string
  lc_FleetKey :: string
  lc_Reach :: int
  lc_Origin :: string
  lc_FleetTotal :: bool

definition zero_lifecycle :: LifecycleRecord where
  "zero_lifecycle =
     \<lparr>lc_CancelledAt = None, lc_CancelReason = [], lc_SupersededAt = None, lc_SupersededBy = [],
      lc_GrantMRID = [], lc_FleetKey = [], lc_Reach = 0, lc_Origin = [], lc_FleetTotal = False\<rparr>"

abbreviation OriginAdmin :: string where "OriginAdmin \<equiv> ''admin''"
abbreviation OriginDERMS :: string where "OriginDERMS \<equiv> ''derms''"

definition OriginOf :: "string \<Rightarrow> string" where
  "OriginOf stored = (if stored = OriginDERMS then OriginDERMS else OriginAdmin)"

definition StoredOrigin :: "string \<Rightarrow> err + string" where
  "StoredOrigin origin =
     (if origin = [] \<or> origin = OriginAdmin then Inr []
      else if origin = OriginDERMS then Inr OriginDERMS
      else Inl ErrInvalidOrigin)"

definition cancelled :: "LifecycleRecord \<Rightarrow> bool" where
  "cancelled r \<longleftrightarrow> lc_CancelledAt r \<noteq> None"

definition supersedeEligible :: "LifecycleRecord \<Rightarrow> int \<Rightarrow> bool" where
  "supersedeEligible r newStart =
     (if lc_CancelledAt r \<noteq> None then False
      else (case lc_SupersededAt r of None \<Rightarrow> True | Some t \<Rightarrow> newStart < t))"

definition supersededAsOf :: "LifecycleRecord \<Rightarrow> int \<Rightarrow> bool" where
  "supersededAsOf r now = (case lc_SupersededAt r of None \<Rightarrow> False | Some t \<Rightarrow> now \<ge> t)"

section \<open>The served status\<close>

definition DeriveStatus :: "int \<Rightarrow> int \<Rightarrow> int \<Rightarrow> LifecycleRecord \<Rightarrow> EventStatus" where
  "DeriveStatus now creationTime start lc =
     (case lc_CancelledAt lc of
        Some c \<Rightarrow> \<lparr>CurrentStatus = EventStatusCancelled, DateTime = max c creationTime, PotentiallySuperseded = False\<rparr>
      | None \<Rightarrow>
          (let live = (let effectiveStart = (if creationTime > start then creationTime else start)
                       in if now < effectiveStart
                          then \<lparr>CurrentStatus = EventStatusScheduled, DateTime = creationTime, PotentiallySuperseded = False\<rparr>
                          else \<lparr>CurrentStatus = EventStatusActive, DateTime = effectiveStart, PotentiallySuperseded = False\<rparr>)
           in case lc_SupersededAt lc of
                Some t \<Rightarrow>
                  if now \<ge> t
                  then \<lparr>CurrentStatus = EventStatusSuperseded, DateTime = t, PotentiallySuperseded = False\<rparr>
                  else live
              | None \<Rightarrow> live))"

section \<open>The state the server acts on\<close>

datatype State = Retired | Scheduled | InForce

definition IntervalEnd :: "window \<Rightarrow> int" where
  "IntervalEnd iv = End (Start iv) (Duration iv)"

definition IntervalEnded :: "window \<Rightarrow> int \<Rightarrow> bool" where
  "IntervalEnded iv now \<longleftrightarrow> now \<ge> IntervalEnd iv"

definition over :: "DERControl \<Rightarrow> int \<Rightarrow> bool" where
  "over c now = (case d_Interval c of None \<Rightarrow> True | Some iv \<Rightarrow> IntervalEnded iv now)"

definition ControlState :: "DERControl \<Rightarrow> LifecycleRecord \<Rightarrow> bool \<Rightarrow> int \<Rightarrow> State" where
  "ControlState c lc haveLC now =
     (if over c now then Retired
      else if \<not> haveLC \<and> (case d_EventStatus c of None \<Rightarrow> False | Some es \<Rightarrow> CurrentStatus es \<ge> EventStatusCancelled)
      then Retired
      else (let st = CurrentStatus (DeriveStatus now (d_CreationTime c) (Start (the (d_Interval c))) lc)
            in if st = EventStatusScheduled then Scheduled
               else if st = EventStatusActive then InForce
               else Retired))"

type_synonym 's lc_get = "string \<Rightarrow> string \<Rightarrow> (err, 's, LifecycleRecord) io"

definition stateOf :: "'s lc_get \<Rightarrow> string \<Rightarrow> DERControl \<Rightarrow> int \<Rightarrow> (err, 's, State) io" where
  "stateOf lifecycles scopeKey c now =
     (if over c now then io_return Retired
      else io_try (lifecycles scopeKey (controlIDOf (d_Href c))) (\<lambda>r.
        case r of
          Inr lc \<Rightarrow> io_return (ControlState c lc True now)
        | Inl e \<Rightarrow>
            if err_is e ErrNotFound then io_return (ControlState c zero_lifecycle False now)
            else io_fail (Errorf ''dercontrol: load lifecycle'' [e])))"

section \<open>Walking a device's controls\<close>

text \<open>
  \<open>eachDeviceState\<close> with its callback as a fold: \<open>f\<close> returns the new accumulator and whether
  to go on.
\<close>

fun states_of_items ::
    "'s lc_get \<Rightarrow> string \<Rightarrow> int \<Rightarrow> (State \<Rightarrow> 'x \<Rightarrow> 'x \<times> bool) \<Rightarrow> DERControl list \<Rightarrow> 'x \<Rightarrow> (err, 's, 'x \<times> bool) io" where
  "states_of_items lcs key now f [] x = io_return (x, True)"
| "states_of_items lcs key now f (c # cs) x =
     io_bind (stateOf lcs key c now) (\<lambda>st.
       case f st x of
         (y, True) \<Rightarrow> states_of_items lcs key now f cs y
       | (y, False) \<Rightarrow> io_return (y, False))"

fun states_of_keys ::
    "(string \<Rightarrow> ListOptions \<Rightarrow> (err, 's, DERControl ListResult) io) \<Rightarrow> 's lc_get \<Rightarrow> string \<Rightarrow> int \<Rightarrow>
     (State \<Rightarrow> 'x \<Rightarrow> 'x \<times> bool) \<Rightarrow> string list \<Rightarrow> 'x \<Rightarrow> (err, 's, 'x) io" where
  "states_of_keys lister lcs edevID now f [] x = io_return x"
| "states_of_keys lister lcs edevID now f (key # ks) x =
     (if (case SplitScopeKey key of None \<Rightarrow> True | Some (edev, _, _) \<Rightarrow> edev \<noteq> edevID)
      then states_of_keys lister lcs edevID now f ks x
      else io_bind (io_map_err (\<lambda>e. Errorf ''dercontrol: list scope'' [e]) (lister key unbounded_options)) (\<lambda>lst.
           io_bind (states_of_items lcs key now f (lr_Items lst) x) (\<lambda>(y, go).
             if go then states_of_keys lister lcs edevID now f ks y else io_return y)))"

definition eachDeviceState ::
    "(err, 's, string list) io \<Rightarrow> (string \<Rightarrow> ListOptions \<Rightarrow> (err, 's, DERControl ListResult) io) \<Rightarrow>
     's lc_get \<Rightarrow> string \<Rightarrow> int \<Rightarrow> (State \<Rightarrow> 'x \<Rightarrow> 'x \<times> bool) \<Rightarrow> 'x \<Rightarrow> (err, 's, 'x) io" where
  "eachDeviceState parents lister lcs edevID now f x =
     io_bind (io_map_err (\<lambda>e. Errorf ''dercontrol: list control scopes'' [e]) parents) (\<lambda>ks.
       states_of_keys lister lcs edevID now f ks x)"

definition InForceScopes ::
    "(err, 's, string list) io \<Rightarrow> (string \<Rightarrow> ListOptions \<Rightarrow> (err, 's, DERControl ListResult) io) \<Rightarrow>
     's lc_get \<Rightarrow> string \<Rightarrow> int \<Rightarrow> (err, 's, bool) io" where
  "InForceScopes parents lister lcs edevID now =
     eachDeviceState parents lister lcs edevID now (\<lambda>st _. (st = InForce, st \<noteq> InForce)) False"

definition LiveCount ::
    "(err, 's, string list) io \<Rightarrow> (string \<Rightarrow> ListOptions \<Rightarrow> (err, 's, DERControl ListResult) io) \<Rightarrow>
     's lc_get \<Rightarrow> string \<Rightarrow> int \<Rightarrow> (err, 's, nat) io" where
  "LiveCount parents lister lcs edevID now =
     eachDeviceState parents lister lcs edevID now (\<lambda>st n. (if st \<noteq> Retired then n + 1 else n, True)) 0"

section \<open>Deriving the status of a served item\<close>

record Event =
  ev_Interval :: "window option"
  ev_CreationTime :: int
  ev_EventStatus :: "EventStatus option"

text \<open>\<open>Event\<close> of the policy returns a pointer into the item: a reader and a writer here.\<close>

record 'a StatusPolicy =
  sp_Event :: "'a \<Rightarrow> Event"
  sp_SetEvent :: "Event \<Rightarrow> 'a \<Rightarrow> 'a"
  sp_ID :: "string \<Rightarrow> 'a \<Rightarrow> string option"
  sp_ServerAuthored :: bool
  sp_AlwaysPotentiallySuperseded :: bool

definition flagStored :: "'a StatusPolicy \<Rightarrow> Event \<Rightarrow> Event" where
  "flagStored pol ev =
     (case ev_EventStatus ev of
        None \<Rightarrow> ev
      | Some es \<Rightarrow>
          if \<not> sp_AlwaysPotentiallySuperseded pol then ev
          else ev\<lparr>ev_EventStatus := Some (es\<lparr>PotentiallySuperseded := True\<rparr>)\<rparr>)"

definition derived_event :: "'a StatusPolicy \<Rightarrow> int \<Rightarrow> LifecycleRecord \<Rightarrow> Event \<Rightarrow> Event" where
  "derived_event pol now lc ev =
     (let start = (case ev_Interval ev of None \<Rightarrow> 0 | Some iv \<Rightarrow> Start iv)
      in ev\<lparr>ev_EventStatus := Some ((DeriveStatus now (ev_CreationTime ev) start lc)
               \<lparr>PotentiallySuperseded := sp_AlwaysPotentiallySuperseded pol\<rparr>)\<rparr>)"

definition derive ::
    "'s lc_get \<Rightarrow> 'a StatusPolicy \<Rightarrow> int \<Rightarrow> string \<Rightarrow> string \<Rightarrow> 'a \<Rightarrow> (err, 's, 'a) io" where
  "derive lcs pol now parentID rid item =
     (let ev = sp_Event pol item
      in if ev_Interval ev = None \<and> \<not> sp_ServerAuthored pol
         then io_return (sp_SetEvent pol (flagStored pol ev) item)
         else io_try (lcs parentID rid) (\<lambda>r.
           case r of
             Inr lc \<Rightarrow> io_return (sp_SetEvent pol (derived_event pol now lc ev) item)
           | Inl e \<Rightarrow>
               if \<not> err_is e ErrNotFound
               then io_fail (Errorf ''dercontrol: loading lifecycle record'' [e])
               else if \<not> sp_ServerAuthored pol
               then io_return (sp_SetEvent pol (flagStored pol ev) item)
               else io_return (sp_SetEvent pol (derived_event pol now zero_lifecycle ev) item)))"

definition Derived_Get ::
    "(string \<Rightarrow> string \<Rightarrow> (err, 's, 'a) io) \<Rightarrow> 's lc_get \<Rightarrow> 'a StatusPolicy \<Rightarrow> int \<Rightarrow> string \<Rightarrow> string \<Rightarrow> (err, 's, 'a) io" where
  "Derived_Get getter lcs pol now parentID rid =
     io_bind (getter parentID rid) (derive lcs pol now parentID rid)"

fun derive_items :: "'s lc_get \<Rightarrow> 'a StatusPolicy \<Rightarrow> int \<Rightarrow> string \<Rightarrow> 'a list \<Rightarrow> (err, 's, 'a list) io" where
  "derive_items lcs pol now parentID [] = io_return []"
| "derive_items lcs pol now parentID (x # xs) =
     io_bind (case sp_ID pol parentID x of
                None \<Rightarrow> if sp_ServerAuthored pol
                        then io_fail (Errorf ''dercontrol: a member has no store id in its href'' [])
                        else io_return x
              | Some rid \<Rightarrow> derive lcs pol now parentID rid x)
       (\<lambda>y. io_bind (derive_items lcs pol now parentID xs) (\<lambda>ys. io_return (y # ys)))"

definition Derived_List ::
    "(string \<Rightarrow> ListOptions \<Rightarrow> (err, 's, 'a ListResult) io) \<Rightarrow> 's lc_get \<Rightarrow> 'a StatusPolicy \<Rightarrow> int \<Rightarrow>
     string \<Rightarrow> ListOptions \<Rightarrow> (err, 's, 'a ListResult) io" where
  "Derived_List lister lcs pol now parentID opts =
     io_bind (lister parentID opts) (\<lambda>result.
     io_bind (derive_items lcs pol now parentID (lr_Items result)) (\<lambda>items.
     io_return (result\<lparr>lr_Items := items\<rparr>)))"

section \<open>What the state means\<close>

definition control_covers :: "DERControl \<Rightarrow> int \<Rightarrow> bool" where
  "control_covers c t = (case d_Interval c of None \<Rightarrow> False | Some w \<Rightarrow> covers w t)"

text \<open>
  The three states partition the instants of an issued control: retired once it is cancelled,
  superseded as of now, without an interval or past its end; else in force from the later of
  its start and its creation time on; else scheduled.
\<close>

lemma ControlState_lc:
  "ControlState c lc True now =
     (if over c now \<or> cancelled lc \<or> supersededAsOf lc now then Retired
      else if now < max (Start (the (d_Interval c))) (d_CreationTime c) then Scheduled
      else InForce)"
  by (auto simp: ControlState_def DeriveStatus_def cancelled_def supersededAsOf_def Let_def split: option.splits)

lemma over_mono: "over c now \<Longrightarrow> now \<le> later \<Longrightarrow> over c later"
  by (auto simp: over_def IntervalEnded_def split: option.splits)

lemma over_by_seconds:
  assumes "d_Interval c = Some w" and "wf_window w"
  shows "over c now \<longleftrightarrow> Start w + uint (Duration w) \<le> now"
  using assms window_End_eq [of w]
  by (simp add: over_def IntervalEnded_def IntervalEnd_def window_End_def [symmetric])

lemma supersededAsOf_mono: "supersededAsOf lc now \<Longrightarrow> now \<le> later \<Longrightarrow> supersededAsOf lc later"
  by (auto simp: supersededAsOf_def split: option.splits)

lemma InForce_covers:
  assumes "ControlState c lc True now = InForce" and "\<forall>w. d_Interval c = Some w \<longrightarrow> wf_window w"
  shows "control_covers c now \<and> d_CreationTime c \<le> now \<and> \<not> cancelled lc \<and> \<not> supersededAsOf lc now"
  using assms
  by (auto simp: ControlState_lc over_def IntervalEnded_def IntervalEnd_def control_covers_def covers_def
      window_End_def [symmetric] split: if_splits option.splits)


section \<open>The walks count what the stores hold\<close>

text \<open>The two stores the walks read, as the control and the lifecycle collection.\<close>

type_synonym walk_state = "DERControl ScopedStore \<times> LifecycleRecord ScopedStore"

definition walk_parents :: "(err, walk_state, string list) io" where
  "walk_parents w = (Inr (Scoped_Parents (fst w)), w)"

definition walk_list :: "string \<Rightarrow> ListOptions \<Rightarrow> (err, walk_state, DERControl ListResult) io" where
  "walk_list p opts w = (Scoped_List (fst w) p opts, w)"

definition walk_get :: "walk_state lc_get" where
  "walk_get p i w = (Scoped_Get (snd w) p i, w)"

definition stored_state :: "walk_state \<Rightarrow> string \<Rightarrow> DERControl \<Rightarrow> int \<Rightarrow> State" where
  "stored_state w p c now =
     (case scoped_lookup (snd w) p (controlIDOf (d_Href c)) of
        None \<Rightarrow> ControlState c zero_lifecycle False now
      | Some lc \<Rightarrow> ControlState c lc True now)"

definition scope_of_device :: "string \<Rightarrow> string \<Rightarrow> bool" where
  "scope_of_device edev p = (case SplitScopeKey p of None \<Rightarrow> False | Some (e, _, _) \<Rightarrow> e = edev)"

definition scope_items :: "walk_state \<Rightarrow> string \<Rightarrow> DERControl list" where
  "scope_items w p = map (\<lambda>k. the (scoped_lookup (fst w) p k)) (keys (child (fst w) p))"

definition device_states :: "walk_state \<Rightarrow> string \<Rightarrow> int \<Rightarrow> State list" where
  "device_states w edev now =
     concat (map (\<lambda>p. map (\<lambda>c. stored_state w p c now) (scope_items w p))
       (filter (scope_of_device edev) (Scoped_Parents (fst w))))"

lemma stateOf_stored: "stateOf walk_get p c now w = (Inr (stored_state w p c now), w)"
proof (cases "over c now")
  case True
  then show ?thesis
    by (simp add: stateOf_def io_return_def stored_state_def ControlState_def split: option.splits)
next
  case False
  then show ?thesis
    by (simp add: stateOf_def io_try_def walk_get_def Scoped_Get_lookup stored_state_def io_return_def
        split: option.splits)
qed

definition small_scopes :: "walk_state \<Rightarrow> bool" where
  "small_scopes w \<longleftrightarrow> (\<forall>p. card (dom (scoped_lookup (fst w) p)) < 2 ^ 32)"

lemma walk_list_items:
  assumes "wf_scoped (fst w)" and "small_scopes w"
  shows "\<exists>r. walk_list p unbounded_options w = (Inr r, w) \<and> lr_Items r = scope_items w p"
proof (cases "stores (fst w) p")
  case None
  then show ?thesis
    by (simp add: walk_list_def Scoped_List_def parentStore_def validateListOptions_def
        ListOptions_Validate_def scope_items_def child_def NewStore_def)
next
  case (Some st)
  then have c: "child (fst w) p = st" by (simp add: child_def)
  have "wf_store st" using wf_child [OF assms(1), of p] c by simp
  moreover have "card (dom (data st)) < 2 ^ 32"
    using assms(2) data_child [of "fst w" p] c by (simp add: small_scopes_def)
  moreover have "data st k = scoped_lookup (fst w) p k" for k using data_child [of "fst w" p] c by simp
  ultimately show ?thesis
    by (simp add: walk_list_def Scoped_List_def parentStore_def Some Store_List_unbounded scope_items_def c)
qed

text \<open>A callback that never stops folds over all the states; the in-force one stops early.\<close>

fun scan :: "(State \<Rightarrow> 'x \<Rightarrow> 'x \<times> bool) \<Rightarrow> State list \<Rightarrow> 'x \<Rightarrow> 'x \<times> bool" where
  "scan f [] x = (x, True)"
| "scan f (s # ss) x = (case f s x of (y, True) \<Rightarrow> scan f ss y | (y, False) \<Rightarrow> (y, False))"

lemma scan_append: "scan f (xs @ ys) x = (case scan f xs x of (y, True) \<Rightarrow> scan f ys y | (y, False) \<Rightarrow> (y, False))"
  by (induction xs arbitrary: x) (auto split: prod.splits bool.splits)

lemma states_of_items_scan:
  "states_of_items walk_get p now f cs x w = (Inr (scan f (map (\<lambda>c. stored_state w p c now) cs) x), w)"
  by (induction cs arbitrary: x)
    (auto simp: io_bind_def io_return_def stateOf_stored split: prod.splits bool.splits)

lemma states_of_keys_scan:
  assumes "wf_scoped (fst w)" and "small_scopes w"
  shows "states_of_keys walk_list walk_get edev now f ks x w = (Inr (fst (scan f
     (concat (map (\<lambda>p. map (\<lambda>c. stored_state w p c now) (scope_items w p)) (filter (scope_of_device edev) ks))) x)), w)"
proof (induction ks arbitrary: x)
  case (Cons k ks)
  show ?case
  proof (cases "scope_of_device edev k")
    case False
    then show ?thesis
      using Cons by (auto simp: scope_of_device_def split: option.splits)
  next
    case True
    obtain r where r: "walk_list k unbounded_options w = (Inr r, w)" "lr_Items r = scope_items w k"
      using walk_list_items [OF assms] by blast
    have "\<not> (case SplitScopeKey k of None \<Rightarrow> True | Some (e, _, _) \<Rightarrow> e \<noteq> edev)"
      using True by (auto simp: scope_of_device_def split: option.splits)
    then show ?thesis
      using True r Cons
      by (auto simp: io_bind_def io_map_err_def io_return_def states_of_items_scan scan_append
          split: prod.splits bool.splits)
  qed
qed (simp add: io_return_def)

lemma scan_InForce: "fst (scan (\<lambda>st _. (st = InForce, st \<noteq> InForce)) ss False) \<longleftrightarrow> InForce \<in> set ss"
  by (induction ss) (auto split: bool.splits)

lemma scan_count:
  "fst (scan (\<lambda>st n. (if st \<noteq> Retired then n + 1 else n, True)) ss n) = n + length (filter (\<lambda>st. st \<noteq> Retired) ss)"
  by (induction ss arbitrary: n) auto

section \<open>Properties\<close>

text \<open>
  C16: the state of an issued control only moves forward: with its record unchanged, as time
  passes it goes from scheduled to in force to retired and never back, and it is in force
  only at seconds of its interval, from its creation time on, while neither cancelled nor
  superseded.
\<close>

fun state_rank :: "State \<Rightarrow> nat" where
  "state_rank Scheduled = 0" | "state_rank InForce = 1" | "state_rank Retired = 2"

theorem ControlState_moves_forward:
  assumes "\<forall>w. d_Interval c = Some w \<longrightarrow> wf_window w" and "now \<le> later"
  shows "state_rank (ControlState c lc True now) \<le> state_rank (ControlState c lc True later) \<and>
     (ControlState c lc True now = InForce \<longrightarrow>
        control_covers c now \<and> d_CreationTime c \<le> now \<and> \<not> cancelled lc \<and> \<not> supersededAsOf lc now)"
proof
  show "state_rank (ControlState c lc True now) \<le> state_rank (ControlState c lc True later)"
    using assms(2) over_mono [of c now later] supersededAsOf_mono [of lc now later]
    by (auto simp: ControlState_lc)
qed (use InForce_covers [OF _ assms(1)] in blast)

definition sample_derc :: DERControl where
  "sample_derc =
     \<lparr>d_MRID = ''0A'', d_Description = [], d_CreationTime = 90, d_Interval = Some \<lparr>Start = 100, Duration = 60\<rparr>,
      d_Href = ''/edev/7/fsa/1/derp/2/derc/9'', d_Base = None, d_EventStatus = None\<rparr>"

theorem ControlState_moves_forward_witness:
  "control_covers sample_derc 120 \<and>
   state_rank (ControlState sample_derc zero_lifecycle True 120)
     \<le> state_rank (ControlState sample_derc zero_lifecycle True 160)"
proof -
  have "\<forall>w. d_Interval sample_derc = Some w \<longrightarrow> wf_window w"
    by (simp add: sample_derc_def wf_window_def is_int64_def)
  moreover have "ControlState sample_derc zero_lifecycle True 120 = InForce" by code_simp
  ultimately show ?thesis using ControlState_moves_forward [of sample_derc 120 160 zero_lifecycle] by simp
qed

text \<open>
  C17: the state and the served status of a control with a lifecycle record, by the fields of
  the record and the seconds of its interval. The state is retired exactly when the interval
  has ended, or the record is cancelled, or its supersede mark is due; of the rest the control
  is scheduled before the later of its start and its creation and in force from then on. The
  served status reads cancelled exactly when the record is, superseded exactly when the mark
  is due and it is not cancelled, and scheduled or active by that same second otherwise, with
  no regard to the end of the interval: a control whose interval has ended is still served as
  scheduled or active although its state is retired, and this is the one case in which the two
  differ. An active or superseded status is never dated after now, and only a superseded one
  may be dated before the creation.
\<close>

theorem state_and_status_exact:
  assumes "d_Interval c = Some w" and "wf_window w"
  shows "let es = DeriveStatus now (d_CreationTime c) (Start w) lc;
             code = CurrentStatus es;
             st = ControlState c lc True now;
             ended = (Start w + uint (Duration w) \<le> now);
             begun = (Start w \<le> now \<and> d_CreationTime c \<le> now);
             withdrawn = (cancelled lc \<or> supersededAsOf lc now)
         in (st = Retired \<longleftrightarrow> ended \<or> withdrawn) \<and>
            (st = Scheduled \<longleftrightarrow> \<not> ended \<and> \<not> withdrawn \<and> \<not> begun) \<and>
            (st = InForce \<longleftrightarrow> \<not> ended \<and> \<not> withdrawn \<and> begun) \<and>
            (code = EventStatusCancelled \<longleftrightarrow> cancelled lc) \<and>
            (code = EventStatusSuperseded \<longleftrightarrow> \<not> cancelled lc \<and> supersededAsOf lc now) \<and>
            (code = EventStatusScheduled \<longleftrightarrow> \<not> withdrawn \<and> \<not> begun) \<and>
            (code = EventStatusActive \<longleftrightarrow> \<not> withdrawn \<and> begun) \<and>
            (st = Retired \<and> code \<in> {EventStatusScheduled, EventStatusActive} \<longleftrightarrow> ended \<and> \<not> withdrawn) \<and>
            (code \<in> {EventStatusActive, EventStatusSuperseded} \<longrightarrow> DateTime es \<le> now) \<and>
            (code \<noteq> EventStatusSuperseded \<longrightarrow> d_CreationTime c \<le> DateTime es)"
  using over_by_seconds [OF assms]
  by (auto simp: ControlState_lc assms(1) DeriveStatus_def cancelled_def supersededAsOf_def Let_def
      split: option.splits)

theorem state_and_status_exact_witness:
  "ControlState sample_derc zero_lifecycle True 200 = Retired \<and>
   CurrentStatus (DeriveStatus 200 (d_CreationTime sample_derc) 100 zero_lifecycle) = EventStatusActive"
  using state_and_status_exact [of sample_derc "\<lparr>Start = 100, Duration = 60\<rparr>" 200 zero_lifecycle]
  by (simp add: sample_derc_def wf_window_def is_int64_def Let_def cancelled_def supersededAsOf_def zero_lifecycle_def)

text \<open>
  C18: the walks over a device's scopes report exactly what the stores hold. \<open>InForceScopes\<close>
  is true exactly when some control stored under a scope of the device is in force, although
  it stops at the first one, and \<open>LiveCount\<close> counts every control that is not retired; both
  read only.
\<close>

theorem device_walks_exact:
  assumes "wf_scoped (fst w)" and "small_scopes w"
  shows "InForceScopes walk_parents walk_list walk_get edev now w
           = (Inr (InForce \<in> set (device_states w edev now)), w) \<and>
         LiveCount walk_parents walk_list walk_get edev now w
           = (Inr (length (filter (\<lambda>st. st \<noteq> Retired) (device_states w edev now))), w)"
  by (simp add: InForceScopes_def LiveCount_def eachDeviceState_def io_bind_def io_map_err_def
      walk_parents_def states_of_keys_scan [OF assms] scan_InForce scan_count device_states_def)

theorem device_walks_exact_witness:
  "LiveCount walk_parents walk_list walk_get ''7'' 120
     (\<lparr>stores = [''7/1/2'' \<mapsto> \<lparr>data = [''9'' \<mapsto> sample_derc], keys = [''9'']\<rparr>]\<rparr>, NewScopedStore)
   = (Inr 1, \<lparr>stores = [''7/1/2'' \<mapsto> \<lparr>data = [''9'' \<mapsto> sample_derc], keys = [''9'']\<rparr>]\<rparr>, NewScopedStore)"
proof -
  let ?c = "\<lparr>stores = [''7/1/2'' \<mapsto> \<lparr>data = [''9'' \<mapsto> sample_derc], keys = [''9'']\<rparr>]\<rparr>"
  let ?w = "(?c, NewScopedStore) :: walk_state"
  have "wf_scoped ?c" by (auto simp: wf_scoped_def wf_store_def)
  moreover have "dom (scoped_lookup ?c p) \<subseteq> {''9''}" for p
    by (auto simp: scoped_lookup_def split: if_splits)
  then have "card (dom (scoped_lookup ?c p)) \<le> 1" for p
    using card_mono [of "{''9''}" "dom (scoped_lookup ?c p)"] by simp
  then have "card (dom (scoped_lookup ?c p)) < 2 ^ 32" for p by (rule le_less_trans) simp
  then have "small_scopes ?w" by (simp add: small_scopes_def)
  moreover have "scope_of_device ''7'' ''7/1/2''" by code_simp
  moreover have "ControlState sample_derc zero_lifecycle False 120 = InForce" by code_simp
  ultimately show ?thesis
    using device_walks_exact [of ?w "''7''" 120]
    by (simp add: device_states_def Scoped_Parents_def scope_items_def child_def scoped_lookup_def
        stored_state_def NewScopedStore_def)
qed

end
