(* ===== verification/ControlStores.thy ===== *)
theory ControlStores
  imports PersistStore Lifecycle
begin

text \<open>
  The two stores the issuer writes: \<open>internal/dercontrol/lifecycle_persistence.go\<close> (the
  lifecycle records) and \<open>pkg/store/memory/dercontrol_persistence.go\<close> (the controls, with an
  index from mRID to key). Both follow the snapshot store, with two differences: the snapshot
  skips a key that is not found, and the rollback of a create deletes the record and leaves a
  parent the create established.
\<close>

section \<open>LifecycleStore\<close>

fun read_found ::
    "'a ScopedStore \<Rightarrow> (string \<times> string) list \<Rightarrow> err + (string \<times> string \<times> 'a) list" where
  "read_found i [] = Inr []"
| "read_found i ((p, rid) # ks) =
     (case Scoped_Get i p rid of
        Inl e \<Rightarrow> if err_is e ErrNotFound then read_found i ks else Inl (Errorf ''read for snapshot'' [e])
      | Inr v \<Rightarrow> (case read_found i ks of Inl e \<Rightarrow> Inl e | Inr rs \<Rightarrow> Inr ((p, rid, v) # rs)))"

definition L_persistLocked :: "(err, ('a, 'z) pstore_scheme, unit) io" where
  "L_persistLocked s =
     (if persistPath s = [] then (Inr (), s)
      else (case read_found (inner s) (snapshotKeys s) of
              Inl e \<Rightarrow> (Inl (Errorf ''persistence'' [e]), s)
            | Inr records \<Rightarrow> write_snapshot records s))"

definition L_Get :: "string \<Rightarrow> string \<Rightarrow> (err, ('a, 'z) pstore_scheme, 'a) io" where
  "L_Get parentID rid s = (Scoped_Get (inner s) parentID rid, s)"

definition L_List :: "string \<Rightarrow> ListOptions \<Rightarrow> (err, ('a, 'z) pstore_scheme, 'a ListResult) io" where
  "L_List parentID opts s = (Scoped_List (inner s) parentID opts, s)"

definition L_Parents :: "(err, ('a, 'z) pstore_scheme, string list) io" where
  "L_Parents s = (Inr (Scoped_Parents (inner s)), s)"

definition L_Create :: "string \<Rightarrow> string \<Rightarrow> 'a \<Rightarrow> (err, ('a, 'z) pstore_scheme, unit) io" where
  "L_Create parentID rid record s =
     (case on_inner (Scoped_Create parentID rid record) s of
        (Inl e, s1) \<Rightarrow> (Inl e, s1)
      | (Inr _, s1) \<Rightarrow>
          (case L_persistLocked (addKey parentID rid s1) of
             (Inr _, s2) \<Rightarrow> (Inr (), s2)
           | (Inl e, s2) \<Rightarrow>
               (case on_inner (Scoped_Delete parentID rid) s2 of
                  (Inl derr, s3) \<Rightarrow>
                    if err_is derr ErrNotFound then (Inl e, dropKey parentID rid s3)
                    else (Inl (Errorf ''join'' [e, Errorf ''rollback create'' [derr]]), s3)
                | (Inr _, s3) \<Rightarrow> (Inl e, dropKey parentID rid s3))))"

definition L_Update :: "string \<Rightarrow> string \<Rightarrow> 'a \<Rightarrow> (err, ('a, 'z) pstore_scheme, unit) io" where
  "L_Update parentID rid record s =
     (case Scoped_Get (inner s) parentID rid of
        Inl e \<Rightarrow> (Inl e, s)
      | Inr before \<Rightarrow>
          (case on_inner (Scoped_Update parentID rid record) s of
             (Inl e, s1) \<Rightarrow> (Inl e, s1)
           | (Inr _, s1) \<Rightarrow>
               (case L_persistLocked s1 of
                  (Inr _, s2) \<Rightarrow> (Inr (), s2)
                | (Inl e, s2) \<Rightarrow>
                    (case on_inner (Scoped_Update parentID rid before) s2 of
                       (Inl derr, s3) \<Rightarrow> (Inl (Errorf ''join'' [e, Errorf ''rollback update'' [derr]]), s3)
                     | (Inr _, s3) \<Rightarrow> (Inl e, s3)))))"

definition L_Delete :: "string \<Rightarrow> string \<Rightarrow> (err, ('a, 'z) pstore_scheme, unit) io" where
  "L_Delete parentID rid s =
     (case Scoped_Get (inner s) parentID rid of
        Inl e \<Rightarrow> (Inl e, s)
      | Inr before \<Rightarrow>
          (case on_inner (Scoped_Delete parentID rid) s of
             (Inl e, s1) \<Rightarrow> (Inl e, s1)
           | (Inr _, s1) \<Rightarrow>
               (case L_persistLocked (dropKey parentID rid s1) of
                  (Inr _, s2) \<Rightarrow> (Inr (), s2)
                | (Inl e, s2) \<Rightarrow>
                    (case on_inner (Scoped_Create parentID rid before) s2 of
                       (Inl derr, s3) \<Rightarrow> (Inl (Errorf ''join'' [e, Errorf ''rollback delete'' [derr]]), s3)
                     | (Inr _, s3) \<Rightarrow> (Inl e, addKey parentID rid s3)))))"

definition addKeys :: "string \<Rightarrow> string list \<Rightarrow> ('a, 'z) pstore_scheme \<Rightarrow> ('a, 'z) pstore_scheme" where
  "addKeys parentID ids s = foldl (\<lambda>t rid. addKey parentID rid t) s ids"

fun read_before ::
    "'a ScopedStore \<Rightarrow> string \<Rightarrow> string list \<Rightarrow> err + (string \<times> 'a) list" where
  "read_before i p [] = Inr []"
| "read_before i p (rid # rids) =
     (case Scoped_Get i p rid of
        Inl e \<Rightarrow> Inl (Errorf ''dercontrol lifecycle persistence: read before delete'' [e])
      | Inr v \<Rightarrow> (case read_before i p rids of Inl e \<Rightarrow> Inl e | Inr rs \<Rightarrow> Inr ((rid, v) # rs)))"

definition L_deleteParentLocked ::
    "string \<Rightarrow> (err, ('a, 'z) pstore_scheme, 32 word \<times> (string \<times> 'a) list) io" where
  "L_deleteParentLocked parentID s =
     (if \<not> Scoped_HasParent (inner s) parentID then (Inr (0, []), s)
      else
        (let ids = idsUnder s parentID
         in case read_before (inner s) parentID ids of
              Inl e \<Rightarrow> (Inl e, s)
            | Inr before \<Rightarrow>
                (case on_inner (Scoped_DeleteParent parentID) s of
                   (Inl e, s1) \<Rightarrow> (Inl e, s1)
                 | (Inr n, s1) \<Rightarrow>
                     (let s2 = s1\<lparr>pkeys := (pkeys s1)(parentID := None)\<rparr>
                      in case L_persistLocked s2 of
                           (Inr _, s3) \<Rightarrow> (Inr (n, before), s3)
                         | (Inl e, s3) \<Rightarrow>
                             (case restore_records parentID 0 before (snd (ForParent (inner s3) parentID)) of
                                (Some (rerr, k), i) \<Rightarrow>
                                  (Inl (Errorf ''join'' [e, Errorf ''rollback delete parent'' [rerr]]),
                                   addKeys parentID (take k ids) (s3\<lparr>inner := i\<rparr>))
                              | (None, i) \<Rightarrow> (Inl e, addKeys parentID ids (s3\<lparr>inner := i\<rparr>)))))))"

definition L_DeleteParent :: "string \<Rightarrow> (err, ('a, 'z) pstore_scheme, 32 word) io" where
  "L_DeleteParent parentID = io_bind (L_deleteParentLocked parentID) (\<lambda>(n, _). io_return n)"

fun L_undo_take :: "string \<Rightarrow> (string \<times> 'a) list \<Rightarrow> ('a, 'z) pstore_scheme \<Rightarrow> err list \<times> ('a, 'z) pstore_scheme" where
  "L_undo_take p [] s = ([], s)"
| "L_undo_take p ((rid, v) # rs) s =
     (case L_Create p rid v s of
        (Inr _, t) \<Rightarrow> L_undo_take p rs t
      | (Inl e, t) \<Rightarrow> (case L_undo_take p rs t of (es, u) \<Rightarrow> (Errorf ''lifecycle'' [e] # es, u)))"

definition L_TakeParent ::
    "string \<Rightarrow> (err, ('a, 'z) pstore_scheme, (('a, 'z) pstore_scheme \<Rightarrow> err list \<times> ('a, 'z) pstore_scheme) \<times> 32 word) io" where
  "L_TakeParent parentID =
     io_bind (L_deleteParentLocked parentID) (\<lambda>(n, before). io_return (L_undo_take parentID before, n))"

fun L_load_records :: "(string \<times> string \<times> 'a) list \<Rightarrow> (err, ('a, 'z) pstore_scheme, unit) io" where
  "L_load_records [] s = (Inr (), s)"
| "L_load_records ((p, rid, v) # rs) s =
     (case L_Create p rid v s of
        (Inl e, t) \<Rightarrow> (Inl (Errorf ''rehydrate'' [e]), t)
      | (Inr _, t) \<Rightarrow> L_load_records rs t)"

definition NewLifecycleStoreWithPersistence ::
    "string \<Rightarrow> (string \<times> string \<times> 'a) list \<Rightarrow> bool list \<Rightarrow> err + 'a pstore" where
  "NewLifecycleStoreWithPersistence path file script =
     (if path = [] then Inr (empty_pstore file script)
      else (case L_load_records file (empty_pstore file script) of
              (Inl e, _) \<Rightarrow> Inl (Errorf ''dercontrol lifecycle persistence: load'' [e])
            | (Inr _, s) \<Rightarrow> Inr (s\<lparr>persistPath := path\<rparr>)))"

section \<open>LifecycleStore: every method on both of its ways\<close>

lemma read_found_ok:
  "read_records i ks = Inr rs \<Longrightarrow> read_found i ks = Inr rs"
  by (induction i ks arbitrary: rs rule: read_records.induct) (auto split: sum.splits)

lemma read_before_ok:
  "read_records i (map (Pair p) ids) = Inr rs \<Longrightarrow> read_before i p ids = Inr (map snd rs)"
  by (induction ids arbitrary: rs) (auto split: sum.splits)

lemma L_persist_P: "indexed s \<Longrightarrow> L_persistLocked s = P_persistLocked s"
  by (simp add: L_persistLocked_def P_persistLocked_def read_found_ok [OF snapshot_indexed] snapshot_indexed)

lemma L_persist_inner [simp]:
  "wf_scoped i \<Longrightarrow> L_persistLocked (with_inner s i) = P_persistLocked (with_inner s i)"
  by (rule L_persist_P) simp

lemma L_Update_P:
  assumes "indexed s"
  shows "L_Update p rid v s = P_Update p rid v s"
proof (cases "scoped_lookup (inner s) p rid")
  case (Some before)
  have wf: "wf_scoped (updated (inner s) p rid v)" using assms by (simp add: indexed_def)
  from Some have "on_inner (Scoped_Update p rid v) s = (Inr (), with_inner s (updated (inner s) p rid v))"
    by (rule on_inner_updated [OF assms])
  then show ?thesis by (simp add: L_Update_def P_Update_def wf Scoped_Get_lookup Some)
qed (simp add: L_Update_def P_Update_def Scoped_Get_lookup)

lemma L_Delete_P:
  assumes "indexed s"
  shows "L_Delete p rid s = P_Delete p rid s"
proof (cases "scoped_lookup (inner s) p rid")
  case (Some before)
  have wf: "wf_scoped (inner s)" using assms by (simp add: indexed_def)
  from Some wf have "on_inner (Scoped_Delete p rid) s = (Inr (), s\<lparr>inner := deleted (inner s) p rid\<rparr>)"
    by (simp add: on_inner_eq Scoped_Delete_eq)
  then show ?thesis
    by (simp add: L_Delete_def P_Delete_def wf dropKey_deleted [OF assms Some] Scoped_Get_lookup Some)
qed (simp add: L_Delete_def P_Delete_def Scoped_Get_lookup)

lemma L_Create_eq:
  assumes "indexed s"
  shows "L_Create p rid v s =
     (if scoped_lookup (inner s) p rid \<noteq> None then (Inl ErrAlreadyExists, s)
      else if fails s then (Inl write_error, (next_write s)\<lparr>inner := set_child (inner s) p (child (inner s) p)\<rparr>)
      else (Inr (), flushed (with_inner s (created (inner s) p rid v))))"
proof (cases "scoped_lookup (inner s) p rid = None")
  case True
  let ?i = "created (inner s) p rid v"
  let ?undone = "set_child (inner s) p (child (inner s) p)"
  have wf0: "wf_scoped (inner s)" using assms by (simp add: indexed_def)
  then have wf: "wf_scoped ?i" by simp
  have fwd: "on_inner (Scoped_Create p rid v) s = (Inr (), s\<lparr>inner := ?i\<rparr>)"
    using True by (simp add: on_inner_eq Scoped_Create_eq)
  have "Scoped_Delete p rid ?i = (Inr (), ?undone)"
    using wf lookup_created [OF True, of v p rid] deleted_created [OF wf0 True, of v]
    by (simp add: Scoped_Delete_eq)
  then have del: "on_inner (Scoped_Delete p rid) (next_write (with_inner s ?i))
      = (Inr (), (next_write (with_inner s ?i))\<lparr>inner := ?undone\<rparr>)"
    by (simp add: on_inner_eq)
  show ?thesis
    using True fwd del P_persist_ok [OF wf, of s] P_persist_fails [OF wf, of s]
      P_rollback_create [OF assms True, where v = v and x = ?undone]
    by (cases "fails s") (auto simp: L_Create_def addKey_created [OF assms True] wf)
qed (simp add: L_Create_def on_inner_eq Scoped_Create_eq)


lemma addKey_last:
  assumes "idsUnder s p = ids" and "sorted_wrt (<) (ids @ [rid])"
  shows "addKey p rid s = s\<lparr>pkeys := (pkeys s)(p \<mapsto> ids @ [rid])\<rparr>"
proof -
  have s: "sorted_wrt (<) ids" "\<forall>k \<in> set ids. k < rid"
    using assms(2) by (auto simp: sorted_wrt_append)
  then have "takeWhile (\<lambda>k. k < rid) ids = ids" by (simp add: takeWhile_eq_all_conv)
  then have "BinarySearch ids rid = (length ids, False)"
    using BinarySearch_sorted [OF s(1), of rid] s(2) by (metis prod.collapse less_irrefl)
  then show ?thesis by (simp add: addKey_def assms(1) slice_insert_def)
qed

lemma addKeys_sorted:
  "idsUnder s p = done_ids \<Longrightarrow> sorted_wrt (<) (done_ids @ ids) \<Longrightarrow>
   addKeys p ids s = (if ids = [] then s else s\<lparr>pkeys := (pkeys s)(p \<mapsto> done_ids @ ids)\<rparr>)"
proof (induction ids arbitrary: s done_ids)
  case (Cons rid ids)
  let ?t = "s\<lparr>pkeys := (pkeys s)(p \<mapsto> done_ids @ [rid])\<rparr>"
  have a: "addKey p rid s = ?t"
    using Cons.prems by (intro addKey_last) (auto simp: sorted_wrt_append)
  have "addKeys p ids ?t = (if ids = [] then ?t else ?t\<lparr>pkeys := (pkeys ?t)(p \<mapsto> (done_ids @ [rid]) @ ids)\<rparr>)"
    using Cons.prems by (intro Cons.IH) (simp_all add: idsUnder_def)
  then show ?case using a by (simp add: addKeys_def)
qed (simp add: addKeys_def)

lemma L_deleteParentLocked_eq:
  assumes "indexed s"
  shows "L_deleteParentLocked p s = P_deleteParentLocked p s"
proof (cases "stores (inner s) p")
  case None
  then show ?thesis by (simp add: L_deleteParentLocked_def P_deleteParentLocked_def Scoped_HasParent_def)
next
  case (Some st)
  let ?i = "removed (inner s) p"
  have wf: "wf_scoped (inner s)" using assms by (simp add: indexed_def)
  have c: "child (inner s) p = st" using Some by (simp add: child_def)
  have ids: "idsUnder s p = keys st" using idsUnder_indexed [OF assms, of p] c by simp
  have recs: "read_records (inner s) (map (Pair p) (keys st)) = Inr (map (Pair p) (child_records st))"
    by (rule read_child [OF wf Some])
  note before = read_before_ok [OF recs]
  have w: "s\<lparr>inner := ?i, pkeys := (pkeys s)(p := None)\<rparr> = with_inner s ?i"
    using assms by (simp add: indexed_def index_of_removed)
  have del: "on_inner (Scoped_DeleteParent p) s = (Inr (Store_Count st), s\<lparr>inner := ?i\<rparr>)"
    using Some by (simp add: on_inner_eq Scoped_DeleteParent_def)
  have snd_map: "map snd (map (Pair p) xs) = xs" for xs :: "(string \<times> 'a) list" by (simp add: o_def)
  let ?s3 = "(next_write (with_inner s ?i))\<lparr>inner := inner s\<rparr>"
  have "idsUnder ?s3 p = []" by (simp add: idsUnder_def index_of_removed)
  moreover have "sorted_wrt (<) (keys st)" using wf_child [OF wf, of p] c by (simp add: wf_store_def)
  ultimately have "addKeys p (keys st) ?s3 = (if keys st = [] then ?s3 else ?s3\<lparr>pkeys := (pkeys ?s3)(p \<mapsto> keys st)\<rparr>)"
    using addKeys_sorted [of ?s3 p "[]" "keys st"] by simp
  then show ?thesis
    using Some del w restore_child [OF wf Some] P_persist_ok [OF wf_removed [OF wf], of s]
      P_persist_fails [OF wf_removed [OF wf], of s]
    by (cases "fails s")
      (auto simp: P_deleteParentLocked_def L_deleteParentLocked_def Scoped_HasParent_def ids recs before Let_def snd_map
        wf_removed [OF wf] simp del: map_map split: if_splits)
qed

text \<open>The lifecycle store keeps the contract of a scoped store.\<close>

lemma wf_set_child_same: "wf_scoped i \<Longrightarrow> wf_scoped (set_child i p (child i p))"
  by (simp add: wf_set_child)

lemma lookup_set_child_same [simp]: "scoped_lookup (set_child i p (child i p)) = scoped_lookup i"
  by (auto simp: fun_eq_iff scoped_lookup_set_child data_child)

lemma pinv_empty_parent:
  assumes "pinv s"
  shows "pinv ((next_write s)\<lparr>inner := set_child (inner s) p (child (inner s) p)\<rparr>)"
proof -
  have wf: "wf_scoped (inner s)" using assms by (simp add: pinv_def indexed_def)
  have "records_of (set_child (inner s) p (child (inner s) p)) = records_of (inner s)"
    by (rule records_of_cong(2) [OF wf_set_child_same [OF wf] wf]) simp
  then show ?thesis using assms wf_set_child_same [OF wf] by (simp add: pinv_def indexed_def)
qed

interpretation ls: rollback_store pabs pinv L_Get L_Create L_Delete L_Update
proof
  fix s :: "('a, 'z) pstore_scheme" and t p i v r
  assume inv: "pinv s"
  then have ix: "indexed s" and wf: "wf_scoped (inner s)" by (simp_all add: pinv_def indexed_def)
  show "L_Get p i s = (case pabs s p i of None \<Rightarrow> Inl ErrNotFound | Some v \<Rightarrow> Inr v, s)"
    by (simp add: L_Get_def Scoped_Get_lookup pabs_def)
  show "pinv t \<and> (case r of Inr _ \<Rightarrow> pabs s p i = None \<and> pabs t = upd2 (pabs s) p i (Some v)
      | Inl e \<Rightarrow> pabs t = pabs s)" if "L_Create p i v s = (r, t)"
    using that inv wf lookup_upd2(1) [of "inner s" p i v] pinv_flushed [OF wf_created [OF wf, of p i v], of s]
      pinv_empty_parent [OF inv, of p]
    by (auto simp: L_Create_eq [OF ix] pabs_def split: if_splits)
  show "pinv t \<and> (case r of Inr _ \<Rightarrow> pabs s p i \<noteq> None \<and> pabs t = upd2 (pabs s) p i (Some v)
      | Inl e \<Rightarrow> pabs t = pabs s \<and> (err_is e ErrNotFound \<longleftrightarrow> pabs s p i = None))" if "L_Update p i v s = (r, t)"
    using that ps.update_law [OF inv, of p i v r t] by (simp add: L_Update_P [OF ix])
  show "pinv t \<and> (case r of Inr _ \<Rightarrow> pabs s p i \<noteq> None \<and> pabs t = upd2 (pabs s) p i None
      | Inl e \<Rightarrow> pabs t = pabs s \<and> (err_is e ErrNotFound \<longleftrightarrow> pabs s p i = None))" if "L_Delete p i s = (r, t)"
    using that ps.delete_law [OF inv, of p i r t] by (simp add: L_Delete_P [OF ix])
qed


section \<open>DERControlStore\<close>

type_synonym derControlKey = "string \<times> string"
type_synonym mrid_index = "string \<rightharpoonup> derControlKey list"

record dercontrol_store = "DERControl pstore" +
  mrid :: mrid_index

definition mrid_keys :: "mrid_index \<Rightarrow> string \<Rightarrow> derControlKey list" where
  "mrid_keys ix m = (case ix m of None \<Rightarrow> [] | Some ks \<Rightarrow> ks)"

definition addMRID :: "string \<Rightarrow> derControlKey \<Rightarrow> mrid_index \<Rightarrow> mrid_index" where
  "addMRID m key ix =
     (if m = [] then ix
      else if key \<in> set (mrid_keys ix m) then ix
      else ix(m \<mapsto> mrid_keys ix m @ [key]))"

definition dropMRID :: "string \<Rightarrow> derControlKey \<Rightarrow> mrid_index \<Rightarrow> mrid_index" where
  "dropMRID m key ix =
     (if m = [] then ix
      else (let ks = filter (\<lambda>k. k \<noteq> key) (mrid_keys ix m)
            in if ks = [] then ix(m := None) else ix(m \<mapsto> ks)))"

definition mridConflict :: "mrid_index \<Rightarrow> string \<Rightarrow> derControlKey \<Rightarrow> derControlKey option" where
  "mridConflict ix m key =
     (if m = [] then None
      else find (\<lambda>owner. owner \<noteq> key \<and> (snd owner \<noteq> snd key \<or> fst owner = fst key)) (mrid_keys ix m))"

definition ByMRID :: "dercontrol_store \<Rightarrow> string \<Rightarrow> err + string \<times> string \<times> DERControl" where
  "ByMRID s m =
     (case mrid_keys (mrid s) m of
        [] \<Rightarrow> Inl ErrNotFound
      | [key] \<Rightarrow> (case Scoped_Get (inner s) (fst key) (snd key) of
                    Inl e \<Rightarrow> Inl e
                  | Inr control \<Rightarrow> Inr (fst key, snd key, control))
      | _ \<Rightarrow> Inl ErrMRIDShared)"

definition D_Get :: "string \<Rightarrow> string \<Rightarrow> (err, dercontrol_store, DERControl) io" where
  "D_Get parentID rid s = (Scoped_Get (inner s) parentID rid, s)"

definition D_List :: "string \<Rightarrow> ListOptions \<Rightarrow> (err, dercontrol_store, DERControl ListResult) io" where
  "D_List parentID opts s = (Scoped_List (inner s) parentID opts, s)"

definition D_Parents :: "(err, dercontrol_store, string list) io" where
  "D_Parents s = (Inr (Scoped_Parents (inner s)), s)"

definition D_Create :: "string \<Rightarrow> string \<Rightarrow> DERControl \<Rightarrow> (err, dercontrol_store, unit) io" where
  "D_Create parentID rid control s =
     (let key = (parentID, rid)
      in case mridConflict (mrid s) (d_MRID control) key of
           Some owner \<Rightarrow> (Inl (Errorf ''owned by'' [ErrMRIDConflict]), s)
         | None \<Rightarrow>
             (case on_inner (Scoped_Create parentID rid control) s of
                (Inl e, s1) \<Rightarrow> (Inl e, s1)
              | (Inr _, s1) \<Rightarrow>
                  (let s2 = addKey parentID rid s1;
                       s3 = s2\<lparr>mrid := addMRID (d_MRID control) key (mrid s2)\<rparr>
                   in case L_persistLocked s3 of
                        (Inr _, s4) \<Rightarrow> (Inr (), s4)
                      | (Inl e, s4) \<Rightarrow>
                          (case on_inner (Scoped_Delete parentID rid) s4 of
                             (Inl derr, s5) \<Rightarrow>
                               if err_is derr ErrNotFound
                               then (let s6 = dropKey parentID rid s5
                                     in (Inl e, s6\<lparr>mrid := dropMRID (d_MRID control) key (mrid s6)\<rparr>))
                               else (Inl (Errorf ''join'' [e, Errorf ''rollback create'' [derr]]), s5)
                           | (Inr _, s5) \<Rightarrow>
                               (let s6 = dropKey parentID rid s5
                                in (Inl e, s6\<lparr>mrid := dropMRID (d_MRID control) key (mrid s6)\<rparr>))))))"

definition D_Update :: "string \<Rightarrow> string \<Rightarrow> DERControl \<Rightarrow> (err, dercontrol_store, unit) io" where
  "D_Update parentID rid control s =
     (let key = (parentID, rid)
      in case mridConflict (mrid s) (d_MRID control) key of
           Some owner \<Rightarrow> (Inl (Errorf ''owned by'' [ErrMRIDConflict]), s)
         | None \<Rightarrow>
             (case Scoped_Get (inner s) parentID rid of
                Inl e \<Rightarrow> (Inl e, s)
              | Inr before \<Rightarrow>
                  (case on_inner (Scoped_Update parentID rid control) s of
                     (Inl e, s1) \<Rightarrow> (Inl e, s1)
                   | (Inr _, s1) \<Rightarrow>
                       (let s2 = (if d_MRID before \<noteq> d_MRID control
                                  then s1\<lparr>mrid := addMRID (d_MRID control) key (dropMRID (d_MRID before) key (mrid s1))\<rparr>
                                  else s1)
                        in case L_persistLocked s2 of
                             (Inr _, s3) \<Rightarrow> (Inr (), s3)
                           | (Inl e, s3) \<Rightarrow>
                               (case on_inner (Scoped_Update parentID rid before) s3 of
                                  (Inl derr, s4) \<Rightarrow> (Inl (Errorf ''join'' [e, Errorf ''rollback update'' [derr]]), s4)
                                | (Inr _, s4) \<Rightarrow>
                                    (Inl e,
                                     if d_MRID before \<noteq> d_MRID control
                                     then s4\<lparr>mrid := addMRID (d_MRID before) key (dropMRID (d_MRID control) key (mrid s4))\<rparr>
                                     else s4))))))"

definition D_Delete :: "string \<Rightarrow> string \<Rightarrow> (err, dercontrol_store, unit) io" where
  "D_Delete parentID rid s =
     (let key = (parentID, rid)
      in case Scoped_Get (inner s) parentID rid of
           Inl e \<Rightarrow> (Inl e, s)
         | Inr before \<Rightarrow>
             (case on_inner (Scoped_Delete parentID rid) s of
                (Inl e, s1) \<Rightarrow> (Inl e, s1)
              | (Inr _, s1) \<Rightarrow>
                  (let s2 = dropKey parentID rid s1;
                       s3 = s2\<lparr>mrid := dropMRID (d_MRID before) key (mrid s2)\<rparr>
                   in case L_persistLocked s3 of
                        (Inr _, s4) \<Rightarrow> (Inr (), s4)
                      | (Inl e, s4) \<Rightarrow>
                          (case on_inner (Scoped_Create parentID rid before) s4 of
                             (Inl derr, s5) \<Rightarrow> (Inl (Errorf ''join'' [e, Errorf ''rollback delete'' [derr]]), s5)
                           | (Inr _, s5) \<Rightarrow>
                               (let s6 = addKey parentID rid s5
                                in (Inl e, s6\<lparr>mrid := addMRID (d_MRID before) key (mrid s6)\<rparr>))))))"

fun D_load_records :: "(string \<times> string \<times> DERControl) list \<Rightarrow> (err, dercontrol_store, unit) io" where
  "D_load_records [] s = (Inr (), s)"
| "D_load_records ((p, rid, v) # rs) s =
     (case D_Create p rid v s of
        (Inl e, t) \<Rightarrow> (Inl (Errorf ''rehydrate'' [e]), t)
      | (Inr _, t) \<Rightarrow> D_load_records rs t)"

definition NewDERControlStore :: "(string \<times> string \<times> DERControl) list \<Rightarrow> bool list \<Rightarrow> dercontrol_store" where
  "NewDERControlStore file script =
     \<lparr>inner = NewScopedStore, pkeys = Map.empty, persistPath = [], disk = file, faults = script, mrid = Map.empty\<rparr>"

definition NewDERControlStoreWithPersistence ::
    "string \<Rightarrow> (string \<times> string \<times> DERControl) list \<Rightarrow> bool list \<Rightarrow> err + dercontrol_store" where
  "NewDERControlStoreWithPersistence path file script =
     (if path = [] then Inr (NewDERControlStore file script)
      else (case D_load_records file (NewDERControlStore file script) of
              (Inl e, _) \<Rightarrow> Inl (Errorf ''dercontrol persistence: load'' [e])
            | (Inr _, s) \<Rightarrow> Inr (s\<lparr>persistPath := path\<rparr>)))"

section \<open>DERControlStore: the mRID index\<close>

text \<open>
  The index names, for every non-blank mRID, exactly the keys of the controls that carry it,
  and those are copies of one control: the same id under different parents.
\<close>

definition mrid_ok :: "(string \<Rightarrow> string \<Rightarrow> DERControl option) \<Rightarrow> mrid_index \<Rightarrow> bool" where
  "mrid_ok M ix \<longleftrightarrow> ix [] = None \<and>
     (\<forall>m. distinct (mrid_keys ix m)) \<and>
     (\<forall>m p i. m \<noteq> [] \<longrightarrow>
        ((p, i) \<in> set (mrid_keys ix m) \<longleftrightarrow> (\<exists>c. M p i = Some c \<and> d_MRID c = m)))"

definition share_ok :: "(string \<Rightarrow> string \<Rightarrow> DERControl option) \<Rightarrow> bool" where
  "share_ok M \<longleftrightarrow>
     (\<forall>p i c q j d. M p i = Some c \<and> M q j = Some d \<and> d_MRID c = d_MRID d \<and> d_MRID c \<noteq> [] \<longrightarrow> i = j)"

definition dinv :: "dercontrol_store \<Rightarrow> bool" where
  "dinv s \<longleftrightarrow> pinv s \<and> mrid_ok (pabs s) (mrid s) \<and> share_ok (pabs s)"

lemma set_addMRID:
  "set (mrid_keys (addMRID m k ix) n) = (if n = m \<and> m \<noteq> [] then insert k (set (mrid_keys ix n)) else set (mrid_keys ix n))"
  by (auto simp: addMRID_def mrid_keys_def)

lemma set_dropMRID:
  "set (mrid_keys (dropMRID m k ix) n) = (if n = m \<and> m \<noteq> [] then set (mrid_keys ix n) - {k} else set (mrid_keys ix n))"
  by (auto simp: dropMRID_def mrid_keys_def Let_def filter_empty_conv)

lemma distinct_addMRID: "distinct (mrid_keys ix n) \<Longrightarrow> distinct (mrid_keys (addMRID m k ix) n)"
  by (auto simp: addMRID_def mrid_keys_def)

lemma distinct_dropMRID: "distinct (mrid_keys ix n) \<Longrightarrow> distinct (mrid_keys (dropMRID m k ix) n)"
  by (auto simp: dropMRID_def mrid_keys_def Let_def)

lemma MRID_blank [simp]: "addMRID m k ix [] = ix []" "dropMRID m k ix [] = ix []"
  by (auto simp: addMRID_def dropMRID_def Let_def)

lemma mrid_ok_add:
  "mrid_ok M ix \<Longrightarrow> M p i = None \<Longrightarrow> mrid_ok (upd2 M p i (Some c)) (addMRID (d_MRID c) (p, i) ix)"
  by (auto simp: mrid_ok_def set_addMRID distinct_addMRID upd2_apply)

lemma mrid_ok_drop:
  "mrid_ok M ix \<Longrightarrow> M p i = Some b \<Longrightarrow> mrid_ok (upd2 M p i None) (dropMRID (d_MRID b) (p, i) ix)"
  by (auto simp: mrid_ok_def set_dropMRID distinct_dropMRID upd2_apply)

lemma mridConflict_None:
  assumes "mrid_ok M ix" and "mridConflict ix m (p, i) = None" and "m \<noteq> []"
    and "M q j = Some d" and "d_MRID d = m"
  shows "i = j"
proof -
  have "(q, j) \<in> set (mrid_keys ix m)" using assms(1,3-5) by (auto simp: mrid_ok_def)
  with assms(2,3) show ?thesis by (auto simp: mridConflict_def find_None_iff)
qed

lemma share_okD:
  "share_ok M \<Longrightarrow> M p i = Some c \<Longrightarrow> M q j = Some d \<Longrightarrow> d_MRID c = d_MRID d \<Longrightarrow> d_MRID c \<noteq> [] \<Longrightarrow> i = j"
  unfolding share_ok_def by blast

lemma share_okI:
  "(\<And>p i c q j d. M p i = Some c \<Longrightarrow> M q j = Some d \<Longrightarrow> d_MRID c = d_MRID d \<Longrightarrow> d_MRID c \<noteq> [] \<Longrightarrow> i = j) \<Longrightarrow> share_ok M"
  unfolding share_ok_def by blast

lemma share_ok_put:
  assumes "share_ok M" and "mrid_ok M ix" and "mridConflict ix (d_MRID c) (p, i) = None"
  shows "share_ok (upd2 M p i (Some c))"
proof (rule share_okI)
  fix q j d r k e
  assume d: "upd2 M p i (Some c) q j = Some d" and e: "upd2 M p i (Some c) r k = Some e"
    and m: "d_MRID d = d_MRID e" "d_MRID d \<noteq> []"
  note other = mridConflict_None [OF assms(2,3)]
  show "j = k"
  proof (cases "q = p \<and> j = i")
    case q: True
    then have dc: "d = c" using d by (auto simp: upd2_apply split: if_splits)
    show ?thesis
    proof (cases "r = p \<and> k = i")
      case False
      then have me: "M r k = Some e" using e by (auto simp: upd2_apply split: if_splits)
      have "d_MRID c \<noteq> []" "d_MRID e = d_MRID c" using m unfolding dc by auto
      from other [OF this(1) me this(2)] q show ?thesis by blast
    qed (use q in simp)
  next
    case q: False
    then have md: "M q j = Some d" using d by (auto simp: upd2_apply split: if_splits)
    show ?thesis
    proof (cases "r = p \<and> k = i")
      case True
      then have ec: "e = c" using e by (auto simp: upd2_apply split: if_splits)
      have "d_MRID c \<noteq> []" "d_MRID d = d_MRID c" using m unfolding ec by auto
      from other [OF this(1) md this(2)] True show ?thesis by blast
    next
      case False
      then have "M r k = Some e" using e by (auto simp: upd2_apply split: if_splits)
      with share_okD [OF assms(1) md] m show ?thesis by blast
    qed
  qed
qed

lemma share_ok_drop: "share_ok M \<Longrightarrow> share_ok (upd2 M p i None)"
  by (rule share_okI) (auto simp: upd2_apply split: if_splits dest: share_okD)

section \<open>DERControlStore: every method on both of its ways\<close>

lemma indexed_mrid [simp]: "indexed (s\<lparr>mrid := ix\<rparr>) = indexed s"
  by (simp add: indexed_def)

lemma mrid_addKey [simp]: "mrid (addKey p rid s) = mrid s"
  by (auto simp: addKey_def Let_def split: prod.splits)

lemma mrid_dropKey [simp]: "mrid (dropKey p rid s) = mrid s"
  by (auto simp: dropKey_def Let_def split: prod.splits)

lemma D_Create_eq:
  assumes "indexed s"
  shows "D_Create p rid c s =
     (if mridConflict (mrid s) (d_MRID c) (p, rid) \<noteq> None then (Inl (Errorf ''owned by'' [ErrMRIDConflict]), s)
      else if pabs s p rid \<noteq> None then (Inl ErrAlreadyExists, s)
      else (let ix = addMRID (d_MRID c) (p, rid) (mrid s)
            in if fails s
               then (Inl write_error,
                     (next_write s)\<lparr>inner := set_child (inner s) p (child (inner s) p),
                                     mrid := dropMRID (d_MRID c) (p, rid) ix\<rparr>)
               else (Inr (), flushed (with_inner (s\<lparr>mrid := ix\<rparr>) (created (inner s) p rid c)))))"
proof (cases "mridConflict (mrid s) (d_MRID c) (p, rid) = None \<and> pabs s p rid = None")
  case False
  then show ?thesis
    by (cases "mridConflict (mrid s) (d_MRID c) (p, rid)")
      (auto simp: D_Create_def on_inner_eq Scoped_Create_eq pabs_def)
next
  case True
  define t where "t = s\<lparr>mrid := addMRID (d_MRID c) (p, rid) (mrid s)\<rparr>"
  let ?i = "created (inner s) p rid c"
  let ?undone = "set_child (inner s) p (child (inner s) p)"
  have t: "indexed t" "inner t = inner s" "faults t = faults s" "persistPath t = persistPath s"
    using assms by (simp_all add: t_def)
  have none: "scoped_lookup (inner s) p rid = None" using True by (simp add: pabs_def)
  have wf0: "wf_scoped (inner s)" using assms by (simp add: indexed_def)
  then have wf: "wf_scoped ?i" by simp
  have add: "(addKey p rid (s\<lparr>inner := ?i\<rparr>))\<lparr>mrid := addMRID (d_MRID c) (p, rid) (mrid s)\<rparr> = with_inner t ?i"
    by (simp add: addKey_created [OF assms none] t_def)
  have del: "Scoped_Delete p rid ?i = (Inr (), ?undone)"
    using wf lookup_created [OF none, of c p rid] deleted_created [OF wf0 none, of c]
    by (simp add: Scoped_Delete_eq)
  have rb: "dropKey p rid ((next_write (with_inner t ?i))\<lparr>inner := ?undone\<rparr>) = (next_write t)\<lparr>inner := ?undone\<rparr>"
    using P_rollback_create [OF t(1), of p rid, where v = c and x = ?undone] none by (simp add: t(2))
  have fwd: "D_Create p rid c s =
      (case P_persistLocked (with_inner t ?i) of
         (Inr _, s4) \<Rightarrow> (Inr (), s4)
       | (Inl e, s4) \<Rightarrow>
           (case on_inner (Scoped_Delete p rid) s4 of
              (Inl derr, s5) \<Rightarrow>
                if err_is derr ErrNotFound
                then (let s6 = dropKey p rid s5 in (Inl e, s6\<lparr>mrid := dropMRID (d_MRID c) (p, rid) (mrid s6)\<rparr>))
                else (Inl (Errorf ''join'' [e, Errorf ''rollback create'' [derr]]), s5)
            | (Inr _, s5) \<Rightarrow> (let s6 = dropKey p rid s5 in (Inl e, s6\<lparr>mrid := dropMRID (d_MRID c) (p, rid) (mrid s6)\<rparr>))))"
    using True none add wf by (simp add: D_Create_def on_inner_eq [of _ s] Scoped_Create_eq pabs_def Let_def)
  show ?thesis
  proof (cases "fails t")
    case f: False
    then show ?thesis
      using True t(3,4) by (auto simp: fwd P_persist_ok [OF wf f] Let_def t_def [symmetric])
  next
    case f: True
    have "mrid ((next_write (with_inner t ?i))\<lparr>inner := ?undone\<rparr>) = addMRID (d_MRID c) (p, rid) (mrid s)"
      by (simp add: t_def)
    moreover have "fails s" using f t by simp
    ultimately show ?thesis
      using True rb by (simp add: fwd P_persist_fails [OF wf f] on_inner_eq del Let_def) (simp add: t_def)
  qed
qed


text \<open>The index after an update, and after the update was rolled back.\<close>

definition moved :: "string \<Rightarrow> string \<Rightarrow> derControlKey \<Rightarrow> mrid_index \<Rightarrow> mrid_index" where
  "moved old new key ix = (if old \<noteq> new then addMRID new key (dropMRID old key ix) else ix)"

lemma D_Update_eq:
  assumes "indexed s"
  shows "D_Update p rid c s =
     (if mridConflict (mrid s) (d_MRID c) (p, rid) \<noteq> None then (Inl (Errorf ''owned by'' [ErrMRIDConflict]), s)
      else (case pabs s p rid of
              None \<Rightarrow> (Inl ErrNotFound, s)
            | Some b \<Rightarrow>
                (let ix = moved (d_MRID b) (d_MRID c) (p, rid) (mrid s)
                 in if fails s
                    then (Inl write_error, (next_write s)\<lparr>mrid := moved (d_MRID c) (d_MRID b) (p, rid) ix\<rparr>)
                    else (Inr (), flushed (with_inner (s\<lparr>mrid := ix\<rparr>) (updated (inner s) p rid c))))))"
proof (cases "mridConflict (mrid s) (d_MRID c) (p, rid) = None \<and> pabs s p rid \<noteq> None")
  case False
  then show ?thesis
    by (cases "mridConflict (mrid s) (d_MRID c) (p, rid)") (auto simp: D_Update_def Scoped_Get_lookup pabs_def)
next
  case True
  then obtain b where b: "scoped_lookup (inner s) p rid = Some b" by (auto simp: pabs_def)
  define t where "t = s\<lparr>mrid := moved (d_MRID b) (d_MRID c) (p, rid) (mrid s)\<rparr>"
  let ?i = "updated (inner s) p rid c"
  have t: "faults t = faults s" "persistPath t = persistPath s" by (simp_all add: t_def)
  have wf: "wf_scoped ?i" using assms by (simp add: indexed_def)
  have fwd: "on_inner (Scoped_Update p rid c) s = (Inr (), with_inner s ?i)"
    by (rule on_inner_updated [OF assms b])
  have m: "(if d_MRID b \<noteq> d_MRID c
      then (with_inner s ?i)\<lparr>mrid := addMRID (d_MRID c) (p, rid) (dropMRID (d_MRID b) (p, rid) (mrid (with_inner s ?i)))\<rparr>
      else with_inner s ?i) = with_inner t ?i"
    by (simp add: t_def moved_def)
  have idx: "index_of ?i = index_of (inner s)" by (auto simp: index_of_def fun_eq_iff Store_Update_def)
  have "Scoped_Update p rid b ?i = (Inr (), inner s)"
    using updated_updated [OF b, of c] lookup_updated [of "inner s" p rid c p rid] b
    by (simp add: Scoped_Update_eq)
  then have undo: "on_inner (Scoped_Update p rid b) ((with_inner t ?i)\<lparr>faults := tl (faults t)\<rparr>) = (Inr (), next_write t)"
    using assms idx by (simp add: on_inner_eq t_def indexed_def)
  show ?thesis
  proof (cases "fails t")
    case f: False
    then show ?thesis
      using True t b m P_persist_ok [OF wf f]
      by (auto simp: D_Update_def Scoped_Get_lookup fwd pabs_def wf Let_def t_def [symmetric])
  next
    case f: True
    have "fails s" using f t by simp
    then show ?thesis
      using True b m
      by (simp add: D_Update_def Scoped_Get_lookup fwd pabs_def wf P_persist_fails [OF wf f] undo Let_def)
        (auto simp: t_def moved_def)
  qed
qed

lemma D_Delete_eq:
  assumes "indexed s"
  shows "D_Delete p rid s =
     (case pabs s p rid of
        None \<Rightarrow> (Inl ErrNotFound, s)
      | Some b \<Rightarrow>
          (let ix = dropMRID (d_MRID b) (p, rid) (mrid s)
           in if fails s
              then (Inl write_error, (next_write s)\<lparr>mrid := addMRID (d_MRID b) (p, rid) ix\<rparr>)
              else (Inr (), flushed (with_inner (s\<lparr>mrid := ix\<rparr>) (deleted (inner s) p rid)))))"
proof (cases "scoped_lookup (inner s) p rid")
  case None
  then show ?thesis by (simp add: D_Delete_def Scoped_Get_lookup pabs_def)
next
  case (Some b)
  define t where "t = s\<lparr>mrid := dropMRID (d_MRID b) (p, rid) (mrid s)\<rparr>"
  let ?i = "deleted (inner s) p rid"
  have t: "indexed t" "inner t = inner s" "faults t = faults s" "persistPath t = persistPath s"
    using assms by (simp_all add: t_def)
  have wf0: "wf_scoped (inner s)" using assms by (simp add: indexed_def)
  then have wf: "wf_scoped ?i" by simp
  have fwd: "on_inner (Scoped_Delete p rid) s = (Inr (), s\<lparr>inner := ?i\<rparr>)"
    using Some wf0 by (simp add: on_inner_eq Scoped_Delete_eq)
  have drop: "(dropKey p rid (s\<lparr>inner := ?i\<rparr>))\<lparr>mrid := dropMRID (d_MRID b) (p, rid) (mrid s)\<rparr> = with_inner t ?i"
    by (simp add: dropKey_deleted [OF assms Some] t_def)
  let ?s2 = "(with_inner t ?i)\<lparr>faults := tl (faults t)\<rparr>"
  have gone: "scoped_lookup ?i p rid = None" using lookup_deleted [OF wf0, of p rid] Some by simp
  have cr: "created ?i p rid b = inner s" by (rule created_deleted [OF wf0 Some])
  have "indexed ?s2" using wf by (simp add: indexed_def)
  from addKey_created [OF this, of p rid b] gone cr
  have add: "addKey p rid (?s2\<lparr>inner := inner s\<rparr>) = next_write t"
    using t(1,2) by (simp add: indexed_def)
  have undo: "on_inner (Scoped_Create p rid b) ?s2 = (Inr (), ?s2\<lparr>inner := inner s\<rparr>)"
    using gone cr by (simp add: on_inner_eq Scoped_Create_eq)
  show ?thesis
  proof (cases "fails t")
    case f: False
    then show ?thesis
      using t Some drop P_persist_ok [OF wf f]
      by (auto simp: D_Delete_def Scoped_Get_lookup fwd pabs_def wf Let_def t_def [symmetric])
  next
    case f: True
    have "fails s" using f t by simp
    then show ?thesis
      using Some drop add
      by (simp add: D_Delete_def Scoped_Get_lookup fwd pabs_def wf P_persist_fails [OF wf f] undo Let_def)
        (simp add: t_def)
  qed
qed


lemma mrid_ok_moved:
  assumes "mrid_ok M ix" and "M p i = Some b"
  shows "mrid_ok (upd2 M p i (Some c)) (moved (d_MRID b) (d_MRID c) (p, i) ix)"
proof (cases "d_MRID b = d_MRID c")
  case True
  with assms show ?thesis by (auto simp: moved_def mrid_ok_def upd2_apply)
next
  case False
  have "mrid_ok (upd2 M p i None) (dropMRID (d_MRID b) (p, i) ix)" by (rule mrid_ok_drop [OF assms])
  from mrid_ok_add [OF this, of p i c] False show ?thesis by (simp add: moved_def upd2_apply)
qed

lemma pabs_mrid [simp]: "pabs (s\<lparr>mrid := ix\<rparr>) = pabs s"
  by (simp add: pabs_def)

lemma mrid_flushed [simp]: "mrid (flushed s) = mrid s"
  by (simp add: flushed_def)

lemma pinv_mrid [simp]: "pinv (s\<lparr>mrid := ix\<rparr>) = pinv s"
  by (simp add: pinv_def indexed_def)

text \<open>
  The part of the invariant that does not speak of the file: it holds of a store as soon as
  its file is loaded, in whatever order the file lists the records.
\<close>

definition keyed :: "dercontrol_store \<Rightarrow> bool" where
  "keyed s \<longleftrightarrow> indexed s \<and> mrid_ok (pabs s) (mrid s) \<and> share_ok (pabs s)"

lemma dinv_keyed: "dinv s \<longleftrightarrow> pinv s \<and> keyed s"
  by (auto simp: dinv_def keyed_def pinv_def)

lemma D_Create_keyed:
  assumes "keyed s" and "D_Create p i c s = (r, t)"
  shows "keyed t \<and> (case r of Inr _ \<Rightarrow> pabs s p i = None \<and> pabs t = upd2 (pabs s) p i (Some c)
      | Inl e \<Rightarrow> pabs t = pabs s)"
proof -
  have inv: "indexed s" "mrid_ok (pabs s) (mrid s)" "share_ok (pabs s)" using assms(1) by (auto simp: keyed_def)
  then have ix: "indexed s" and wf: "wf_scoped (inner s)" by (simp_all add: indexed_def)
  let ?ix = "addMRID (d_MRID c) (p, i) (mrid s)"
  consider (same) "t = s" "\<exists>e. r = Inl e"
    | (fail) "pabs s p i = None" "r = Inl write_error"
      "t = (next_write s)\<lparr>inner := set_child (inner s) p (child (inner s) p), mrid := dropMRID (d_MRID c) (p, i) ?ix\<rparr>"
    | (ok) "mridConflict (mrid s) (d_MRID c) (p, i) = None" "pabs s p i = None" "r = Inr ()"
      "t = flushed (with_inner (s\<lparr>mrid := ?ix\<rparr>) (created (inner s) p i c))"
    using assms(2) unfolding D_Create_eq [OF ix] Let_def by (fastforce split: if_split_asm)
  then show ?thesis
  proof cases
    case same
    then show ?thesis using assms(1) by auto
  next
    case fail
    have "pabs t = pabs s" by (simp add: fail(3) pabs_def)
    moreover have "indexed t" using wf_set_child_same [OF wf, of p] inv(1) by (simp add: fail(3) indexed_def)
    moreover have "mrid_ok (pabs s) (mrid t)"
      using mrid_ok_drop [OF mrid_ok_add [OF inv(2) fail(1), of c], of p i c] fail(1)
      by (simp add: fail(3) upd2_apply upd2_triv)
    ultimately show ?thesis using fail(2) inv(3) by (simp add: keyed_def)
  next
    case ok
    have t: "pabs t = upd2 (pabs s) p i (Some c)" "mrid t = ?ix"
      using ok(2) lookup_upd2(1) [of "inner s" p i c] by (simp_all add: ok(4) pabs_def)
    moreover have "indexed t" using wf_created [OF wf] by (simp add: ok(4) indexed_def flushed_def)
    ultimately show ?thesis
      using ok(2,3) mrid_ok_add [OF inv(2) ok(2)] share_ok_put [OF inv(3,2) ok(1)]
      by (simp add: keyed_def)
  qed
qed

lemma D_Update_keyed:
  assumes "keyed s" and "D_Update p i c s = (r, t)"
  shows "keyed t \<and> (case r of Inr _ \<Rightarrow> pabs s p i \<noteq> None \<and> pabs t = upd2 (pabs s) p i (Some c)
      | Inl e \<Rightarrow> pabs t = pabs s)"
proof -
  have inv: "indexed s" "mrid_ok (pabs s) (mrid s)" "share_ok (pabs s)" using assms(1) by (auto simp: keyed_def)
  then have ix: "indexed s" and wf: "wf_scoped (inner s)" by (simp_all add: indexed_def)
  let ?ix = "\<lambda>b. moved (d_MRID b) (d_MRID c) (p, i) (mrid s)"
  consider (same) "t = s" "\<exists>e. r = Inl e"
    | (fail) b where "pabs s p i = Some b" "r = Inl write_error"
      "t = (next_write s)\<lparr>mrid := moved (d_MRID c) (d_MRID b) (p, i) (?ix b)\<rparr>"
    | (ok) b where "mridConflict (mrid s) (d_MRID c) (p, i) = None" "pabs s p i = Some b" "r = Inr ()"
      "t = flushed (with_inner (s\<lparr>mrid := ?ix b\<rparr>) (updated (inner s) p i c))"
    using assms(2) unfolding D_Update_eq [OF ix] Let_def by (fastforce split: if_split_asm option.split_asm)
  then show ?thesis
  proof cases
    case same
    then show ?thesis using assms(1) by auto
  next
    case fail
    have "pabs t = pabs s" by (simp add: fail(3) pabs_def)
    moreover have "indexed t" using inv(1) by (simp add: fail(3) indexed_def)
    moreover have "mrid_ok (pabs s) (mrid t)"
      using mrid_ok_moved [OF mrid_ok_moved [OF inv(2) fail(1), of c], of p i c b] fail(1)
      by (simp add: fail(3) upd2_apply upd2_triv)
    ultimately show ?thesis using fail(2) inv(3) by (simp add: keyed_def)
  next
    case ok
    have t: "pabs t = upd2 (pabs s) p i (Some c)" "mrid t = ?ix b"
      using ok(2) lookup_upd2(2) [of "inner s" p i c] by (simp_all add: ok(4) pabs_def)
    moreover have "indexed t" using wf_updated [OF wf] by (simp add: ok(4) indexed_def flushed_def)
    ultimately show ?thesis
      using ok(2,3) mrid_ok_moved [OF inv(2) ok(2)] share_ok_put [OF inv(3,2) ok(1)]
      by (simp add: keyed_def)
  qed
qed

lemma D_Delete_keyed:
  assumes "keyed s" and "D_Delete p i s = (r, t)"
  shows "keyed t \<and> (case r of Inr _ \<Rightarrow> pabs s p i \<noteq> None \<and> pabs t = upd2 (pabs s) p i None
      | Inl e \<Rightarrow> pabs t = pabs s \<and> (err_is e ErrNotFound \<longleftrightarrow> pabs s p i = None))"
proof -
  have inv: "indexed s" "mrid_ok (pabs s) (mrid s)" "share_ok (pabs s)" using assms(1) by (auto simp: keyed_def)
  then have ix: "indexed s" and wf: "wf_scoped (inner s)" by (simp_all add: indexed_def)
  let ?ix = "\<lambda>b. dropMRID (d_MRID b) (p, i) (mrid s)"
  consider (same) "t = s" "r = Inl ErrNotFound" "pabs s p i = None"
    | (fail) b where "pabs s p i = Some b" "r = Inl write_error"
      "t = (next_write s)\<lparr>mrid := addMRID (d_MRID b) (p, i) (?ix b)\<rparr>"
    | (ok) b where "pabs s p i = Some b" "r = Inr ()"
      "t = flushed (with_inner (s\<lparr>mrid := ?ix b\<rparr>) (deleted (inner s) p i))"
    using assms(2) unfolding D_Delete_eq [OF ix] Let_def by (fastforce split: if_split_asm option.split_asm)
  then show ?thesis
  proof cases
    case same
    then show ?thesis using assms(1) by auto
  next
    case fail
    have "pabs t = pabs s" by (simp add: fail(3) pabs_def)
    moreover have "indexed t" using inv(1) by (simp add: fail(3) indexed_def)
    moreover have "mrid_ok (pabs s) (mrid t)"
      using mrid_ok_add [OF mrid_ok_drop [OF inv(2) fail(1)], of p i b] fail(1)
      by (simp add: fail(3) upd2_apply upd2_triv)
    ultimately show ?thesis using fail(1,2) inv(3) by (simp add: keyed_def)
  next
    case ok
    have t: "pabs t = upd2 (pabs s) p i None" "mrid t = ?ix b"
      using ok(1) lookup_upd2(3) [OF wf, of p i] by (simp_all add: ok(3) pabs_def)
    moreover have "indexed t" using wf_deleted [OF wf] by (simp add: ok(3) indexed_def flushed_def)
    ultimately show ?thesis
      using ok(1,2) mrid_ok_drop [OF inv(2) ok(1)] share_ok_drop [OF inv(3)]
      by (simp add: keyed_def)
  qed
qed


lemma D_writes_pinv:
  assumes "pinv s"
  shows "D_Create p i c s = (r, t) \<Longrightarrow> pinv t" and "D_Update p i c s = (r, t) \<Longrightarrow> pinv t"
    and "D_Delete p i s = (r, t) \<Longrightarrow> pinv t"
proof -
  have ix: "indexed s" and wf: "wf_scoped (inner s)" using assms by (simp_all add: pinv_def indexed_def)
  note fl = pinv_flushed [OF wf_created [OF wf]] pinv_flushed [OF wf_updated [OF wf]] pinv_flushed [OF wf_deleted [OF wf]]
  have n: "pinv (next_write s)" using assms by (simp add: pinv_def indexed_def)
  note em = pinv_empty_parent [OF assms, of p]
  show "D_Create p i c s = (r, t) \<Longrightarrow> pinv t"
    using assms em fl by (auto simp: D_Create_eq [OF ix] Let_def split: if_splits)
  show "D_Update p i c s = (r, t) \<Longrightarrow> pinv t"
    using assms n fl by (auto simp: D_Update_eq [OF ix] Let_def split: if_splits option.splits)
  show "D_Delete p i s = (r, t) \<Longrightarrow> pinv t"
    using assms n fl by (auto simp: D_Delete_eq [OF ix] Let_def split: if_splits option.splits)
qed

lemma D_Create_law:
  assumes "dinv s" and "D_Create p i c s = (r, t)"
  shows "dinv t \<and> (case r of Inr _ \<Rightarrow> pabs s p i = None \<and> pabs t = upd2 (pabs s) p i (Some c)
      | Inl e \<Rightarrow> pabs t = pabs s)"
  using D_Create_keyed [OF _ assms(2)] D_writes_pinv(1) [OF _ assms(2)] assms(1) by (simp add: dinv_keyed)

lemma D_Update_law:
  assumes "dinv s" and "D_Update p i c s = (r, t)"
  shows "dinv t \<and> (case r of Inr _ \<Rightarrow> pabs s p i \<noteq> None \<and> pabs t = upd2 (pabs s) p i (Some c)
      | Inl e \<Rightarrow> pabs t = pabs s)"
  using D_Update_keyed [OF _ assms(2)] D_writes_pinv(2) [OF _ assms(2)] assms(1) by (simp add: dinv_keyed)

lemma D_Delete_law:
  assumes "dinv s" and "D_Delete p i s = (r, t)"
  shows "dinv t \<and> (case r of Inr _ \<Rightarrow> pabs s p i \<noteq> None \<and> pabs t = upd2 (pabs s) p i None
      | Inl e \<Rightarrow> pabs t = pabs s \<and> (err_is e ErrNotFound \<longleftrightarrow> pabs s p i = None))"
  using D_Delete_keyed [OF _ assms(2)] D_writes_pinv(3) [OF _ assms(2)] assms(1) by (simp add: dinv_keyed)

interpretation ds: scoped_store pabs dinv D_Get D_Create D_Delete
proof
  fix s t :: dercontrol_store and p i v r
  assume inv: "dinv s"
  show "D_Get p i s = (case pabs s p i of None \<Rightarrow> Inl ErrNotFound | Some v \<Rightarrow> Inr v, s)"
    by (simp add: D_Get_def Scoped_Get_lookup pabs_def)
  show "dinv t \<and> (case r of Inr _ \<Rightarrow> pabs s p i = None \<and> pabs t = upd2 (pabs s) p i (Some v)
      | Inl e \<Rightarrow> pabs t = pabs s)" if "D_Create p i v s = (r, t)"
    by (rule D_Create_law [OF inv that])
  show "dinv t \<and> (case r of Inr _ \<Rightarrow> pabs s p i \<noteq> None \<and> pabs t = upd2 (pabs s) p i None
      | Inl e \<Rightarrow> pabs t = pabs s \<and> (err_is e ErrNotFound \<longleftrightarrow> pabs s p i = None))" if "D_Delete p i s = (r, t)"
    by (rule D_Delete_law [OF inv that])
qed

lemma ByMRID_cases:
  assumes "keyed s" and "m \<noteq> []"
  shows "case ByMRID s m of
      Inr (p, i, c) \<Rightarrow> pabs s p i = Some c \<and> d_MRID c = m \<and>
        (\<forall>q j d. pabs s q j = Some d \<and> d_MRID d = m \<longrightarrow> q = p \<and> j = i)
    | Inl e \<Rightarrow> e = ErrNotFound \<and> (\<forall>p i c. pabs s p i = Some c \<longrightarrow> d_MRID c \<noteq> m) \<or>
        e = ErrMRIDShared \<and> (\<exists>p q i c d. p \<noteq> q \<and> pabs s p i = Some c \<and> pabs s q i = Some d \<and>
           d_MRID c = m \<and> d_MRID d = m)"
proof -
  have ok: "mrid_ok (pabs s) (mrid s)" and share: "share_ok (pabs s)" using assms(1) by (auto simp: keyed_def)
  have mem: "(p, i) \<in> set (mrid_keys (mrid s) m) \<longleftrightarrow> (\<exists>c. pabs s p i = Some c \<and> d_MRID c = m)" for p i
    using ok assms(2) by (simp add: mrid_ok_def)
  show ?thesis
  proof (cases "mrid_keys (mrid s) m")
    case Nil
    then show ?thesis using mem by (auto simp: ByMRID_def)
  next
    case (Cons k ks)
    obtain p i where k: "k = (p, i)" by force
    obtain c where c: "pabs s p i = Some c" "d_MRID c = m" using mem [of p i] Cons k by auto
    show ?thesis
    proof (cases ks)
      case Nil
      have u: "\<forall>q j d. pabs s q j = Some d \<and> d_MRID d = m \<longrightarrow> q = p \<and> j = i"
      proof (intro allI impI)
        fix q j d assume "pabs s q j = Some d \<and> d_MRID d = m"
        then have "(q, j) \<in> set (mrid_keys (mrid s) m)" unfolding mem by blast
        then show "q = p \<and> j = i" unfolding Cons Nil k by simp
      qed
      have b: "ByMRID s m = Inr (p, i, c)"
        using c(1) Cons Nil k by (simp add: ByMRID_def Scoped_Get_lookup pabs_def)
      show ?thesis unfolding b sum.case prod.case using c u by (intro conjI)
    next
      case (Cons k' ks')
      obtain q j where k': "k' = (q, j)" by force
      with Cons \<open>mrid_keys (mrid s) m = k # ks\<close> obtain d where d: "pabs s q j = Some d" "d_MRID d = m"
        using mem [of q j] by auto
      have ij: "i = j" using share_okD [OF share c(1) d(1)] c d assms(2) by simp
      have "distinct (mrid_keys (mrid s) m)" using ok by (simp add: mrid_ok_def)
      then have "p \<noteq> q" using ij Cons \<open>mrid_keys (mrid s) m = k # ks\<close> k k' by auto
      moreover have "ByMRID s m = Inl ErrMRIDShared"
        using Cons \<open>mrid_keys (mrid s) m = k # ks\<close> by (simp add: ByMRID_def)
      ultimately show ?thesis using c d ij by (simp only: sum.case) blast
    qed
  qed
qed

section \<open>Properties\<close>

text \<open>
  C19: a failed write of the control or the lifecycle store leaves every record as it was, a
  successful one changes exactly the record it names, and the key and mRID indexes and the
  snapshot file agree with the records after either; a failed create may leave an empty
  parent behind, which serves no record.
\<close>

theorem control_stores_roll_back:
  assumes "dinv s" and "pinv l"
  shows "(\<forall>r t. D_Create p i c s = (r, t) \<longrightarrow> dinv t \<and>
            pabs t = (case r of Inr _ \<Rightarrow> upd2 (pabs s) p i (Some c) | Inl _ \<Rightarrow> pabs s)) \<and>
         (\<forall>r t. D_Update p i c s = (r, t) \<longrightarrow> dinv t \<and>
            pabs t = (case r of Inr _ \<Rightarrow> upd2 (pabs s) p i (Some c) | Inl _ \<Rightarrow> pabs s)) \<and>
         (\<forall>r t. D_Delete p i s = (r, t) \<longrightarrow> dinv t \<and>
            pabs t = (case r of Inr _ \<Rightarrow> upd2 (pabs s) p i None | Inl _ \<Rightarrow> pabs s)) \<and>
         (\<forall>r t. L_Create p i lc l = (r, t) \<longrightarrow> pinv t \<and>
            pabs t = (case r of Inr _ \<Rightarrow> upd2 (pabs l) p i (Some lc) | Inl _ \<Rightarrow> pabs l)) \<and>
         (\<forall>r t. L_Update p i lc l = (r, t) \<longrightarrow> pinv t \<and>
            pabs t = (case r of Inr _ \<Rightarrow> upd2 (pabs l) p i (Some lc) | Inl _ \<Rightarrow> pabs l)) \<and>
         (\<forall>r t. L_Delete p i l = (r, t) \<longrightarrow> pinv t \<and>
            pabs t = (case r of Inr _ \<Rightarrow> upd2 (pabs l) p i None | Inl _ \<Rightarrow> pabs l))"
proof -
  note laws = D_Create_law [OF assms(1)] D_Update_law [OF assms(1)] D_Delete_law [OF assms(1)]
    ls.create_law [OF assms(2)] ls.update_law [OF assms(2)] ls.delete_law [OF assms(2)]
  show ?thesis by (intro conjI allI impI) (drule laws; simp split: sum.splits)+
qed


definition sample_dstore :: dercontrol_store where
  "sample_dstore = (NewDERControlStore [] [True])\<lparr>persistPath := ''f''\<rparr>"

definition sample_lstore :: "LifecycleRecord pstore" where
  "sample_lstore = (empty_pstore [] [])\<lparr>persistPath := ''f''\<rparr>"

lemma empty_index: "index_of NewScopedStore = Map.empty" "records_of NewScopedStore = []"
  "scoped_lookup NewScopedStore p i = None"
  by (auto simp: index_of_def records_of_def child_def NewScopedStore_def NewStore_def scoped_lookup_def fun_eq_iff)

lemma sample_stores_inv: "dinv sample_dstore" "pinv sample_lstore"
  by (auto simp: dinv_def pinv_def indexed_def sample_dstore_def sample_lstore_def NewDERControlStore_def
      empty_pstore_def empty_index mrid_ok_def share_ok_def mrid_keys_def pabs_def)

theorem control_stores_roll_back_witness:
  "fst (D_Create ''7/1/2'' ''9'' sample_derc sample_dstore) = Inl write_error \<and>
   pabs (snd (D_Create ''7/1/2'' ''9'' sample_derc sample_dstore)) = pabs sample_dstore"
proof -
  have "indexed sample_dstore" using sample_stores_inv(1) by (simp add: dinv_def pinv_def)
  from D_Create_eq [OF this] have "fst (D_Create ''7/1/2'' ''9'' sample_derc sample_dstore) = Inl write_error"
    by (simp add: sample_dstore_def NewDERControlStore_def mridConflict_def mrid_keys_def pabs_def empty_index Let_def)
  then show ?thesis
    using control_stores_roll_back [OF sample_stores_inv, of "''7/1/2''" "''9''" sample_derc zero_lifecycle]
    by (cases "D_Create ''7/1/2'' ''9'' sample_derc sample_dstore") auto
qed

text \<open>The writes of the control store, one after another.\<close>

datatype dwrite =
    DCreate string string DERControl
  | DUpdate string string DERControl
  | DDelete string string

fun D_step :: "dwrite \<Rightarrow> dercontrol_store \<Rightarrow> (err + unit) \<times> dercontrol_store" where
  "D_step (DCreate p i c) s = D_Create p i c s"
| "D_step (DUpdate p i c) s = D_Update p i c s"
| "D_step (DDelete p i) s = D_Delete p i s"

fun D_run :: "dwrite list \<Rightarrow> dercontrol_store \<Rightarrow> dercontrol_store" where
  "D_run [] s = s"
| "D_run (w # ws) s = D_run ws (snd (D_step w s))"

text \<open>What those writes mean for the records, by the results they returned.\<close>

fun D_meaning :: "dwrite \<Rightarrow> (string \<Rightarrow> string \<Rightarrow> DERControl option) \<Rightarrow> string \<Rightarrow> string \<Rightarrow> DERControl option" where
  "D_meaning (DCreate p i c) m = upd2 m p i (Some c)"
| "D_meaning (DUpdate p i c) m = upd2 m p i (Some c)"
| "D_meaning (DDelete p i) m = upd2 m p i None"

fun D_records ::
    "dwrite list \<Rightarrow> dercontrol_store \<Rightarrow> (string \<Rightarrow> string \<Rightarrow> DERControl option) \<Rightarrow> string \<Rightarrow> string \<Rightarrow> DERControl option" where
  "D_records [] s m = m"
| "D_records (w # ws) s m =
     (case D_step w s of (r, t) \<Rightarrow> D_records ws t (case r of Inl _ \<Rightarrow> m | Inr _ \<Rightarrow> D_meaning w m))"

lemma D_step_keyed:
  assumes "keyed s" and "D_step w s = (r, t)"
  shows "keyed t" and "pabs t = (case r of Inl _ \<Rightarrow> pabs s | Inr _ \<Rightarrow> D_meaning w (pabs s))"
  using assms D_Create_keyed [OF assms(1)] D_Update_keyed [OF assms(1)] D_Delete_keyed [OF assms(1)]
  by (cases w; fastforce split: sum.splits)+

lemma D_run_keyed: "keyed s \<Longrightarrow> keyed (D_run ws s) \<and> pabs (D_run ws s) = D_records ws s (pabs s)"
proof (induction ws arbitrary: s)
  case (Cons w ws)
  obtain r t where st: "D_step w s = (r, t)" by force
  from Cons.IH [OF D_step_keyed(1) [OF Cons.prems st]] D_step_keyed(2) [OF Cons.prems st] show ?case
    by (simp add: st)
qed simp

lemma keyed_new: "keyed (NewDERControlStore file script)"
  by (auto simp: keyed_def indexed_def NewDERControlStore_def empty_index mrid_ok_def share_ok_def mrid_keys_def pabs_def)

lemma D_load_keyed: "keyed s \<Longrightarrow> D_load_records rs s = (r, t) \<Longrightarrow> keyed t"
proof (induction rs s arbitrary: r t rule: D_load_records.induct)
  case (2 p rid v rs s)
  obtain q u where c: "D_Create p rid v s = (q, u)" by force
  have "keyed u" using D_Create_keyed [OF 2(2) c] by blast
  then show ?case using 2(1) [OF c [symmetric]] 2(3) c by (cases q) auto
qed simp

lemma keyed_path [simp]: "keyed (s\<lparr>persistPath := path\<rparr>) = keyed s"
  by (simp add: keyed_def indexed_def pabs_def)

lemma keyed_loaded: "NewDERControlStoreWithPersistence path file script = Inr s \<Longrightarrow> keyed s"
  by (auto simp: NewDERControlStoreWithPersistence_def keyed_new split: if_splits prod.splits sum.splits
      dest: D_load_keyed [OF keyed_new])

text \<open>
  C20: the mRID index is exact, in every store the code can reach. Build a store from a file
  and run any creates, updates and deletes on it, some of them refused, some failing at the
  disk. For a non-blank mRID, \<open>ByMRID\<close> then returns the one control that carries it with its
  key, answers not-found exactly when no stored control carries it, and answers shared exactly
  when copies of one control, the same id under different parents, carry it; the stored
  controls are those of the file changed by the writes that returned nil.
\<close>

theorem ByMRID_exact:
  assumes "NewDERControlStoreWithPersistence path file script = Inr s0" and "m \<noteq> []"
  shows "let s = D_run ws s0 in
    pabs s = D_records ws s0 (pabs s0) \<and>
    (case ByMRID s m of
      Inr (p, i, c) \<Rightarrow> pabs s p i = Some c \<and> d_MRID c = m \<and>
        (\<forall>q j d. pabs s q j = Some d \<and> d_MRID d = m \<longrightarrow> q = p \<and> j = i)
    | Inl e \<Rightarrow> e = ErrNotFound \<and> (\<forall>p i c. pabs s p i = Some c \<longrightarrow> d_MRID c \<noteq> m) \<or>
        e = ErrMRIDShared \<and> (\<exists>p q i c d. p \<noteq> q \<and> pabs s p i = Some c \<and> pabs s q i = Some d \<and>
           d_MRID c = m \<and> d_MRID d = m))"
  using D_run_keyed [OF keyed_loaded [OF assms(1)], of ws]
    ByMRID_cases [OF _ assms(2), of "D_run ws s0"] by (simp add: Let_def)

definition sample_copies :: "(string \<times> string \<times> DERControl) list" where
  "sample_copies = [(''7/1/2'', ''9'', sample_derc), (''8/1/2'', ''9'', sample_derc)]"

lemma sample_copies_load:
  obtains s0 where "NewDERControlStoreWithPersistence ''f'' sample_copies [] = Inr s0" and "faults s0 = []"
    and "pabs s0 = upd2 (upd2 (\<lambda>_ _. None) ''7/1/2'' ''9'' (Some sample_derc)) ''8/1/2'' ''9'' (Some sample_derc)"
proof -
  define n where "n = NewDERControlStore sample_copies []"
  have ix: "indexed n" and k: "keyed n" using keyed_new by (simp_all add: keyed_def n_def)
  have e: "pabs n = (\<lambda>_ _. None)" by (simp add: n_def NewDERControlStore_def pabs_def empty_index fun_eq_iff)
  have n: "mrid n = Map.empty" "faults n = []" "persistPath n = []" by (simp_all add: n_def NewDERControlStore_def)
  obtain s1 where a: "D_Create ''7/1/2'' ''9'' sample_derc n = (Inr (), s1)"
      and b: "mrid s1 = [''0A'' \<mapsto> [(''7/1/2'', ''9'')]]" "faults s1 = []" "persistPath s1 = []"
    using D_Create_eq [OF ix, of "''7/1/2''" "''9''" sample_derc] e n
    by (simp add: mridConflict_def mrid_keys_def Let_def addMRID_def sample_derc_def flushed_def)
  have k1: "keyed s1" and p1: "pabs s1 = upd2 (\<lambda>_ _. None) ''7/1/2'' ''9'' (Some sample_derc)"
    using D_Create_keyed [OF k a] e by simp_all
  then have ix1: "indexed s1" by (simp add: keyed_def)
  obtain s2 where c: "D_Create ''8/1/2'' ''9'' sample_derc s1 = (Inr (), s2)" and d: "faults s2 = []"
    using D_Create_eq [OF ix1, of "''8/1/2''" "''9''" sample_derc] b p1
    by (simp add: mridConflict_def mrid_keys_def Let_def upd2_apply sample_derc_def flushed_def)
  have p2: "pabs s2 = upd2 (pabs s1) ''8/1/2'' ''9'' (Some sample_derc)" using D_Create_keyed [OF k1 c] by simp
  have "NewDERControlStoreWithPersistence ''f'' sample_copies [] = Inr (s2\<lparr>persistPath := ''f''\<rparr>)"
    using a c by (simp add: NewDERControlStoreWithPersistence_def n_def [symmetric])
      (simp add: sample_copies_def)
  from that [OF this] d p2 p1 show thesis by (simp add: pabs_def)
qed

theorem ByMRID_exact_witness:
  "\<exists>s0. NewDERControlStoreWithPersistence ''f'' sample_copies [] = Inr s0 \<and>
     ByMRID s0 ''0A'' = Inl ErrMRIDShared \<and>
     ByMRID (D_run [DDelete ''8/1/2'' ''9''] s0) ''0A'' = Inr (''7/1/2'', ''9'', sample_derc)"
proof -
  obtain s0 where n: "NewDERControlStoreWithPersistence ''f'' sample_copies [] = Inr s0" and f: "faults s0 = []"
    and p: "pabs s0 = upd2 (upd2 (\<lambda>_ _. None) ''7/1/2'' ''9'' (Some sample_derc)) ''8/1/2'' ''9'' (Some sample_derc)"
    by (rule sample_copies_load)
  have m: "d_MRID sample_derc = ''0A''" by (simp add: sample_derc_def)
  note ex = ByMRID_exact [OF n, of "''0A''"]
  have two: "pabs s0 ''7/1/2'' ''9'' = Some sample_derc" "pabs s0 ''8/1/2'' ''9'' = Some sample_derc"
    by (simp_all add: p upd2_apply)
  have shared: "ByMRID s0 ''0A'' = Inl ErrMRIDShared"
  proof (cases "ByMRID s0 ''0A''")
    case (Inr r)
    then have "\<exists>p i. \<forall>q j d. pabs s0 q j = Some d \<and> d_MRID d = ''0A'' \<longrightarrow> q = p \<and> j = i"
      using ex [of "[]"] by (cases r) (auto simp: Let_def)
    then obtain p i where "\<forall>q j d. pabs s0 q j = Some d \<and> d_MRID d = ''0A'' \<longrightarrow> q = p \<and> j = i" by blast
    with two m have "''7/1/2'' = p" "''8/1/2'' = p" by blast+
    then have "''7/1/2'' = ''8/1/2''" by (rule trans [OF _ sym])
    then show ?thesis by simp
  qed (use ex [of "[]"] two m in \<open>auto simp: Let_def\<close>)
  let ?s = "D_run [DDelete ''8/1/2'' ''9''] s0"
  have "indexed s0" using keyed_loaded [OF n] by (simp add: keyed_def)
  from D_Delete_eq [OF this, of "''8/1/2''" "''9''"] two f
  have "fst (D_Delete ''8/1/2'' ''9'' s0) = Inr ()" by (simp add: Let_def)
  then have "D_records [DDelete ''8/1/2'' ''9''] s0 (pabs s0) = upd2 (pabs s0) ''8/1/2'' ''9'' None"
    by (cases "D_Delete ''8/1/2'' ''9'' s0") simp
  then have u: "pabs ?s = upd2 (\<lambda>_ _. None) ''7/1/2'' ''9'' (Some sample_derc)"
    using ex [of "[DDelete ''8/1/2'' ''9'']"] by (simp add: Let_def p fun_eq_iff upd2_apply)
  then have q: "pabs ?s q j = Some d \<longleftrightarrow> q = ''7/1/2'' \<and> j = ''9'' \<and> d = sample_derc" for q j d
    by (auto simp: upd2_apply)
  have "ByMRID ?s ''0A'' = Inr (''7/1/2'', ''9'', sample_derc)"
    using ex [of "[DDelete ''8/1/2'' ''9'']"] m unfolding Let_def q
    by (auto split: sum.splits)
  with n shared show ?thesis by blast
qed

end
