(* ===== verification/Ledger.thy ===== *)
theory Ledger
  imports FitsGrant
begin

text \<open>
  \<open>internal/commitment/ledger.go\<close>: the check a write must pass under its fleet's lock.
  The two sources are the interfaces of the code, records of operations over a state \<open>'s\<close>;
  a \<open>context\<close> is the error \<open>ctx.Err()\<close> would report in a state. The locks themselves,
  and the order in which they are taken, are the subject of the theory on lock order; here
  \<open>Within\<close> computes the keys, refuses what the code refuses and runs its function.
\<close>

record 's grant_source =
  GrantsInFleet :: "string \<Rightarrow> (err, 's, grant list) io"
  GrantByMRID :: "string \<Rightarrow> (err, 's, grant) io"

record 's control_source =
  ControlsInFleet :: "string \<Rightarrow> (err, 's, control list) io"
  ExecutionsOf :: "string \<Rightarrow> (err, 's, control list) io"
  ControlsAndExecutions ::
    "string \<Rightarrow> string list \<Rightarrow> (err, 's, control list \<times> (string \<Rightarrow> control list)) io"

record 's Ledger =
  l_grants :: "'s grant_source"
  l_controls :: "'s control_source"

type_synonym 's ctx = "'s \<Rightarrow> err option"

record view =
  locked :: "string list"
  v_done :: bool

record Proposal =
  p_FleetKey :: string
  p_Window :: window
  p_GrantMRID :: string
  p_TargetW :: "active_power option"
  p_Reach :: int
  p_Supersedes :: "string list"

definition Within_locks ::
    "'s Ledger option \<Rightarrow> 's ctx \<Rightarrow> string list \<Rightarrow> (view \<Rightarrow> (err, 's, 'a) io) \<Rightarrow> (err, 's, 'a) io" where
  "Within_locks l ctx fleetKeys fn s =
     (case l of
        None \<Rightarrow> (Inl ErrNoLedger, s)
      | Some _ \<Rightarrow>
          (let keys = lock_order fleetKeys
           in if keys = [] \<or> hd keys = []
              then (Inl (Errorf ''commitment: Within needs at least one non-empty fleet key'' []), s)
              else (case ctx s of
                      Some e \<Rightarrow> (Inl e, s)
                    | None \<Rightarrow> fn \<lparr>locked = keys, v_done = False\<rparr> s)))"

definition guard :: "view \<Rightarrow> string \<Rightarrow> err option" where
  "guard v fleetKey =
     (if v_done v then Some (Panic ''commitment: View used after its Within call returned'')
      else if fleetKey \<notin> set (locked v) then Some (Errorf ''guard'' [ErrFleetNotLocked])
      else None)"

section \<open>Live grants and plain controls\<close>

definition live_grant :: "grant \<Rightarrow> bool" where
  "live_grant g \<longleftrightarrow> \<not> (g_CancelledAt g \<noteq> None \<or> g_Window g = None)"

definition Live :: "grant list \<Rightarrow> control list \<Rightarrow> grant list \<times> control list" where
  "Live grants controls =
     (let live = filter live_grant grants;
          liveMRIDs = map g_MRID live
      in (live,
          filter (\<lambda>c. \<not> (c_Cancelled c \<or> (c_GrantMRID c \<noteq> [] \<and> c_GrantMRID c \<in> set liveMRIDs)))
            controls))"

text \<open>\<open>g.Window.Overlaps(w)\<close> for a live grant, whose window is never nil.\<close>

definition grant_Overlaps :: "grant \<Rightarrow> window \<Rightarrow> bool" where
  "grant_Overlaps g w = (case g_Window g of None \<Rightarrow> False | Some gw \<Rightarrow> window_Overlaps gw w)"

text \<open>
  The decision of \<open>CheckGrant\<close> once both sources answered: a grant conflict is refused even
  when the control read failed.
\<close>

definition grant_decision ::
    "grant list \<Rightarrow> err + control list \<Rightarrow> window \<Rightarrow> string \<Rightarrow> err option" where
  "grant_decision grants controls w except =
     (let (live, plain) = Live grants (case controls of Inl _ \<Rightarrow> [] | Inr cs \<Rightarrow> cs)
      in case find (\<lambda>g. g_MRID g \<noteq> except \<and> grant_Overlaps g w) live of
           Some g \<Rightarrow> Some (ConflictError ConflictFleetWindow (g_MRID g))
         | None \<Rightarrow>
             (case controls of
                Inl e \<Rightarrow> Some (Errorf ''commitment: reading controls of fleet'' [e])
              | Inr _ \<Rightarrow>
                  (case find (\<lambda>c. window_Overlaps (c_Window c) w) plain of
                     Some c \<Rightarrow> Some (ConflictError ConflictFleetWindow (c_MRID c))
                   | None \<Rightarrow> None)))"

definition CheckGrant ::
    "'s Ledger \<Rightarrow> view \<Rightarrow> string \<Rightarrow> window option \<Rightarrow> string \<Rightarrow> (err, 's, unit) io" where
  "CheckGrant l v fleetKey w except =
     io_bind (io_check (guard v fleetKey)) (\<lambda>_.
       case w of
         None \<Rightarrow> io_return ()
       | Some nw \<Rightarrow>
           if Duration nw = 0 then io_return ()
           else
             io_bind (io_map_err (\<lambda>e. Errorf ''commitment: reading grants of fleet'' [e])
                        (GrantsInFleet (l_grants l) fleetKey)) (\<lambda>grants.
             io_try (ControlsInFleet (l_controls l) fleetKey) (\<lambda>controls.
               io_check (grant_decision grants controls nw except))))"

section \<open>Checking a control\<close>

definition checkPlain :: "'s Ledger \<Rightarrow> Proposal \<Rightarrow> (err, 's, unit) io" where
  "checkPlain l p =
     (if Duration (p_Window p) = 0 then io_return ()
      else
        io_bind (io_map_err (\<lambda>e. Errorf ''commitment: reading grants of fleet'' [e])
                   (GrantsInFleet (l_grants l) (p_FleetKey p))) (\<lambda>grants.
          case find (\<lambda>g. grant_Overlaps g (p_Window p)) (fst (Live grants [])) of
            Some g \<Rightarrow> io_fail (ConflictError ConflictFleetWindow (g_MRID g))
          | None \<Rightarrow> io_return ()))"

definition superseded_clip :: "Proposal \<Rightarrow> control \<Rightarrow> control" where
  "superseded_clip p c =
     (if c_MRID c \<in> set (p_Supersedes p)
      then c\<lparr>c_Window := ClipAt (c_Window c) (Start (p_Window p))\<rparr> else c)"

definition proposed_control :: "grant \<Rightarrow> Proposal \<Rightarrow> control" where
  "proposed_control g p =
     \<lparr>c_MRID = g_MRID g, c_ID = [], c_Scope = [], c_EndDeviceID = [],
      c_FleetKey = p_FleetKey p, c_Window = p_Window p, c_GrantMRID = g_MRID g,
      c_TargetW = p_TargetW p, c_Reach = p_Reach p, c_Cancelled = False, c_FleetTotal = False\<rparr>"

definition checkExecution :: "'s Ledger \<Rightarrow> Proposal \<Rightarrow> (err, 's, unit) io" where
  "checkExecution l p =
     (if p_Reach p < 1 then io_fail (Errorf ''commitment: execution has reach below 1'' [])
      else
        io_bind (io_map_err (\<lambda>e. if err_is e ErrNoGrant
                                then ConflictError ConflictGrantNotLive (p_GrantMRID p)
                                else Errorf ''commitment: reading grant'' [e])
                   (GrantByMRID (l_grants l) (p_GrantMRID p))) (\<lambda>g.
        io_bind (io_map_err (\<lambda>e. Errorf ''commitment: reading executions of grant'' [e])
                   (ExecutionsOf (l_controls l) (g_MRID g))) (\<lambda>execs.
          let existing = map (superseded_clip p) (filter (\<lambda>c. \<not> c_Cancelled c) execs)
          in io_check (FitsGrant g existing (Some (proposed_control g p))))))"

definition CheckControl :: "'s Ledger \<Rightarrow> view \<Rightarrow> Proposal \<Rightarrow> (err, 's, unit) io" where
  "CheckControl l v p =
     io_bind (io_check (guard v (p_FleetKey p))) (\<lambda>_.
       if p_GrantMRID p = [] then checkPlain l p else checkExecution l p)"

section \<open>Reading a fleet's commitments\<close>

record CommittedGrant =
  cg_Grant :: grant
  cg_Executions :: "control list"

record Commitments =
  cm_Grants :: "CommittedGrant list"
  cm_Plain :: "control list"

definition current_grant :: "int \<Rightarrow> grant \<Rightarrow> bool" where
  "current_grant now g = (case g_Window g of None \<Rightarrow> False | Some w \<Rightarrow> coversAfter w now)"

text \<open>The loop over the plain controls: the copies of one fleet total are listed once.\<close>

fun count_plain :: "int \<Rightarrow> string list \<Rightarrow> control list \<Rightarrow> control list" where
  "count_plain now counted [] = []"
| "count_plain now counted (c # cs) =
     (if \<not> coversAfter (c_Window c) now then count_plain now counted cs
      else if c_FleetTotal c then
        (if c_MRID c \<in> set counted then count_plain now counted cs
         else c # count_plain now (c_MRID c # counted) cs)
      else c # count_plain now counted cs)"

definition committed_grant :: "(string \<Rightarrow> control list) \<Rightarrow> grant \<Rightarrow> CommittedGrant" where
  "committed_grant execs g =
     \<lparr>cg_Grant = g,
      cg_Executions = (if g_MRID g \<noteq> [] then filter (\<lambda>c. \<not> c_Cancelled c) (execs (g_MRID g)) else [])\<rparr>"

definition Commitments_of ::
    "'s Ledger \<Rightarrow> 's ctx \<Rightarrow> string \<Rightarrow> int \<Rightarrow> (err, 's, Commitments) io" where
  "Commitments_of l ctx fleetKey now =
     Within_locks (Some l) ctx [fleetKey] (\<lambda>_.
       io_bind (io_map_err (\<lambda>e. Errorf ''commitment: reading grants of fleet'' [e])
                  (GrantsInFleet (l_grants l) fleetKey)) (\<lambda>grants.
         let current = filter (current_grant now) (fst (Live grants []));
             mrids = filter (\<lambda>m. m \<noteq> []) (map g_MRID current)
         in io_bind (io_map_err (\<lambda>e. Errorf ''commitment: reading controls of fleet'' [e])
                       (ControlsAndExecutions (l_controls l) fleetKey mrids)) (\<lambda>(controls, execs).
              let plain = snd (Live grants controls)
              in io_return \<lparr>cm_Grants = map (committed_grant execs) current,
                            cm_Plain = count_plain now [] plain\<rparr>)))"

section \<open>The rule the ledger enforces\<close>

text \<open>
  Over all grants \<open>G\<close> and controls \<open>C\<close> of the stores, the commitments of fleet \<open>f\<close> are its
  live grants and its plain controls. The rule: two live grants never cover a common second,
  a plain control never covers a second a live grant covers, and the live executions of a
  live grant fit it.
\<close>

definition in_fleet :: "string \<Rightarrow> grant \<Rightarrow> bool" where
  "in_fleet f g \<longleftrightarrow> g_FleetKey g = f \<and>
     (case g_Window g of None \<Rightarrow> False | Some w \<Rightarrow> Duration w > 0)"

definition live_grants :: "grant list \<Rightarrow> string \<Rightarrow> grant list" where
  "live_grants G f = filter live_grant (filter (in_fleet f) G)"

definition is_plain :: "grant list \<Rightarrow> string \<Rightarrow> control \<Rightarrow> bool" where
  "is_plain G f c \<longleftrightarrow> c_FleetKey c = f \<and> \<not> c_Cancelled c \<and>
     \<not> (c_GrantMRID c \<noteq> [] \<and> c_GrantMRID c \<in> g_MRID ` set (live_grants G f))"

definition executions_of :: "control list \<Rightarrow> string \<Rightarrow> control list" where
  "executions_of C m = filter (\<lambda>c. c_GrantMRID c = m \<and> \<not> c_Cancelled c) C"

definition g_covers :: "grant \<Rightarrow> int \<Rightarrow> bool" where
  "g_covers g t = (case g_Window g of None \<Rightarrow> False | Some w \<Rightarrow> covers w t)"

definition fleet_rule :: "grant list \<Rightarrow> control list \<Rightarrow> string \<Rightarrow> bool" where
  "fleet_rule G C f \<longleftrightarrow>
     (\<forall>g \<in> set (live_grants G f). \<forall>h \<in> set (live_grants G f). g \<noteq> h \<longrightarrow>
        \<not> (\<exists>t. g_covers g t \<and> g_covers h t)) \<and>
     (\<forall>g \<in> set (live_grants G f). \<forall>c \<in> set C. is_plain G f c \<longrightarrow>
        \<not> (\<exists>t. g_covers g t \<and> covers (c_Window c) t)) \<and>
     (\<forall>g \<in> set (live_grants G f). g_MRID g \<noteq> [] \<longrightarrow>
        executions_of C (g_MRID g) = [] \<or> fits_bounds g (executions_of C (g_MRID g)))"

definition wf_stores :: "grant list \<Rightarrow> control list \<Rightarrow> bool" where
  "wf_stores G C \<longleftrightarrow> (\<forall>g \<in> set G. wf_grant g) \<and> (\<forall>c \<in> set C. wf_control c) \<and>
     distinct (map g_MRID G)"

lemma live_grants_wf: "wf_stores G C \<Longrightarrow> g \<in> set (live_grants G f) \<Longrightarrow>
   \<exists>w. g_Window g = Some w \<and> wf_window w \<and> Duration w \<noteq> 0"
  by (auto simp: live_grants_def wf_stores_def wf_grant_def in_fleet_def split: option.splits)

lemma live_grants_MRID_inj:
  "wf_stores G C \<Longrightarrow> g \<in> set (live_grants G f) \<Longrightarrow> h \<in> set (live_grants G f) \<Longrightarrow>
   g_MRID g = g_MRID h \<Longrightarrow> g = h"
  by (auto simp: live_grants_def wf_stores_def distinct_map dest: inj_onD)

lemma grant_Overlaps_iff:
  assumes "g_Window g = Some gw" and "wf_window gw" and "wf_window w"
  shows "grant_Overlaps g w \<longleftrightarrow> (\<exists>t. g_covers g t \<and> covers w t)"
  using assms by (simp add: grant_Overlaps_def g_covers_def window_Overlaps_iff)

lemma find_None_all: "find P xs = None \<longleftrightarrow> (\<forall>x \<in> set xs. \<not> P x)"
  by (auto simp: find_None_iff)

lemma grant_decision_None:
  assumes "grant_decision gs r w except = None"
  obtains cs where "r = Inr cs"
    and "find (\<lambda>g. g_MRID g \<noteq> except \<and> grant_Overlaps g w) (fst (Live gs cs)) = None"
    and "find (\<lambda>c. window_Overlaps (c_Window c) w) (snd (Live gs cs)) = None"
  using assms by (cases r) (auto simp: grant_decision_def split: prod.splits option.splits)

lemma snd_Live:
  "snd (Live (filter (in_fleet f) G) (filter (\<lambda>c. c_FleetKey c = f) C)) = filter (is_plain G f) C"
  by (auto simp: Live_def Let_def is_plain_def live_grants_def intro!: filter_cong)

lemma fst_Live: "fst (Live (filter (in_fleet f) G) cs) = live_grants G f"
  by (simp add: Live_def Let_def live_grants_def)

section \<open>Checked writes keep the rule\<close>

lemma superseded_clip_simps [simp]:
  "c_GrantMRID (superseded_clip p c) = c_GrantMRID c" "c_Cancelled (superseded_clip p c) = c_Cancelled c"
  "c_FleetKey (superseded_clip p c) = c_FleetKey c" "c_MRID (superseded_clip p c) = c_MRID c"
  "c_Reach (superseded_clip p c) = c_Reach c"
  by (simp_all add: superseded_clip_def)

lemma superseded_clip_shortened: "wf_control c \<Longrightarrow> shortened (superseded_clip p c) c"
  by (auto simp: superseded_clip_def wf_control_def intro: shortened_ClipAt)

lemma is_plain_superseded_clip [simp]: "is_plain G f (superseded_clip p c) = is_plain G f c"
  by (simp add: is_plain_def)

lemma executions_of_clip:
  "executions_of (map (superseded_clip p) C) m = map (superseded_clip p) (executions_of C m)"
  by (simp add: executions_of_def filter_map o_def)

lemma mset_executions_of:
  "mset (executions_of C m) = filter_mset (\<lambda>c. c_GrantMRID c = m \<and> \<not> c_Cancelled c) (mset C)"
  by (simp add: executions_of_def)

lemma clip_fits:
  assumes "\<forall>c \<in> set xs. wf_control c" and "fits_bounds g xs"
  shows "fits_bounds g (map (superseded_clip p) xs)"
proof (rule shortened_fits [OF _ _ assms(2)])
  show "list_all2 shortened (map (superseded_clip p) xs) xs"
    using assms(1) by (induction xs) (auto intro: superseded_clip_shortened)
  show "\<forall>c \<in> set xs. 0 \<le> c_Reach c" using assms(1) by (auto simp: wf_control_def)
qed

lemma fleet_rule_add_grant:
  assumes rule: "fleet_rule G C f" and new: "set G' = insert g (set G)"
    and fresh: "\<forall>c \<in> set C. c_GrantMRID c \<noteq> g_MRID g"
    and free: "\<forall>h \<in> set (live_grants G f). \<not> (\<exists>t. g_covers h t \<and> g_covers g t)"
    and plain: "\<forall>c \<in> set C. is_plain G f c \<longrightarrow> \<not> (\<exists>t. covers (c_Window c) t \<and> g_covers g t)"
  shows "fleet_rule G' C f"
proof -
  have live: "set (live_grants G' f) \<subseteq> insert g (set (live_grants G f))"
    and sub: "set (live_grants G f) \<subseteq> set (live_grants G' f)"
    using new by (auto simp: live_grants_def)
  then have pl: "is_plain G' f c \<Longrightarrow> is_plain G f c" for c by (auto simp: is_plain_def)
  have none: "executions_of C (g_MRID g) = []"
    using fresh by (auto simp: executions_of_def filter_empty_conv)
  have "\<not> (\<exists>t. g_covers a t \<and> g_covers b t)"
    if "a \<in> set (live_grants G' f)" "b \<in> set (live_grants G' f)" "a \<noteq> b" for a b
  proof -
    from that live have "a = g \<or> a \<in> set (live_grants G f)" "b = g \<or> b \<in> set (live_grants G f)"
      by auto
    with that(3) rule free show ?thesis unfolding fleet_rule_def by blast
  qed
  moreover have "\<not> (\<exists>t. g_covers a t \<and> covers (c_Window c) t)"
    if "a \<in> set (live_grants G' f)" "c \<in> set C" "is_plain G' f c" for a c
  proof (cases "a = g")
    case True
    with plain pl that show ?thesis by blast
  next
    case False
    with that(1) live have "a \<in> set (live_grants G f)" by blast
    with rule pl that show ?thesis by (simp add: fleet_rule_def)
  qed
  moreover have "executions_of C (g_MRID a) = [] \<or> fits_bounds a (executions_of C (g_MRID a))"
    if "a \<in> set (live_grants G' f)" "g_MRID a \<noteq> []" for a
  proof (cases "a = g")
    case False
    with that(1) live have "a \<in> set (live_grants G f)" by blast
    with rule that(2) show ?thesis by (simp add: fleet_rule_def)
  qed (simp add: none)
  ultimately show ?thesis by (simp add: fleet_rule_def)
qed

lemma fleet_rule_add_control:
  assumes rule: "fleet_rule G C f" and wf: "wf_stores G C"
    and new: "mset C' = mset (map (superseded_clip p) C) + {#c#}"
    and plain: "\<And>g. is_plain G f c \<Longrightarrow> g \<in> set (live_grants G f) \<Longrightarrow>
      \<not> (\<exists>t. g_covers g t \<and> covers (c_Window c) t)"
    and exec: "\<And>g. c_GrantMRID c = g_MRID g \<Longrightarrow> g_MRID g \<noteq> [] \<Longrightarrow> \<not> c_Cancelled c \<Longrightarrow>
      g \<in> set (live_grants G f) \<Longrightarrow>
      fits_bounds g (map (superseded_clip p) (executions_of C (g_MRID g)) @ [c])"
  shows "fleet_rule G C' f"
proof -
  have wfC: "wf_control d" if "d \<in> set C" for d using that wf by (simp add: wf_stores_def)
  have setC: "set C' = insert c (superseded_clip p ` set C)"
    using arg_cong [OF new, of set_mset] by simp
  have ex: "mset (executions_of C' m) = mset (map (superseded_clip p) (executions_of C m)
      @ (if c_GrantMRID c = m \<and> \<not> c_Cancelled c then [c] else []))" for m
    unfolding mset_append executions_of_clip [symmetric] unfolding mset_executions_of new by simp
  have plain': "\<not> (\<exists>t. g_covers g t \<and> covers (c_Window d) t)"
    if g: "g \<in> set (live_grants G f)" and d: "d \<in> set C'" "is_plain G f d" for g d
  proof (cases "d = c")
    case True
    with plain g d show ?thesis by blast
  next
    case False
    with d setC obtain d' where d': "d' \<in> set C" "d = superseded_clip p d'" by blast
    with d(2) g rule have "\<not> (\<exists>t. g_covers g t \<and> covers (c_Window d') t)"
      by (auto simp: fleet_rule_def)
    with superseded_clip_shortened [OF wfC [OF d'(1)], of p] d'(2) show ?thesis
      by (auto simp: shortened_def)
  qed
  have fits': "executions_of C' (g_MRID g) = [] \<or> fits_bounds g (executions_of C' (g_MRID g))"
    if g: "g \<in> set (live_grants G f)" and m: "g_MRID g \<noteq> []" for g
  proof (cases "c_GrantMRID c = g_MRID g \<and> \<not> c_Cancelled c")
    case True
    then have e: "mset (map (superseded_clip p) (executions_of C (g_MRID g)) @ [c])
        = mset (executions_of C' (g_MRID g))" by (simp add: ex)
    have "fits_bounds g (map (superseded_clip p) (executions_of C (g_MRID g)) @ [c])"
      using True exec g m by blast
    then show ?thesis using fits_bounds_mset [OF e] by blast
  next
    case False
    then have e: "mset (map (superseded_clip p) (executions_of C (g_MRID g)))
        = mset (executions_of C' (g_MRID g))" by (simp add: ex)
    show ?thesis
    proof (cases "executions_of C (g_MRID g) = []")
      case True
      with e show ?thesis by simp
    next
      case ne: False
      with rule g m have "fits_bounds g (executions_of C (g_MRID g))" by (auto simp: fleet_rule_def)
      then have "fits_bounds g (map (superseded_clip p) (executions_of C (g_MRID g)))"
        by (intro clip_fits) (auto simp: executions_of_def wfC)
      with fits_bounds_mset [OF e] show ?thesis by blast
    qed
  qed
  show ?thesis using rule plain' fits' unfolding fleet_rule_def by blast
qed

text \<open>
  The contract of the two sources: a read changes nothing the ledger can observe, and
  returns what the stores hold.
\<close>

locale commitment_sources =
  fixes l :: "'s Ledger"
    and inv :: "'s \<Rightarrow> bool"
    and grants_of :: "'s \<Rightarrow> grant list"
    and controls_of :: "'s \<Rightarrow> control list"
  assumes GrantsInFleet_law: "inv s \<Longrightarrow> GrantsInFleet (l_grants l) f s = (r, s') \<Longrightarrow>
      s' = s \<and> (\<forall>gs. r = Inr gs \<longrightarrow> gs = filter (in_fleet f) (grants_of s))"
    and GrantByMRID_law: "inv s \<Longrightarrow> GrantByMRID (l_grants l) m s = (rg, s') \<Longrightarrow>
      s' = s \<and> (\<forall>g. rg = Inr g \<longrightarrow> find (\<lambda>g. g_MRID g = m) (grants_of s) = Some g)"
    and ControlsInFleet_law: "inv s \<Longrightarrow> ControlsInFleet (l_controls l) f s = (q, s') \<Longrightarrow>
      s' = s \<and> (\<forall>cs. q = Inr cs \<longrightarrow> cs = filter (\<lambda>c. c_FleetKey c = f) (controls_of s))"
    and ExecutionsOf_law: "inv s \<Longrightarrow> ExecutionsOf (l_controls l) m s = (q, s') \<Longrightarrow>
      s' = s \<and> (\<forall>cs. q = Inr cs \<longrightarrow> m \<noteq> [] \<and> cs = filter (\<lambda>c. c_GrantMRID c = m) (controls_of s))"
begin

lemma CheckGrant_reads:
  assumes "inv s" and "CheckGrant l v f w except s = (r, s')"
  shows "s' = s"
proof -
  obtain rg s1 where g: "GrantsInFleet (l_grants l) f s = (rg, s1)" by fastforce
  have s1: "s1 = s" using GrantsInFleet_law [OF assms(1) g] by simp
  obtain rc s2 where c: "ControlsInFleet (l_controls l) f s = (rc, s2)" by fastforce
  have s2: "s2 = s" using ControlsInFleet_law [OF assms(1) c] by simp
  show ?thesis using assms(2) g c
    by (cases rg) (auto simp: CheckGrant_def s1 s2 io_simps split: if_splits option.splits)
qed

text \<open>A window that passes the check is free of every other live grant and plain control.\<close>

lemma CheckGrant_passed:
  assumes "CheckGrant l v f (Some w) except s = (Inr (), s')" and "Duration w \<noteq> 0"
    and "wf_stores (grants_of s) (controls_of s)" and "wf_window w" and inv: "inv s"
  shows "f \<in> set (locked v)"
    and "\<forall>g \<in> set (live_grants (grants_of s) f). g_MRID g \<noteq> except \<longrightarrow>
           \<not> (\<exists>t. g_covers g t \<and> covers w t)"
    and "\<forall>c \<in> set (controls_of s). is_plain (grants_of s) f c \<longrightarrow>
           \<not> (\<exists>t. covers (c_Window c) t \<and> covers w t)"
proof -
  let ?G = "grants_of s" and ?C = "controls_of s"
  from assms(1,2) obtain gs s1 r s2 where
      lk: "guard v f = None" and g: "GrantsInFleet (l_grants l) f s = (Inr gs, s1)"
    and c: "ControlsInFleet (l_controls l) f s1 = (r, s2)"
    and d: "grant_decision gs r w except = None"
    by (auto simp: CheckGrant_def io_bind_Inr io_try_eq)
  from d obtain cs where r: "r = Inr cs"
    and ng: "find (\<lambda>g. g_MRID g \<noteq> except \<and> grant_Overlaps g w) (fst (Live gs cs)) = None"
    and nc: "find (\<lambda>c. window_Overlaps (c_Window c) w) (snd (Live gs cs)) = None"
    by (rule grant_decision_None)
  from GrantsInFleet_law [OF inv g] have gs: "gs = filter (in_fleet f) ?G"
    and k: "s1 = s" by auto
  from ControlsInFleet_law [OF inv c [unfolded k]] r have cs: "cs = filter (\<lambda>c. c_FleetKey c = f) ?C" by auto
  from lk show "f \<in> set (locked v)" by (auto simp: guard_def split: if_splits)
  have "\<forall>g \<in> set (live_grants ?G f). \<not> (g_MRID g \<noteq> except \<and> grant_Overlaps g w)"
    using ng by (simp only: gs fst_Live find_None_all)
  then show "\<forall>g \<in> set (live_grants ?G f). g_MRID g \<noteq> except \<longrightarrow>
           \<not> (\<exists>t. g_covers g t \<and> covers w t)"
    using live_grants_wf [OF assms(3)] grant_Overlaps_iff assms(4) by metis
  have "\<forall>c \<in> set (filter (is_plain ?G f) ?C). \<not> window_Overlaps (c_Window c) w"
    using nc by (simp only: gs cs snd_Live find_None_all)
  then show "\<forall>c \<in> set ?C. is_plain ?G f c \<longrightarrow> \<not> (\<exists>t. covers (c_Window c) t \<and> covers w t)"
    using assms(3,4) by (simp add: wf_stores_def wf_control_def window_Overlaps_iff)
qed

lemma checkPlain_passed:
  assumes "inv s" and "checkPlain l p s = (Inr (), s')" and "wf_stores (grants_of s) C" and "wf_window (p_Window p)"
    and "g \<in> set (live_grants (grants_of s) (p_FleetKey p))"
  shows "\<not> (\<exists>t. g_covers g t \<and> covers (p_Window p) t)"
proof (cases "Duration (p_Window p) = 0")
  case True
  then show ?thesis by (auto simp: covers_def)
next
  case False
  with assms(2) obtain gs s1 where gs: "GrantsInFleet (l_grants l) (p_FleetKey p) s = (Inr gs, s1)"
    and n: "find (\<lambda>g. grant_Overlaps g (p_Window p)) (fst (Live gs [])) = None"
    by (auto simp: checkPlain_def io_bind_Inr split: option.splits)
  from GrantsInFleet_law [OF assms(1) gs] have "gs = filter (in_fleet (p_FleetKey p)) (grants_of s)" by auto
  with n assms(5) have "\<not> grant_Overlaps g (p_Window p)" by (simp add: fst_Live find_None_all)
  with live_grants_wf [OF assms(3,5)] assms(4) show ?thesis by (auto simp: grant_Overlaps_iff)
qed

lemma checkExecution_passed:
  assumes "checkExecution l p s = (Inr (), s')" and "wf_stores (grants_of s) (controls_of s)"
    and "wf_window (p_Window p)" and "p_Reach p < 2 ^ 31" and inv: "inv s"
  obtains g where "find (\<lambda>g. g_MRID g = p_GrantMRID p) (grants_of s) = Some g"
    and "1 \<le> p_Reach p" and "Duration (p_Window p) \<noteq> 0"
    and "fits_bounds g (map (superseded_clip p) (executions_of (controls_of s) (g_MRID g))
           @ [proposed_control g p])"
proof -
  let ?ex = "\<lambda>cs. map (superseded_clip p) (filter (\<lambda>c. \<not> c_Cancelled c) cs)"
  from assms(1) obtain g s1 cs s2 where r: "1 \<le> p_Reach p"
    and g: "GrantByMRID (l_grants l) (p_GrantMRID p) s = (Inr g, s1)"
    and e: "ExecutionsOf (l_controls l) (g_MRID g) s1 = (Inr cs, s2)"
    and fit: "FitsGrant g (?ex cs) (Some (proposed_control g p)) = None"
    by (auto simp: checkExecution_def io_bind_Inr Let_def split: if_splits)
  from GrantByMRID_law [OF inv g] have f: "find (\<lambda>g. g_MRID g = p_GrantMRID p) (grants_of s) = Some g"
    and k: "s1 = s" by auto
  from ExecutionsOf_law [OF inv e [unfolded k]] have cs: "cs = filter (\<lambda>c. c_GrantMRID c = g_MRID g) (controls_of s)"
    by auto
  have ex: "?ex cs = map (superseded_clip p) (executions_of (controls_of s) (g_MRID g))"
    by (simp add: cs executions_of_def conj_commute)
  have wg: "wf_grant g" using f assms(2) by (auto simp: wf_stores_def find_Some_iff)
  have "wf_control (superseded_clip p c)" if "wf_control c" for c
    using that by (auto simp: superseded_clip_def wf_control_def ClipAt_wf)
  then have "\<forall>c \<in> set (with_proposal (?ex cs) (Some (proposed_control g p))). wf_control c"
    using assms(2,3,4) r by (auto simp: cs wf_stores_def wf_control_def proposed_control_def)
  from fit [unfolded FitsGrant_None [OF wg this]] show thesis
    by (intro that [OF f r]) (simp_all add: ex proposed_control_def)
qed

lemma CheckControl_split:
  assumes "CheckControl l v p s = (Inr (), s')"
  shows "guard v (p_FleetKey p) = None"
    and "p_GrantMRID p = [] \<Longrightarrow> checkPlain l p s = (Inr (), s')"
    and "p_GrantMRID p \<noteq> [] \<Longrightarrow> checkExecution l p s = (Inr (), s')"
  using assms by (auto simp: CheckControl_def io_bind_Inr split: if_splits)

text \<open>A grant stored after its check passed keeps the rule of its fleet.\<close>

lemma CheckGrant_keeps_rule:
  assumes inv: "inv s" and "fleet_rule (grants_of s) (controls_of s) f"
    and "wf_stores (grants_of s) (controls_of s)"
    and "CheckGrant l v f (Some w) except s = (Inr (), s')"
    and "g_Window g = Some w" and "wf_window w"
    and "set G' = insert g (set (grants_of s'))"
    and "\<forall>c \<in> set (controls_of s). c_GrantMRID c \<noteq> g_MRID g"
    and "\<forall>h \<in> set (grants_of s). g_MRID h \<noteq> except"
  shows "fleet_rule G' (controls_of s') f"
proof -
  note assms = assms(2-)
  have same: "s' = s" using CheckGrant_reads [OF inv] assms(3) by blast
  have gc: "g_covers g t \<longleftrightarrow> covers w t" for t by (simp add: g_covers_def assms(4))
  have ex: "h \<in> set (live_grants (grants_of s) f) \<Longrightarrow> g_MRID h \<noteq> except" for h
    using assms(8) by (auto simp: live_grants_def)
  show ?thesis
  proof (cases "Duration w = 0")
    case True
    then have "\<not> g_covers g t" for t by (simp add: gc covers_def)
    then show ?thesis
      using fleet_rule_add_grant [OF assms(1), of G' g] assms(6,7) by (simp add: same)
  next
    case False
    note pass = CheckGrant_passed [OF assms(3) False assms(2,5) inv]
    show ?thesis
      using fleet_rule_add_grant [OF assms(1), of G' g] assms(6,7) pass(2,3) ex
      by (auto simp: same gc)
  qed
qed

text \<open>
  A control stored after its check passed, with the controls it supersedes cut at its start,
  keeps the rule of its fleet.
\<close>

lemma CheckControl_keeps_rule:
  assumes inv: "inv s" and rule: "fleet_rule (grants_of s) (controls_of s) (p_FleetKey p)"
    and wf: "wf_stores (grants_of s) (controls_of s)" "wf_window (p_Window p)" "p_Reach p < 2 ^ 31"
    and pass: "CheckControl l v p s = (Inr (), s')"
    and new: "mset C' = mset (map (superseded_clip p) (controls_of s)) + {#c#}"
    and c: "c_Window c = p_Window p" "c_GrantMRID c = p_GrantMRID p" "c_FleetKey c = p_FleetKey p"
      "c_TargetW c = p_TargetW p" "c_Reach c = p_Reach p"
  shows "fleet_rule (grants_of s) C' (p_FleetKey p)"
proof (cases "p_GrantMRID p = []")
  case True
  note chk = CheckControl_split(2) [OF pass True]
  show ?thesis
    by (rule fleet_rule_add_control [OF rule wf(1) new])
      (use checkPlain_passed [OF inv chk wf(1,2)] c True in auto)
next
  case False
  let ?G = "grants_of s"
  obtain g where g: "find (\<lambda>g. g_MRID g = p_GrantMRID p) ?G = Some g"
    and fit: "fits_bounds g (map (superseded_clip p) (executions_of (controls_of s) (g_MRID g))
           @ [proposed_control g p])"
    using checkExecution_passed [OF CheckControl_split(3) [OF pass False] wf inv] by blast
  from g have gm: "g \<in> set ?G" "g_MRID g = p_GrantMRID p" by (auto simp: find_Some_iff)
  have "execution_ok g (proposed_control g p)" using fit by (simp add: fits_bounds_def)
  then have "g_FleetKey g = p_FleetKey p"
    by (auto simp: execution_ok_def proposed_control_def split: option.splits)
  moreover have "live_grant g" "case g_Window g of None \<Rightarrow> False | Some w \<Rightarrow> Duration w > 0"
    using fit by (auto simp: fits_bounds_def live_grant_def executable_def word_greater_zero_iff
        split: option.splits)
  ultimately have gl: "g \<in> set (live_grants ?G (p_FleetKey p))"
    using gm by (auto simp: live_grants_def in_fleet_def)
  have "list_all2 shortened [c] [proposed_control g p]"
    by (simp add: shortened_def c proposed_control_def)
  then have sh: "list_all2 shortened
      (map (superseded_clip p) (executions_of (controls_of s) (g_MRID g)) @ [c])
      (map (superseded_clip p) (executions_of (controls_of s) (g_MRID g)) @ [proposed_control g p])"
    by (intro list_all2_appendI list_all2_refl) simp_all
  have pos: "0 \<le> p_Reach p"
    using checkExecution_passed [OF CheckControl_split(3) [OF pass False] wf inv] by force
  have "fits_bounds g (map (superseded_clip p) (executions_of (controls_of s) (g_MRID g)) @ [c])"
    by (rule shortened_fits [OF sh _ fit])
      (use wf(1) pos in \<open>auto simp: wf_stores_def wf_control_def executions_of_def proposed_control_def\<close>)
  moreover have "h = g" if "h \<in> set (live_grants ?G (p_FleetKey p))" "g_MRID h = p_GrantMRID p" for h
    using live_grants_MRID_inj [OF wf(1) that(1) gl] that gm by simp
  moreover have "\<not> is_plain ?G (p_FleetKey p) c"
    using imageI [OF gl, of g_MRID] gm(2) False by (simp add: is_plain_def c)
  ultimately show ?thesis
    by (intro fleet_rule_add_control [OF rule wf(1) new]) (auto simp: c)
qed

text \<open>The rule of another fleet is kept as well.\<close>

lemma CheckControl_keeps_other:
  assumes inv: "inv s" and rule: "fleet_rule (grants_of s) (controls_of s) f" and other: "f \<noteq> p_FleetKey p"
    and wf: "wf_stores (grants_of s) (controls_of s)" "wf_window (p_Window p)" "p_Reach p < 2 ^ 31"
    and pass: "CheckControl l v p s = (Inr (), s')"
    and new: "mset C' = mset (map (superseded_clip p) (controls_of s)) + {#c#}"
    and c: "c_GrantMRID c = p_GrantMRID p" "c_FleetKey c = p_FleetKey p"
  shows "fleet_rule (grants_of s) C' f"
proof (rule fleet_rule_add_control [OF rule wf(1) new])
  fix g assume m: "c_GrantMRID c = g_MRID g" "g_MRID g \<noteq> []" and g: "g \<in> set (live_grants (grants_of s) f)"
  then have ne: "p_GrantMRID p \<noteq> []" using c by simp
  obtain h where h: "find (\<lambda>g. g_MRID g = p_GrantMRID p) (grants_of s) = Some h"
    and fit: "fits_bounds h (map (superseded_clip p) (executions_of (controls_of s) (g_MRID h)) @ [proposed_control h p])"
    using checkExecution_passed [OF CheckControl_split(3) [OF pass ne] wf inv] by blast
  from h have hm: "h \<in> set (grants_of s)" "g_MRID h = p_GrantMRID p" by (auto simp: find_Some_iff)
  moreover have "g \<in> set (grants_of s)" "g_FleetKey g = f" using g by (auto simp: live_grants_def in_fleet_def)
  ultimately have "h = g" using wf(1) m(1) c(1) by (auto simp: wf_stores_def distinct_map dest: inj_onD)
  moreover have "g_FleetKey h = p_FleetKey p"
    using fit by (auto simp: fits_bounds_def execution_ok_def proposed_control_def split: option.splits)
  ultimately show "fits_bounds g (map (superseded_clip p) (executions_of (controls_of s) (g_MRID g)) @ [c])"
    using \<open>g_FleetKey g = f\<close> other by simp
qed (use c other in \<open>auto simp: is_plain_def\<close>)

end

lemma fleet_rule_mset:
  assumes "mset C = mset C'"
  shows "fleet_rule G C f \<longleftrightarrow> fleet_rule G C' f"
proof -
  have ex: "mset (executions_of C m) = mset (executions_of C' m)" for m by (simp add: mset_executions_of assms)
  then have "executions_of C m = [] \<longleftrightarrow> executions_of C' m = []" for m by (metis mset_zero_iff_right)
  moreover have "fits_bounds g (executions_of C m) \<longleftrightarrow> fits_bounds g (executions_of C' m)" for g m
    using fits_bounds_mset [OF ex] fits_bounds_mset [OF ex [symmetric]] by blast
  moreover have "set C = set C'" using assms by (rule mset_eq_setD)
  ultimately show ?thesis by (simp add: fleet_rule_def)
qed

lemma wf_stores_mset: "mset C = mset C' \<Longrightarrow> wf_stores G C = wf_stores G C'"
  by (simp add: wf_stores_def mset_eq_setD [of C C'])

end
