(* ===== verification/GoText.thy ===== *)
theory GoText
  imports Prelude
begin

text \<open>
  The parts of Go's \<open>fmt\<close>, \<open>encoding/hex\<close> and \<open>unicode/utf8\<close> the issuer uses, with
  \<open>internal/dercontrol/id.go\<close> and \<open>internal/mrid/mrid.go\<close>, which are built on them: the store
  id of a control and the mRID it carries.
\<close>

section \<open>Decimal and hexadecimal text\<close>

definition digit_char :: "nat \<Rightarrow> char" where
  "digit_char d = char_of (48 + d)"

text \<open>The last \<open>w\<close> decimal digits of a number, and the number of digits it needs.\<close>

primrec digits :: "nat \<Rightarrow> nat \<Rightarrow> string" where
  "digits 0 n = []"
| "digits (Suc w) n = digits w (n div 10) @ [digit_char (n mod 10)]"

fun width10 :: "nat \<Rightarrow> nat" where
  "width10 n = (if n < 10 then 1 else Suc (width10 (n div 10)))"

declare width10.simps [simp del]

text \<open>\<open>fmt.Sprintf("%011d", n)\<close>\<close>

definition fmt_d11 :: "int \<Rightarrow> string" where
  "fmt_d11 n =
     (if n < 0 then CHR ''-'' # digits (max 10 (width10 (nat (- n)))) (nat (- n))
      else digits (max 11 (width10 (nat n))) (nat n))"

definition hexValue :: "char \<Rightarrow> nat" where
  "hexValue c =
     (let b = of_char c :: nat
      in if 48 \<le> b \<and> b \<le> 57 then b - 48
         else if 65 \<le> b \<and> b \<le> 70 then b - 65 + 10
         else if 97 \<le> b \<and> b \<le> 102 then b - 97 + 10
         else 0)"

definition hexDigit :: "nat \<Rightarrow> char" where
  "hexDigit v = (if v < 10 then char_of (48 + v) else char_of (65 + (v - 10)))"

definition invertHex :: "string \<Rightarrow> string" where
  "invertHex m = map (\<lambda>c. hexDigit (15 - hexValue c)) m"

definition idBase :: int where
  "idBase = 100000000000"

definition sortableID :: "int \<Rightarrow> int \<Rightarrow> string \<Rightarrow> string" where
  "sortableID start creationTime m =
     fmt_d11 start @ fmt_d11 (wrap64 (idBase - 1 - creationTime)) @ invertHex m"

section \<open>UTF-8\<close>

text \<open>\<open>utf8.ValidString\<close>: the well-formed byte sequences of the Unicode standard.\<close>

definition in_range :: "nat \<Rightarrow> nat \<Rightarrow> char \<Rightarrow> bool" where
  "in_range lo hi c \<longleftrightarrow> lo \<le> of_char c \<and> of_char c \<le> hi"

abbreviation (input) cont :: "char \<Rightarrow> bool" where "cont \<equiv> in_range 0x80 0xBF"

definition utf8_second :: "char \<Rightarrow> char \<Rightarrow> bool" where
  "utf8_second a b =
     in_range (if of_char a = (0xE0 :: nat) then 0xA0 else if of_char a = (0xF0 :: nat) then 0x90 else 0x80)
       (if of_char a = (0xED :: nat) then 0x9F else if of_char a = (0xF4 :: nat) then 0x8F else 0xBF) b"

fun utf8_ValidString :: "string \<Rightarrow> bool" where
  "utf8_ValidString [] = True"
| "utf8_ValidString (a # s) =
     (if in_range 0 0x7F a then utf8_ValidString s
      else if in_range 0xC2 0xDF a
      then (case s of b # s2 \<Rightarrow> cont b \<and> utf8_ValidString s2 | _ \<Rightarrow> False)
      else if in_range 0xE0 0xEF a
      then (case s of b # c # s2 \<Rightarrow> utf8_second a b \<and> cont c \<and> utf8_ValidString s2 | _ \<Rightarrow> False)
      else if in_range 0xF0 0xF4 a
      then (case s of b # c # d # s2 \<Rightarrow> utf8_second a b \<and> cont c \<and> cont d \<and> utf8_ValidString s2 | _ \<Rightarrow> False)
      else False)"

section \<open>Order of the store ids\<close>

lemma length_digits [simp]: "length (digits w n) = w"
  by (induction w arbitrary: n) simp_all

lemma less_append_same_length:
  fixes u v :: "'a :: linorder list"
  shows "length u = length v \<Longrightarrow> u @ x < v @ y \<longleftrightarrow> u < v \<or> u = v \<and> x < y"
  by (induction u v rule: list_induct2) auto

lemma less_char_of: "m < 256 \<Longrightarrow> n < 256 \<Longrightarrow> (char_of m :: char) < char_of n \<longleftrightarrow> m < (n :: nat)"
  by (simp add: less_char_def)

lemma digit_char_less: "a < 10 \<Longrightarrow> b < 10 \<Longrightarrow> digit_char a < digit_char b \<longleftrightarrow> a < b"
  by (simp add: digit_char_def less_char_of)

lemma digit_char_eq: "a < 10 \<Longrightarrow> b < 10 \<Longrightarrow> digit_char a = digit_char b \<longleftrightarrow> a = b"
  using digit_char_less [of a b] digit_char_less [of b a] by (metis less_irrefl linorder_neqE_nat)

lemma digits_eq: "m < 10 ^ w \<Longrightarrow> n < 10 ^ w \<Longrightarrow> digits w m = digits w n \<longleftrightarrow> m = n"
proof (induction w arbitrary: m n)
  case (Suc w)
  then have "m div 10 < 10 ^ w" "n div 10 < 10 ^ w" by (simp_all add: less_mult_imp_div_less mult.commute)
  with Suc.IH show ?case by (auto simp: digit_char_eq) (metis div_mult_mod_eq)
qed simp

lemma less_by_digit:
  fixes m n :: nat
  shows "m div 10 < n div 10 \<or> m div 10 = n div 10 \<and> m mod 10 < n mod 10 \<longleftrightarrow> m < n"
proof -
  have "m = 10 * (m div 10) + m mod 10" "n = 10 * (n div 10) + n mod 10" by simp_all
  moreover have "m mod 10 < 10" "n mod 10 < 10" by simp_all
  ultimately show ?thesis by linarith
qed

lemma digits_less: "m < 10 ^ w \<Longrightarrow> n < 10 ^ w \<Longrightarrow> digits w m < digits w n \<longleftrightarrow> m < n"
proof (induction w arbitrary: m n)
  case (Suc w)
  then have d: "m div 10 < 10 ^ w" "n div 10 < 10 ^ w" by (simp_all add: less_mult_imp_div_less mult.commute)
  have "digits (Suc w) m < digits (Suc w) n \<longleftrightarrow>
      m div 10 < n div 10 \<or> m div 10 = n div 10 \<and> m mod 10 < n mod 10"
    using d Suc.IH by (simp add: less_append_same_length digits_eq digit_char_less)
  also have "\<dots> \<longleftrightarrow> m < n" by (rule less_by_digit)
  finally show ?case .
qed simp

lemma width10_le: "n < 10 ^ Suc w \<Longrightarrow> width10 n \<le> Suc w"
proof (induction w arbitrary: n)
  case 0
  then show ?case by (simp add: width10.simps)
next
  case (Suc w)
  then have "n div 10 < 10 ^ Suc w" by (simp add: less_mult_imp_div_less mult.commute)
  with Suc.IH show ?case by (subst width10.simps) simp
qed

lemma fmt_d11_in_range:
  assumes "0 \<le> n" and "n < idBase"
  shows "fmt_d11 n = digits 11 (nat n)" and "nat n < 10 ^ 11"
proof -
  show b: "nat n < 10 ^ 11" using assms by (simp add: idBase_def)
  have "width10 (nat n) \<le> 11" using width10_le [of "nat n" 10] b by simp
  then show "fmt_d11 n = digits 11 (nat n)" using assms by (simp add: fmt_d11_def max_absorb1)
qed

definition upper_hex :: "char \<Rightarrow> bool" where
  "upper_hex c \<longleftrightarrow> (let b = of_char c :: nat in 48 \<le> b \<and> b \<le> 57 \<or> 65 \<le> b \<and> b \<le> 70)"

lemma hexValue_less16: "upper_hex c \<Longrightarrow> hexValue c < 16"
  by (auto simp: upper_hex_def hexValue_def Let_def)

lemma hexValue_mono:
  "upper_hex c \<Longrightarrow> upper_hex d \<Longrightarrow> c < d \<longleftrightarrow> hexValue c < hexValue d"
  by (auto simp: upper_hex_def hexValue_def Let_def less_char_def)

lemma hexDigit_less: "v < 16 \<Longrightarrow> w < 16 \<Longrightarrow> hexDigit v < hexDigit w \<longleftrightarrow> v < w"
  by (auto simp: hexDigit_def less_char_of)

lemma invertHex_char:
  assumes "upper_hex c" and "upper_hex d"
  shows "hexDigit (15 - hexValue c) < hexDigit (15 - hexValue d) \<longleftrightarrow> d < c"
proof -
  have "hexValue c < 16" "hexValue d < 16" using assms hexValue_less16 by auto
  then show ?thesis
    by (subst hexDigit_less) (auto simp: hexValue_mono [OF assms(2) assms(1)])
qed

lemma invertHex_less:
  "length m = length n \<Longrightarrow> list_all upper_hex m \<Longrightarrow> list_all upper_hex n \<Longrightarrow>
   invertHex m < invertHex n \<longleftrightarrow> n < m"
proof (induction m n rule: list_induct2)
  case (Cons c m d n)
  then have u: "upper_hex c" "upper_hex d" by simp_all
  have "hexDigit (15 - hexValue c) = hexDigit (15 - hexValue d) \<longleftrightarrow> c = d"
    using invertHex_char [OF u] invertHex_char [OF u(2) u(1)] by (metis less_irrefl neq_iff)
  with Cons invertHex_char [OF u] show ?case by (auto simp: invertHex_def)
qed (simp add: invertHex_def)

lemma sortableID_less:
  assumes "0 \<le> s" "s < idBase" "0 \<le> s'" "s' < idBase"
    and "0 \<le> c" "c < idBase" "0 \<le> c'" "c' < idBase"
    and "list_all upper_hex m" "list_all upper_hex m'" "length m = length m'"
  shows "sortableID s c m < sortableID s' c' m' \<longleftrightarrow>
     s < s' \<or> s = s' \<and> (c > c' \<or> c = c' \<and> m > m')"
proof -
  have w: "wrap64 (idBase - 1 - x) = idBase - 1 - x" if "0 \<le> x" "x < idBase" for x
    using that by (intro wrap64_id) (simp add: is_int64_def idBase_def)
  have r: "0 \<le> idBase - 1 - x" "idBase - 1 - x < idBase" if "0 \<le> x" "x < idBase" for x using that by auto
  note f = fmt_d11_in_range
  note ds = digits_less [OF f(2) f(2)] digits_eq [OF f(2) f(2)]
  have "sortableID s c m < sortableID s' c' m' \<longleftrightarrow>
      digits 11 (nat s) < digits 11 (nat s') \<or> digits 11 (nat s) = digits 11 (nat s') \<and>
      (digits 11 (nat (idBase - 1 - c)) < digits 11 (nat (idBase - 1 - c')) \<or>
        digits 11 (nat (idBase - 1 - c)) = digits 11 (nat (idBase - 1 - c')) \<and>
        invertHex m < invertHex m')"
    unfolding sortableID_def w [OF assms(5,6)] w [OF assms(7,8)]
      f(1) [OF assms(1,2)] f(1) [OF assms(3,4)] f(1) [OF r [OF assms(5,6)]] f(1) [OF r [OF assms(7,8)]]
    by (simp only: less_append_same_length length_digits)
  also have "\<dots> \<longleftrightarrow> nat s < nat s' \<or> nat s = nat s' \<and>
      (nat (idBase - 1 - c) < nat (idBase - 1 - c') \<or>
        nat (idBase - 1 - c) = nat (idBase - 1 - c') \<and> invertHex m < invertHex m')"
    by (simp only: ds [OF assms(1-4)] ds [OF r [OF assms(5,6)] r [OF assms(7,8)]])
  also have "\<dots> \<longleftrightarrow> s < s' \<or> s = s' \<and> (c > c' \<or> c = c' \<and> m > m')"
    using assms invertHex_less [of m m'] by auto
  finally show ?thesis .
qed

section \<open>mRIDs\<close>

text \<open>
  \<open>randRead\<close> is the randomness source, an argument of the code: \<open>randRead n\<close> fills \<open>n\<close> bytes
  or fails. The retry loop has no bound of its own, so it is a partial function whose value
  \<open>None\<close> is a call that never returns.
\<close>

definition IsAllFF :: "8 word list \<Rightarrow> bool" where
  "IsAllFF b \<longleftrightarrow> list_all (\<lambda>v. v = 0xFF) b"

partial_function (option) draw ::
    "(nat \<Rightarrow> ('e, 's, 8 word list) io) \<Rightarrow> nat \<Rightarrow> 's \<Rightarrow> (('e + 8 word list) \<times> 's) option" where
  "draw randRead n s =
     (case randRead n s of
        (Inl e, t) \<Rightarrow> Some (Inl e, t)
      | (Inr b, t) \<Rightarrow> if \<not> IsAllFF b then Some (Inr b, t) else draw randRead n t)"

declare draw.simps [code]

definition hex_byte :: "8 word \<Rightarrow> string" where
  "hex_byte b = [hexDigit (unat b div 16), hexDigit (unat b mod 16)]"

text \<open>\<open>strings.ToUpper(hex.EncodeToString(b))\<close>\<close>

definition upper_hex_of :: "8 word list \<Rightarrow> string" where
  "upper_hex_of b = concat (map hex_byte b)"

definition PutUint32 :: "32 word \<Rightarrow> 8 word list" where
  "PutUint32 v = map (\<lambda>k. word_of_nat (unat v div 256 ^ k mod 256)) [3, 2, 1, 0]"

definition mrid_New ::
    "(nat \<Rightarrow> ('e, 's, 8 word list) io) \<Rightarrow> 32 word option \<Rightarrow> 's \<Rightarrow> (('e + string) \<times> 's) option" where
  "mrid_New randRead pen s =
     (let hasPEN = (case pen of None \<Rightarrow> False | Some p \<Rightarrow> p \<noteq> 0);
          n = (if hasPEN then 12 else 16)
      in case draw randRead n s of
           None \<Rightarrow> None
         | Some (Inl e, t) \<Rightarrow> Some (Inl e, t)
         | Some (Inr b, t) \<Rightarrow>
             Some (Inr (upper_hex_of (b @ (if hasPEN then PutUint32 (the pen) else []))), t))"

text \<open>The states a run of failed draws passes through.\<close>

primrec after_draws :: "(nat \<Rightarrow> ('e, 's, 8 word list) io) \<Rightarrow> nat \<Rightarrow> nat \<Rightarrow> 's \<Rightarrow> 's" where
  "after_draws randRead n 0 s = s"
| "after_draws randRead n (Suc k) s = after_draws randRead n k (snd (randRead n s))"

definition all_ff_draw :: "(nat \<Rightarrow> ('e, 's, 8 word list) io) \<Rightarrow> nat \<Rightarrow> 's \<Rightarrow> bool" where
  "all_ff_draw randRead n s = (case fst (randRead n s) of Inl _ \<Rightarrow> False | Inr b \<Rightarrow> IsAllFF b)"

lemma draw_returns:
  assumes "\<not> all_ff_draw randRead n (after_draws randRead n k s)"
  shows "\<exists>r. draw randRead n s = Some r"
  using assms
proof (induction k arbitrary: s)
  case 0
  then show ?case
    by (subst draw.simps) (auto simp: all_ff_draw_def split: prod.splits sum.splits)
next
  case (Suc k)
  obtain r t where rt: "randRead n s = (r, t)" by fastforce
  with Suc.prems have "\<not> all_ff_draw randRead n (after_draws randRead n k t)" by simp
  from Suc.IH [OF this] show ?case
    by (subst draw.simps) (auto simp: rt split: sum.splits)
qed

definition drew :: "(nat \<Rightarrow> ('e, 's, 8 word list) io) \<Rightarrow> nat \<Rightarrow> ('e + 8 word list) \<Rightarrow> bool" where
  "drew randRead n r \<longleftrightarrow>
     (\<exists>u v. randRead n u = (r, v)) \<and> (case r of Inl _ \<Rightarrow> True | Inr b \<Rightarrow> \<not> IsAllFF b)"

lemma draw_result: "draw randRead n s = Some y \<Longrightarrow> drew randRead n (fst y)"
proof (rule draw.raw_induct [where P = "\<lambda>rd n s y. drew rd n (fst y)"])
  fix f rd k u y
  assume IH: "\<And>rd k u y. f rd k u = Some y \<Longrightarrow> drew rd k (fst y)"
    and y: "(case rd k u of (Inl e, t) \<Rightarrow> Some (Inl e, t)
      | (Inr b, t) \<Rightarrow> if \<not> IsAllFF b then Some (Inr b, t) else f rd k t) = Some y"
  obtain r t where rt: "rd k u = (r, t)" by fastforce
  then have drawn: "\<exists>u v. rd k u = (r, v)" by blast
  consider "r = fst y" "\<forall>b. r = Inr b \<longrightarrow> \<not> IsAllFF b" | "f rd k t = Some y"
  proof (cases "\<exists>b. r = Inr b \<and> IsAllFF b")
    case True
    with y that(2) show ?thesis by (auto simp: rt)
  next
    case False
    with y have "y = (r, t)" by (cases r) (simp_all add: rt)
    with False that(1) show ?thesis by simp
  qed
  then show "drew rd k (fst y)"
  proof cases
    case 1
    with drawn show ?thesis by (simp add: drew_def split: sum.split)
  qed (rule IH)
qed

lemma length_upper_hex_of [simp]: "length (upper_hex_of b) = 2 * length b"
  by (induction b) (simp_all add: upper_hex_of_def hex_byte_def)

lemma upper_hex_hexDigit: "v < 16 \<Longrightarrow> upper_hex (hexDigit v)"
  by (simp add: upper_hex_def hexDigit_def)

lemma upper_hex_upper_hex_of: "list_all upper_hex (upper_hex_of b)"
proof (induction b)
  case (Cons v b)
  have "unat v < 256" using unsigned_less [of v, where ?'a = nat] by simp
  with Cons show ?case by (simp add: upper_hex_of_def hex_byte_def upper_hex_hexDigit)
qed (simp add: upper_hex_of_def)

lemma hexValue_hexDigit: "v < 16 \<Longrightarrow> hexValue (hexDigit v) = v"
  by (auto simp: hexValue_def hexDigit_def Let_def)

lemma hexDigit_inj: "hexDigit v = hexDigit w \<Longrightarrow> v < 16 \<Longrightarrow> w < 16 \<Longrightarrow> v = w"
  by (metis hexValue_hexDigit)

lemma upper_hex_of_inj: "upper_hex_of b = upper_hex_of c \<Longrightarrow> b = c"
proof (induction b arbitrary: c)
  case Nil
  then show ?case by (cases c) (simp_all add: upper_hex_of_def hex_byte_def)
next
  case (Cons v b)
  then obtain w d where c: "c = w # d" by (cases c) (auto simp: upper_hex_of_def hex_byte_def)
  have lt: "unat v < 256" "unat w < 256" using unsigned_less [of v, where ?'a = nat] unsigned_less [of w, where ?'a = nat] by simp_all
  from Cons.prems c have "hexDigit (unat v div 16) = hexDigit (unat w div 16)"
    "hexDigit (unat v mod 16) = hexDigit (unat w mod 16)" and rest: "upper_hex_of b = upper_hex_of d"
    by (simp_all add: upper_hex_of_def hex_byte_def)
  then have "unat v div 16 = unat w div 16" "unat v mod 16 = unat w mod 16"
    using lt by (auto intro: hexDigit_inj)
  then have "unat v = unat w"
    using div_mult_mod_eq [of "unat v" 16] div_mult_mod_eq [of "unat w" 16] by argo
  with Cons.IH [OF rest] c show ?case by (simp add: word_unat_eq_iff)
qed

lemma char_of_F: "char_of (70 :: nat) = CHR ''F''"
  by code_simp

lemma upper_hex_of_FF: "upper_hex_of (replicate n 0xFF) = replicate (2 * n) (CHR ''F'')"
  by (induction n) (simp_all add: upper_hex_of_def hex_byte_def hexDigit_def char_of_F)

lemma IsAllFF_iff: "IsAllFF b \<longleftrightarrow> upper_hex_of b = replicate (2 * length b) (CHR ''F'')"
proof
  assume "IsAllFF b"
  then have "b = replicate (length b) 0xFF"
    by (intro replicate_eqI) (auto simp: IsAllFF_def list_all_iff)
  then show "upper_hex_of b = replicate (2 * length b) (CHR ''F'')"
    using upper_hex_of_FF [of "length b"] by simp
next
  assume "upper_hex_of b = replicate (2 * length b) (CHR ''F'')"
  then have "b = replicate (length b) 0xFF"
    by (intro upper_hex_of_inj) (simp only: upper_hex_of_FF)
  then have "set b \<subseteq> {0xFF}" by (metis set_replicate_conv_if subset_insertI2 subset_refl empty_subsetI)
  then show "IsAllFF b" by (auto simp: IsAllFF_def list_all_iff)
qed

section \<open>Properties\<close>

text \<open>
  C21: the store id of a control. For instants within the eleven digits and equally long
  upper-case mRIDs, ascending byte order of the ids is the order of the standard's event list:
  start ascending, then creation time descending, then mRID descending.
\<close>

theorem sortableID_orders_controls:
  assumes "0 \<le> s" "s < idBase" "0 \<le> s'" "s' < idBase"
    and "0 \<le> c" "c < idBase" "0 \<le> c'" "c' < idBase"
    and "list_all upper_hex m" "list_all upper_hex m'" "length m = length m'"
  shows "sortableID s c m < sortableID s' c' m' \<longleftrightarrow>
     s < s' \<or> s = s' \<and> (c > c' \<or> c = c' \<and> m > m')"
  by (rule sortableID_less [OF assms])

theorem sortableID_orders_controls_witness:
  "sortableID 100 50 ''00AF'' < sortableID 100 50 ''00AE'' \<and> ''00AF'' > ''00AE''"
  using sortableID_orders_controls [of 100 100 50 50 "''00AF''" "''00AE''"]
  by (simp add: idBase_def upper_hex_def)

text \<open>\<open>crypto/rand\<close>'s contract: a read that succeeds fills the whole buffer.\<close>

definition full_reads :: "(nat \<Rightarrow> ('e, 's, 8 word list) io) \<Rightarrow> bool" where
  "full_reads randRead \<longleftrightarrow> (\<forall>n s b t. randRead n s = (Inr b, t) \<longrightarrow> length b = n)"

definition drawn :: "32 word option \<Rightarrow> nat" where
  "drawn pen = (if pen = None \<or> pen = Some 0 then 16 else 12)"

lemma drawn_hasPEN: "(case pen of None \<Rightarrow> False | Some p \<Rightarrow> p \<noteq> 0) \<longleftrightarrow> drawn pen = 12"
  and drawn_cases: "drawn pen = 12 \<or> drawn pen = 16"
  by (auto simp: drawn_def split: option.splits)

lemma mrid_New_draw:
  "mrid_New randRead pen s =
     (case draw randRead (drawn pen) s of
        None \<Rightarrow> None
      | Some (Inl e, t) \<Rightarrow> Some (Inl e, t)
      | Some (Inr b, t) \<Rightarrow>
          Some (Inr (upper_hex_of b @ (if drawn pen = 12 then upper_hex_of (PutUint32 (the pen)) else [])), t))"
  using drawn_cases [of pen]
  by (auto simp: mrid_New_def Let_def drawn_hasPEN upper_hex_of_def split: option.splits sum.splits)

text \<open>
  C22: minting an mRID returns as soon as one draw is not the reserved form. The result is then
  32 upper-case hexadecimal digits whose random part is not all F and whose last eight digits
  are the configured enterprise number, if there is one; an error is the source's own.
\<close>

theorem mrid_New_mints:
  fixes randRead :: "nat \<Rightarrow> ('e, 's, 8 word list) io"
  assumes "full_reads randRead"
    and "\<not> all_ff_draw randRead (drawn pen) (after_draws randRead (drawn pen) k s)"
  shows "\<exists>r t. mrid_New randRead pen s = Some (r, t) \<and>
    (case r of
       Inl e \<Rightarrow> \<exists>u v. randRead (drawn pen) u = (Inl e, v)
     | Inr m \<Rightarrow>
         length m = 32 \<and> list_all upper_hex m \<and>
         take (2 * drawn pen) m \<noteq> replicate (2 * drawn pen) (CHR ''F'') \<and>
         (drawn pen = 12 \<longrightarrow> drop 24 m = upper_hex_of (PutUint32 (the pen))))"
proof -
  obtain r t where d: "draw randRead (drawn pen) s = Some (r, t)"
    using draw_returns [OF assms(2)] by fastforce
  show ?thesis
  proof (cases r)
    case (Inl e)
    with d draw_result [OF d] show ?thesis by (auto simp: mrid_New_draw drew_def)
  next
    case (Inr b)
    with draw_result [OF d] assms(1) have b: "\<not> IsAllFF b" "length b = drawn pen"
      by (auto simp: full_reads_def drew_def)
    have "length (PutUint32 p) = 4" for p by (simp add: PutUint32_def)
    with b IsAllFF_iff [of b] drawn_cases [of pen] show ?thesis
      by (auto simp: mrid_New_draw d Inr upper_hex_upper_hex_of)
  qed
qed

text \<open>A source that first answers the reserved form and then counts.\<close>

definition sample_rand :: "nat \<Rightarrow> (unit, nat, 8 word list) io" where
  "sample_rand n s = (Inr (replicate n (if s = 0 then 0xFF else word_of_nat s)), Suc s)"

theorem mrid_New_mints_witness:
  "full_reads sample_rand \<and> all_ff_draw sample_rand 12 0 \<and>
   (\<exists>m t. mrid_New sample_rand (Some 40732) 0 = Some (Inr m, t) \<and> length m = 32)"
proof -
  have f: "full_reads sample_rand" by (auto simp: full_reads_def sample_rand_def)
  have a: "\<not> all_ff_draw sample_rand 12 (after_draws sample_rand 12 1 0)"
    by (simp add: all_ff_draw_def sample_rand_def IsAllFF_def list_all_iff)
  have "all_ff_draw sample_rand 12 0" by (simp add: all_ff_draw_def sample_rand_def IsAllFF_def list_all_iff)
  moreover have "\<nexists>e u v. sample_rand 12 u = (Inl e, v)" by (simp add: sample_rand_def)
  ultimately show ?thesis
    using mrid_New_mints [OF f, of "Some 40732" 1 0] a f by (fastforce simp: drawn_def split: sum.splits)
qed

end
