(* ===== verification/Issuer.thy ===== *)
theory Issuer
  imports ControlStores Ledger GoText
begin

text \<open>
  \<open>internal/dercontrol/dercontrol.go\<close>, \<open>issuer.go\<close>, \<open>link.go\<close>, \<open>retire.go\<close> and the copy
  writer of \<open>across.go\<close>: turning a request into a stored control with its lifecycle record,
  superseding, cancelling and relinking, and the undo of each failed write. The stores are the
  interfaces of the code, operations over a state \<open>'s\<close> kept in the \<open>Issuer\<close> record with the
  answers of their \<open>RollsBackOnFailure\<close>; the clock is an argument \<open>now\<close>, the context the
  error it reports. The scope locks are the subject of the theory on lock order. A request's
  \<open>Type\<close>, \<open>Functions\<close> and value members are its \<open>r_Body\<close>, which only \<open>buildBase\<close> reads; the
  catalog it builds from is the argument \<open>i_buildBase\<close>.
\<close>

section \<open>Configuration\<close>

record Config =
  c_PEN :: "32 word option"
  c_StartLead :: int
  c_MinDuration :: int
  c_MaxDuration :: int

abbreviation (input) Second :: int where "Second \<equiv> 1000000000"
abbreviation (input) DefaultStartLead :: int where "DefaultStartLead \<equiv> 7 * 24 * 3600 * Second"
abbreviation (input) DefaultMinDuration :: int where "DefaultMinDuration \<equiv> 60 * Second"
abbreviation (input) DefaultMaxDuration :: int where "DefaultMaxDuration \<equiv> 24 * 3600 * Second"

definition withDefaults :: "Config \<Rightarrow> Config" where
  "withDefaults c =
     (let c = (if c_StartLead c = 0 then c\<lparr>c_StartLead := DefaultStartLead\<rparr> else c);
          c = (if c_MinDuration c = 0 then c\<lparr>c_MinDuration := DefaultMinDuration\<rparr> else c)
      in if c_MaxDuration c = 0 then c\<lparr>c_MaxDuration := DefaultMaxDuration\<rparr> else c)"

definition validatePositiveWholeSeconds :: "int \<Rightarrow> err option" where
  "validatePositiveWholeSeconds d =
     (if d \<le> 0 then Some (Errorf ''dercontrol: bound must be positive'' [])
      else if d mod Second \<noteq> 0 then Some (Errorf ''dercontrol: bound must be a whole number of seconds'' [])
      else None)"

definition Config_validate :: "Config \<Rightarrow> err option" where
  "Config_validate c =
     (case validatePositiveWholeSeconds (c_StartLead c) of Some e \<Rightarrow> Some e | None \<Rightarrow>
      case validatePositiveWholeSeconds (c_MinDuration c) of Some e \<Rightarrow> Some e | None \<Rightarrow>
      case validatePositiveWholeSeconds (c_MaxDuration c) of Some e \<Rightarrow> Some e | None \<Rightarrow>
      if c_MinDuration c > c_MaxDuration c
      then Some (Errorf ''dercontrol: MinDuration exceeds MaxDuration'' []) else None)"

section \<open>Requests, fleets and the issuer\<close>

record 'f CreateRequest =
  r_DERProgramHref :: string
  r_Body :: 'f
  r_ExecutesGrant :: string
  r_Origin :: string
  r_Start :: "int option"
  r_DurationSeconds :: "32 word"
  r_Description :: string

record DERProgram =
  p_DERControlListLink :: "string option"

record IssueProposal =
  q_Scope :: Scope
  q_FleetKey :: string
  q_Window :: window
  q_GrantMRID :: string
  q_TargetW :: "active_power option"
  q_Reach :: int
  q_Supersedes :: "string list"

record 's Fleet =
  f_Key :: string
  f_Reach :: int
  f_Check :: "(IssueProposal \<Rightarrow> (err, 's, unit) io) option"

definition no_fleet :: "'s Fleet" where
  "no_fleet = \<lparr>f_Key = [], f_Reach = 0, f_Check = None\<rparr>"

record 's Target =
  t_Scope :: Scope
  t_Fleet :: "'s Fleet"

record ('s, 'f) Issuer =
  programs_Get :: "string \<Rightarrow> string \<Rightarrow> (err, 's, DERProgram) io"
  controls_Get :: "string \<Rightarrow> string \<Rightarrow> (err, 's, DERControl) io"
  controls_List :: "string \<Rightarrow> ListOptions \<Rightarrow> (err, 's, DERControl ListResult) io"
  controls_Create :: "string \<Rightarrow> string \<Rightarrow> DERControl \<Rightarrow> (err, 's, unit) io"
  controls_Delete :: "string \<Rightarrow> string \<Rightarrow> (err, 's, unit) io"
  controls_rolls :: bool
  lifecycles_Get :: "string \<Rightarrow> string \<Rightarrow> (err, 's, LifecycleRecord) io"
  lifecycles_Create :: "string \<Rightarrow> string \<Rightarrow> LifecycleRecord \<Rightarrow> (err, 's, unit) io"
  lifecycles_Update :: "string \<Rightarrow> string \<Rightarrow> LifecycleRecord \<Rightarrow> (err, 's, unit) io"
  lifecycles_Delete :: "string \<Rightarrow> string \<Rightarrow> (err, 's, unit) io"
  lifecycles_rolls :: bool
  i_cfg :: Config
  i_newMRID :: "32 word \<Rightarrow> (err, 's, string) io"
  i_buildBase :: "'f CreateRequest \<Rightarrow> err + DERControlBase"

definition NewIssuer :: "('s, 'f) Issuer \<Rightarrow> Config \<Rightarrow> err + ('s, 'f) Issuer" where
  "NewIssuer i cfg0 =
     (let cfg = withDefaults cfg0
      in case Config_validate cfg of
           Some e \<Rightarrow> Inl e
         | None \<Rightarrow> Inr (i\<lparr>i_cfg := (if c_PEN cfg = Some 0 then cfg\<lparr>c_PEN := None\<rparr> else cfg)\<rparr>))"

record IssueResult =
  res_Scope :: Scope
  res_ID :: string
  res_Href :: string
  res_Control :: DERControl
  res_Supersedes :: "string list"

definition undoWriteOK :: "err + unit \<Rightarrow> bool" where
  "undoWriteOK r = (case r of Inr _ \<Rightarrow> True | Inl e \<Rightarrow> err_is e ErrNotFound)"

definition err_of :: "err + unit \<Rightarrow> err list" where
  "err_of r = (case r of Inr _ \<Rightarrow> [] | Inl e \<Rightarrow> [e])"

definition refuse :: "RefusalCode \<Rightarrow> err" where
  "refuse code = RefusalError code"

section \<open>Validation\<close>

definition validate :: "('s, 'f) Issuer \<Rightarrow> 'f CreateRequest \<Rightarrow> int \<Rightarrow> err + DERControlBase" where
  "validate i req now =
     (if c_PEN (i_cfg i) = None then Inl (refuse RefusalPENNotConfigured)
      else if Program (r_DERProgramHref req) = None then Inl (refuse RefusalInvalidProgramHref)
      else if \<not> utf8_ValidString (r_Description req) \<or> length (r_Description req) > 32
      then Inl (refuse RefusalInvalidDescription)
      else case i_buildBase i req of
        Inl e \<Rightarrow> Inl e
      | Inr base \<Rightarrow>
          (let startErr = (case r_Start req of
                 None \<Rightarrow> None
               | Some st \<Rightarrow>
                   if st < now then Some (refuse RefusalStartInPast)
                   else if st > wrap64 (now + quo (c_StartLead (i_cfg i)) Second)
                   then Some (refuse RefusalStartTooFarAhead) else None);
               d = uint (r_DurationSeconds req)
           in case startErr of
                Some e \<Rightarrow> Inl e
              | None \<Rightarrow>
                  if d < quo (c_MinDuration (i_cfg i)) Second \<or> d > quo (c_MaxDuration (i_cfg i)) Second
                  then Inl (refuse RefusalDurationOutOfRange) else Inr base))"

definition loadProgram :: "('s, 'f) Issuer \<Rightarrow> string \<Rightarrow> string \<Rightarrow> (err, 's, DERProgram) io" where
  "loadProgram i edev derp =
     io_map_err (\<lambda>e. if err_is e ErrNotFound then refuse RefusalProgramNotFound
                     else Errorf ''dercontrol: load program'' [e])
       (programs_Get i edev derp)"

definition resolveScope :: "('s, 'f) Issuer \<Rightarrow> string \<Rightarrow> string \<Rightarrow> (err, 's, Scope) io" where
  "resolveScope i edev derp =
     io_bind (loadProgram i edev derp) (\<lambda>program.
       case p_DERControlListLink program of
         None \<Rightarrow> io_fail (refuse RefusalNoControlListLink)
       | Some href \<Rightarrow>
           (case ControlList href of
              None \<Rightarrow> io_fail (refuse RefusalNoControlListLink)
            | Some (linkEdev, linkFsa, linkDerp) \<Rightarrow>
                if linkEdev \<noteq> edev \<or> linkDerp \<noteq> derp
                then io_fail (refuse RefusalNoControlListLink)
                else io_return \<lparr>EndDeviceID = edev, FSAID = linkFsa, DERProgramID = derp\<rparr>))"

definition checkProgram :: "('s, 'f) Issuer \<Rightarrow> Scope \<Rightarrow> (err, 's, unit) io" where
  "checkProgram i scope =
     io_bind (resolveScope i (EndDeviceID scope) (DERProgramID scope)) (\<lambda>got.
       if got \<noteq> scope then io_fail (refuse RefusalNoControlListLink) else io_return ())"

definition nextCreationTime :: "int \<Rightarrow> DERControl list list \<Rightarrow> int" where
  "nextCreationTime now scopes =
     foldl (\<lambda>t c. if d_CreationTime c \<ge> t then wrap64 (d_CreationTime c + 1) else t) now (concat scopes)"

definition newControl ::
    "DERControlBase \<Rightarrow> string \<Rightarrow> string \<Rightarrow> int \<Rightarrow> int \<Rightarrow> 32 word \<Rightarrow> DERControl" where
  "newControl base m description creationTime start durationSeconds =
     \<lparr>d_MRID = m, d_Description = description, d_CreationTime = creationTime,
      d_Interval = Some \<lparr>Start = start, Duration = durationSeconds\<rparr>, d_Href = [],
      d_Base = Some base, d_EventStatus = None\<rparr>"

section \<open>What a control supersedes\<close>

definition functionSetKey :: "DERControlBase option \<Rightarrow> string" where
  "functionSetKey b = (case b of
     None \<Rightarrow> []
   | Some base \<Rightarrow> if b_FunctionNames base \<noteq> [] then join_with (CHR '','') (b_FunctionNames base) else ''other'')"

definition replacedBy :: "DERControl \<Rightarrow> string \<Rightarrow> int \<Rightarrow> int \<Rightarrow> bool" where
  "replacedBy older st start stop =
     (case d_Interval older of
        None \<Rightarrow> False
      | Some iv \<Rightarrow>
          functionSetKey (d_Base older) = st \<and> Overlaps (Start iv) (IntervalEnd iv) start stop)"

record supersedeCandidate =
  sc_id :: string
  sc_mrid :: string
  sc_before :: LifecycleRecord

fun computeSupersedes ::
    "('s, 'f) Issuer \<Rightarrow> string \<Rightarrow> DERControl list \<Rightarrow> DERControlBase option \<Rightarrow> int \<Rightarrow> int \<Rightarrow>
     (err, 's, supersedeCandidate list) io" where
  "computeSupersedes i scopeKey [] newBase newStart newEnd = io_return []"
| "computeSupersedes i scopeKey (c # cs) newBase newStart newEnd =
     (let rest = computeSupersedes i scopeKey cs newBase newStart newEnd
      in if d_Interval c = None then rest
         else case ControlID (d_Href c) of
           None \<Rightarrow> rest
         | Some rid \<Rightarrow>
             io_try (lifecycles_Get i scopeKey rid) (\<lambda>r.
               case r of
                 Inl e \<Rightarrow> if err_is e ErrNotFound then rest
                          else io_fail (Errorf ''dercontrol: load lifecycle'' [e])
               | Inr lc \<Rightarrow>
                   if \<not> supersedeEligible lc newStart then rest
                   else if \<not> replacedBy c (functionSetKey newBase) newStart newEnd then rest
                   else io_bind rest (\<lambda>cands.
                     io_return (\<lparr>sc_id = rid, sc_mrid = d_MRID c, sc_before = lc\<rparr> # cands))))"

definition TargetOf :: "DERControlBase option \<Rightarrow> active_power option" where
  "TargetOf b = (case b of None \<Rightarrow> None | Some base \<Rightarrow> b_OpModTargetW base)"

definition newProposal ::
    "Scope \<Rightarrow> DERControl \<Rightarrow> string \<Rightarrow> 's Fleet \<Rightarrow> supersedeCandidate list \<Rightarrow> IssueProposal" where
  "newProposal scope ctrl grant fleet candidates =
     \<lparr>q_Scope = scope, q_FleetKey = f_Key fleet,
      q_Window = the (d_Interval ctrl), q_GrantMRID = grant, q_TargetW = TargetOf (d_Base ctrl),
      q_Reach = f_Reach fleet, q_Supersedes = map sc_mrid candidates\<rparr>"

record 's copyPlan =
  cp_target :: "'s Target"
  cp_ctrl :: DERControl
  cp_candidates :: "supersedeCandidate list"
  cp_link :: LifecycleRecord

definition finishPlan ::
    "'s Target \<Rightarrow> DERControl \<Rightarrow> string \<Rightarrow> supersedeCandidate list \<Rightarrow> LifecycleRecord \<Rightarrow>
     (err, 's, 's copyPlan) io" where
  "finishPlan t ctrl grant candidates link =
     io_bind (case f_Check (t_Fleet t) of
                None \<Rightarrow> io_return ()
              | Some chk \<Rightarrow> chk (newProposal (t_Scope t) ctrl grant (t_Fleet t) candidates)) (\<lambda>_.
       io_return \<lparr>cp_target = t, cp_ctrl = ctrl, cp_candidates = candidates, cp_link = link\<rparr>)"

definition planCopy ::
    "('s, 'f) Issuer \<Rightarrow> 's Target \<Rightarrow> DERControl \<Rightarrow> DERControl list \<Rightarrow> string \<Rightarrow> (err, 's, 's copyPlan) io" where
  "planCopy i t ctrl existing grant =
     (case d_Interval ctrl of
        None \<Rightarrow> io_fail (Panic ''nil Interval'')
      | Some iv \<Rightarrow>
          io_bind (computeSupersedes i (Key (t_Scope t)) existing (d_Base ctrl) (Start iv) (IntervalEnd iv)) (\<lambda>candidates.
            finishPlan t ctrl grant candidates
              (zero_lifecycle\<lparr>lc_GrantMRID := grant, lc_FleetKey := f_Key (t_Fleet t), lc_Reach := f_Reach (t_Fleet t)\<rparr>)))"

section \<open>Writing a copy and undoing it\<close>

definition marked_record :: "supersedeCandidate \<Rightarrow> int \<Rightarrow> string \<Rightarrow> LifecycleRecord" where
  "marked_record cand newStart newMRID =
     (sc_before cand)\<lparr>lc_SupersededAt := Some newStart, lc_SupersededBy := newMRID\<rparr>"

text \<open>
  The results of \<open>applySupersedes\<close>: the mRIDs marked, the candidates attempted when a write
  failed (the failing one last), and that write's error.
\<close>

fun applySupersedes ::
    "('s, 'f) Issuer \<Rightarrow> string \<Rightarrow> int \<Rightarrow> string \<Rightarrow> supersedeCandidate list \<Rightarrow> supersedeCandidate list \<Rightarrow>
     's \<Rightarrow> (string list \<times> (supersedeCandidate list \<times> err) option) \<times> 's" where
  "applySupersedes i scopeKey newStart newMRID tried [] s = ((map sc_mrid tried, None), s)"
| "applySupersedes i scopeKey newStart newMRID tried (c # cs) s =
     (case lifecycles_Update i scopeKey (sc_id c) (marked_record c newStart newMRID) s of
        (Inl e, t) \<Rightarrow> ((map sc_mrid tried, Some (tried @ [c], e)), t)
      | (Inr _, t) \<Rightarrow> applySupersedes i scopeKey newStart newMRID (tried @ [c]) cs t)"

fun revertMarks ::
    "('s, 'f) Issuer \<Rightarrow> string \<Rightarrow> supersedeCandidate list \<Rightarrow> bool \<Rightarrow> 's \<Rightarrow> (string list \<times> err list) \<times> 's" where
  "revertMarks i scopeKey [] skipLast s = (([], []), s)"
| "revertMarks i scopeKey (c # cs) skipLast s =
     (if skipLast \<and> cs = [] then (([], []), s)
      else case lifecycles_Update i scopeKey (sc_id c) (sc_before c) s of
        (r, t) \<Rightarrow>
          (case revertMarks i scopeKey cs skipLast t of
             ((us, rs), u) \<Rightarrow>
               if undoWriteOK r then ((us, rs), u) else ((sc_id c # us, err_of r @ rs), u)))"

definition undoLifecycleCreateFailure :: "('s, 'f) Issuer \<Rightarrow> string \<Rightarrow> string \<Rightarrow> err \<Rightarrow> 's \<Rightarrow> err \<times> 's" where
  "undoLifecycleCreateFailure i scopeKey rid cause s =
     (let plain = Errorf ''dercontrol: store lifecycle'' [cause]
      in if lifecycles_rolls i then (plain, s)
         else case lifecycles_Delete i scopeKey rid s of
           (r, t) \<Rightarrow>
             if \<not> undoWriteOK r
             then (UndoError UndoStepStoreLifecycle False True rid [] cause (err_of r), t)
             else (plain, t))"

definition undoControlCreateFailure :: "('s, 'f) Issuer \<Rightarrow> string \<Rightarrow> string \<Rightarrow> err \<Rightarrow> 's \<Rightarrow> err \<times> 's" where
  "undoControlCreateFailure i scopeKey rid cause s =
     (let (r, t) = (if controls_rolls i then (Inr (), s) else controls_Delete i scopeKey rid s)
      in if \<not> undoWriteOK r
         then (UndoError UndoStepStoreControl True True rid [] cause (err_of r), t)
         else case lifecycles_Delete i scopeKey rid t of
           (r, u) \<Rightarrow>
             if \<not> undoWriteOK r
             then (UndoError UndoStepStoreControl False True rid [] cause (err_of r), u)
             else (Errorf ''dercontrol: store control'' [cause], u))"

definition undoMarkFailure ::
    "('s, 'f) Issuer \<Rightarrow> string \<Rightarrow> string \<Rightarrow> supersedeCandidate list \<Rightarrow> err \<Rightarrow> 's \<Rightarrow> err \<times> 's" where
  "undoMarkFailure i scopeKey rid attempted cause s =
     (case revertMarks i scopeKey attempted (lifecycles_rolls i) s of
        ((us, rs), t) \<Rightarrow>
          if us \<noteq> [] then (UndoError UndoStepMarkSuperseded True True rid us cause rs, t)
          else case controls_Delete i scopeKey rid t of
            (r, u) \<Rightarrow>
              if \<not> undoWriteOK r
              then (UndoError UndoStepMarkSuperseded True True rid [] cause (err_of r), u)
              else case lifecycles_Delete i scopeKey rid u of
                (r, v) \<Rightarrow>
                  if \<not> undoWriteOK r
                  then (UndoError UndoStepMarkSuperseded False True rid [] cause (err_of r), v)
                  else (Errorf ''dercontrol: mark superseded'' [cause], v))"

record 's writtenCopy =
  wc_plan :: "'s copyPlan"
  wc_id :: string
  wc_marked :: "string list"

text \<open>The body of \<open>writeCopies\<close>'s loop: the lifecycle record, the control, then the marks.\<close>

definition write_copy :: "('s, 'f) Issuer \<Rightarrow> 's copyPlan \<Rightarrow> string \<Rightarrow> (err, 's, 's writtenCopy) io" where
  "write_copy i p rid s =
     (let scopeKey = Key (t_Scope (cp_target p));
          failed = (\<lambda>(e, t). (Inl e, t))
      in case lifecycles_Create i scopeKey rid (cp_link p) s of
           (Inl e, t) \<Rightarrow> failed (undoLifecycleCreateFailure i scopeKey rid e t)
         | (Inr _, t) \<Rightarrow>
             (case controls_Create i scopeKey rid (cp_ctrl p) t of
                (Inl e, u) \<Rightarrow> failed (undoControlCreateFailure i scopeKey rid e u)
              | (Inr _, u) \<Rightarrow>
                  (case d_Interval (cp_ctrl p) of
                     None \<Rightarrow> (Inl (Panic ''nil Interval''), u)
                   | Some iv \<Rightarrow>
                       (case applySupersedes i scopeKey (Start iv) (d_MRID (cp_ctrl p)) [] (cp_candidates p) u of
                          ((marked, Some (attempted, e)), v) \<Rightarrow>
                            failed (undoMarkFailure i scopeKey rid attempted e v)
                        | ((marked, None), v) \<Rightarrow>
                            (Inr \<lparr>wc_plan = p, wc_id = rid, wc_marked = marked\<rparr>, v)))))"

text \<open>\<open>writeCopies\<close> returns the copies written and the error that stopped it, if any.\<close>

fun writeCopies ::
    "('s, 'f) Issuer \<Rightarrow> 's copyPlan list \<Rightarrow> string \<Rightarrow> 's \<Rightarrow> ('s writtenCopy list \<times> err option) \<times> 's" where
  "writeCopies i [] rid s = (([], None), s)"
| "writeCopies i (p # ps) rid s =
     (case write_copy i p rid s of
        (Inl e, t) \<Rightarrow> (([], Some e), t)
      | (Inr w, t) \<Rightarrow>
          (case writeCopies i ps rid t of ((ws, r), u) \<Rightarrow> ((w # ws, r), u)))"

section \<open>Issuing\<close>

definition ctx_check :: "'s ctx \<Rightarrow> (err, 's, unit) io" where
  "ctx_check ctx s = (case ctx s of None \<Rightarrow> (Inr (), s) | Some e \<Rightarrow> (Inl e, s))"

text \<open>
  The control \<open>issue\<close> stores, from the request, the controls already in the scope and the mRID
  drawn for it, and its store id.
\<close>

definition issue_id :: "int \<Rightarrow> 'f CreateRequest \<Rightarrow> DERControl list \<Rightarrow> string \<Rightarrow> string" where
  "issue_id now req existing m =
     (let creationTime = nextCreationTime now [existing]
      in sortableID (case r_Start req of None \<Rightarrow> creationTime | Some st \<Rightarrow> st) creationTime m)"

definition issue_control ::
    "int \<Rightarrow> 'f CreateRequest \<Rightarrow> DERControlBase \<Rightarrow> Scope \<Rightarrow> DERControl list \<Rightarrow> string \<Rightarrow> DERControl" where
  "issue_control now req base scope existing m =
     (let creationTime = nextCreationTime now [existing];
          start = (case r_Start req of None \<Rightarrow> creationTime | Some st \<Rightarrow> st)
      in (newControl base m (r_Description req) creationTime start (r_DurationSeconds req))
           \<lparr>d_Href := ControlHref scope (issue_id now req existing m)\<rparr>)"

definition issue_write ::
    "('s, 'f) Issuer \<Rightarrow> Scope \<Rightarrow> DERControl \<Rightarrow> string \<Rightarrow> 's copyPlan \<Rightarrow> (err, 's, IssueResult) io" where
  "issue_write i scope ctrl rid plan s =
     (case writeCopies i [plan] rid s of
        ((_, Some e), t) \<Rightarrow> (Inl e, t)
      | ((ws, None), t) \<Rightarrow>
          (Inr \<lparr>res_Scope = scope, res_ID = rid, res_Href = d_Href ctrl, res_Control = ctrl,
                res_Supersedes = wc_marked (hd ws)\<rparr>, t))"

text \<open>The part of \<open>issue\<close> under the scope's lock, after the program was read again.\<close>

definition issue_locked ::
    "('s, 'f) Issuer \<Rightarrow> 's ctx \<Rightarrow> int \<Rightarrow> 'f CreateRequest \<Rightarrow> 's Fleet \<Rightarrow> DERControlBase \<Rightarrow> Scope \<Rightarrow>
     (err, 's, IssueResult) io" where
  "issue_locked i ctx now req fleet base scope =
     io_bind (io_map_err (\<lambda>e. Errorf ''dercontrol: list scope'' [e])
                (controls_List i (Key scope) unbounded_options)) (\<lambda>existing.
     io_bind (io_map_err (\<lambda>e. Errorf ''dercontrol: generate mRID'' [e])
                (i_newMRID i (the (c_PEN (i_cfg i))))) (\<lambda>m.
     io_bind (planCopy i \<lparr>t_Scope = scope, t_Fleet = fleet\<rparr>
                (issue_control now req base scope (lr_Items existing) m) (lr_Items existing) (r_ExecutesGrant req)) (\<lambda>plan.
     io_bind (ctx_check ctx) (\<lambda>_.
       issue_write i scope (issue_control now req base scope (lr_Items existing) m)
         (issue_id now req (lr_Items existing) m) plan))))"

definition issue ::
    "('s, 'f) Issuer \<Rightarrow> 's ctx \<Rightarrow> int \<Rightarrow> 'f CreateRequest \<Rightarrow> 's Fleet \<Rightarrow> (err, 's, IssueResult) io" where
  "issue i ctx now req fleet =
     (if StoredOrigin (r_Origin req) \<noteq> Inr [] then io_fail ErrInvalidOrigin
      else
        io_bind (io_lift (validate i req now)) (\<lambda>base.
        let (reqEdev, _, reqDerp) = (case Program (r_DERProgramHref req) of None \<Rightarrow> ([], [], []) | Some t \<Rightarrow> t)
        in io_bind (resolveScope i reqEdev reqDerp) (\<lambda>scope.
           io_bind (loadProgram i reqEdev reqDerp) (\<lambda>_.
             issue_locked i ctx now req fleet base scope))))"

definition Issue :: "('s, 'f) Issuer \<Rightarrow> 's ctx \<Rightarrow> int \<Rightarrow> 'f CreateRequest \<Rightarrow> (err, 's, IssueResult) io" where
  "Issue i ctx now req =
     (if r_ExecutesGrant req \<noteq> [] then io_fail ErrUncheckedCommitment else issue i ctx now req no_fleet)"

definition bounded_fleet :: "'s Fleet \<Rightarrow> bool" where
  "bounded_fleet fleet \<longleftrightarrow> \<not> (f_Check fleet = None \<or> f_Key fleet = [] \<or> f_Reach fleet < 1)"

definition IssueInFleet ::
    "('s, 'f) Issuer \<Rightarrow> 's ctx \<Rightarrow> int \<Rightarrow> 'f CreateRequest \<Rightarrow> 's Fleet \<Rightarrow> (err, 's, IssueResult) io" where
  "IssueInFleet i ctx now req fleet =
     (if \<not> bounded_fleet fleet then io_fail ErrUncheckedCommitment else issue i ctx now req fleet)"

section \<open>Cancelling, relinking and retiring\<close>

text \<open>
  \<open>Cancel\<close> and \<open>Relink\<close> return a record beside their error; the pair of the record and the
  optional error is their result.
\<close>

type_synonym 's lc_result = "'s \<Rightarrow> (LifecycleRecord \<times> err option) \<times> 's"

definition restoreLifecycle ::
    "('s, 'f) Issuer \<Rightarrow> Scope \<Rightarrow> string \<Rightarrow> LifecycleRecord \<Rightarrow> UndoStep \<Rightarrow> err \<Rightarrow> 's lc_result" where
  "restoreLifecycle i scope rid before step cause s =
     (let plain = (before, Some (Errorf (if step = UndoStepCancel then ''dercontrol: cancel'' else ''dercontrol: relink'') [cause]))
      in if lifecycles_rolls i then (plain, s)
         else case lifecycles_Update i (Key scope) rid before s of
           (r, t) \<Rightarrow>
             if \<not> undoWriteOK r
             then ((zero_lifecycle, Some (UndoError step True True rid [] cause (err_of r))), t)
             else (plain, t))"

text \<open>The two reads both begin with: the control, then its lifecycle record.\<close>

definition load_pair ::
    "('s, 'f) Issuer \<Rightarrow> Scope \<Rightarrow> string \<Rightarrow> (err, 's, DERControl \<times> LifecycleRecord) io" where
  "load_pair i scope rid =
     (let wrap = (\<lambda>tag e. if err_is e ErrNotFound then refuse RefusalControlNotFound else Errorf tag [e])
      in io_bind (io_map_err (wrap ''dercontrol: load control'') (controls_Get i (Key scope) rid)) (\<lambda>ctrl.
         io_bind (io_map_err (wrap ''dercontrol: load lifecycle'') (lifecycles_Get i (Key scope) rid)) (\<lambda>before.
         io_return (ctrl, before))))"

definition Cancel ::
    "('s, 'f) Issuer \<Rightarrow> 's ctx \<Rightarrow> int \<Rightarrow> Scope \<Rightarrow> string \<Rightarrow> string \<Rightarrow> 's lc_result" where
  "Cancel i ctx now scope rid reason s =
     (case load_pair i scope rid s of
        (Inl e, t) \<Rightarrow> ((zero_lifecycle, Some e), t)
      | (Inr (ctrl, before), t) \<Rightarrow>
          if cancelled before then ((zero_lifecycle, Some (refuse RefusalAlreadyCancelled)), t)
          else if supersededAsOf before now then ((zero_lifecycle, Some (refuse RefusalAlreadySuperseded)), t)
          else case d_Interval ctrl of
            None \<Rightarrow> ((before, Some (Errorf ''dercontrol: control has no interval'' [])), t)
          | Some iv \<Rightarrow>
              if IntervalEnded iv now then ((zero_lifecycle, Some (refuse RefusalEnded)), t)
              else case ctx t of
                Some e \<Rightarrow> ((before, Some e), t)
              | None \<Rightarrow>
                  (let lc = before\<lparr>lc_CancelledAt := Some now, lc_CancelReason := reason\<rparr>
                   in case lifecycles_Update i (Key scope) rid lc t of
                        (Inl e, u) \<Rightarrow> restoreLifecycle i scope rid before UndoStepCancel e u
                      | (Inr _, u) \<Rightarrow> ((lc, None), u)))"

definition Relink ::
    "('s, 'f) Issuer \<Rightarrow> 's ctx \<Rightarrow> Scope \<Rightarrow> string \<Rightarrow> string \<Rightarrow> 's lc_result" where
  "Relink i ctx scope rid grantMRID s =
     (case load_pair i scope rid s of
        (Inl e, t) \<Rightarrow> ((zero_lifecycle, Some e), t)
      | (Inr (ctrl, before), t) \<Rightarrow>
          if lc_GrantMRID before = [] \<or> grantMRID = [] then ((before, Some ErrNotExecution), t)
          else case ctx t of
            Some e \<Rightarrow> ((before, Some (Errorf ''relink'' [ErrRelinkNotStarted, e])), t)
          | None \<Rightarrow>
              (let lc = before\<lparr>lc_GrantMRID := grantMRID\<rparr>
               in case lifecycles_Update i (Key scope) rid lc t of
                    (Inl e, u) \<Rightarrow> restoreLifecycle i scope rid before UndoStepRelink e u
                  | (Inr _, u) \<Rightarrow> ((lc, None), u)))"

definition CancelLive ::
    "('s, 'f) Issuer \<Rightarrow> 's ctx \<Rightarrow> int \<Rightarrow> Scope \<Rightarrow> string \<Rightarrow> string \<Rightarrow> 's \<Rightarrow> (bool \<times> err option) \<times> 's" where
  "CancelLive i ctx now scope rid reason s =
     (case Cancel i ctx now scope rid reason s of
        ((_, None), t) \<Rightarrow> ((True, None), t)
      | ((_, Some e), t) \<Rightarrow>
          if as_refusal e \<in> {Some RefusalAlreadyCancelled, Some RefusalAlreadySuperseded, Some RefusalEnded}
          then ((False, None), t) else ((False, Some e), t))"

fun live_items ::
    "('s, 'f) Issuer \<Rightarrow> string \<Rightarrow> int \<Rightarrow> DERControl list \<Rightarrow> (err, 's, string list) io" where
  "live_items i scopeKey now [] = io_return []"
| "live_items i scopeKey now (c # cs) =
     io_bind (stateOf (lifecycles_Get i) scopeKey c now) (\<lambda>st.
     io_bind (live_items i scopeKey now cs) (\<lambda>live.
     io_return (if st \<noteq> Retired then d_Href c # live else live)))"

definition liveControls :: "('s, 'f) Issuer \<Rightarrow> string \<Rightarrow> int \<Rightarrow> (err, 's, string list) io" where
  "liveControls i scopeKey now =
     io_bind (io_map_err (\<lambda>e. Errorf ''dercontrol: list scope'' [e]) (controls_List i scopeKey unbounded_options)) (\<lambda>lst.
       live_items i scopeKey now (lr_Items lst))"

fun live_in_scopes :: "('s, 'f) Issuer \<Rightarrow> string list \<Rightarrow> int \<Rightarrow> (err, 's, string list) io" where
  "live_in_scopes i [] now = io_return []"
| "live_in_scopes i (k # ks) now =
     io_bind (liveControls i k now) (\<lambda>hrefs.
     io_bind (live_in_scopes i ks now) (\<lambda>live. io_return (hrefs @ live)))"

definition Retire ::
    "('s, 'f) Issuer \<Rightarrow> int \<Rightarrow> Scope list \<Rightarrow> (err, 's, unit) io \<Rightarrow> (err, 's, unit) io" where
  "Retire i now scopes remove =
     io_bind (live_in_scopes i (lock_order (map Key scopes)) now) (\<lambda>live.
       if live \<noteq> [] then io_fail (LiveControlsError (sort live)) else remove)"

end
