(* ===== verification/Across.thy ===== *)
theory Across
  imports Issuer
begin

text \<open>
  \<open>internal/dercontrol/across.go\<close>: one call that writes several controls, each to several
  scopes, planned whole before the first write and undone whole when one fails; and
  \<open>Replicate\<close>, which writes copies a scope is missing. The scope locks are the subject of the
  theory on lock order. The maps keyed by scope are association lists in the order the scopes
  were read, which is also the order in which \<open>maps.Values\<close> is taken to yield them.
\<close>

section \<open>Items\<close>

text \<open>A record writer stores a control's record and returns how to remove it.\<close>

type_synonym 's RecordWriter = "string \<Rightarrow> DERControl \<Rightarrow> (err, 's, (err, 's, unit) io) io"

type_synonym AcrossCheck = "DERControl list \<Rightarrow> err option"

record ('s, 'f) Across =
  a_Req :: "'f CreateRequest"
  a_Targets :: "'s Target list"
  a_Record :: "'s RecordWriter"
  a_StartOffset :: int
  a_FleetTotal :: bool

record AcrossResult =
  ar_ID :: string
  ar_Control :: DERControl
  ar_Copies :: "IssueResult list"

type_synonym item_errors = "(nat \<times> err) list"

definition with_errors :: "item_errors \<Rightarrow> item_errors \<Rightarrow> item_errors" where
  "with_errors e added = sort_key fst (e @ added)"

definition item_error :: "item_errors \<Rightarrow> err" where
  "item_error e = AcrossItemErrors (map fst e) (map snd e)"

text \<open>\<open>errors.As(err, &items)\<close>: the first \<open>AcrossItemErrors\<close> of the walk.\<close>

fun items_of :: "err list \<Rightarrow> err list option" where
  "items_of [] = None"
| "items_of (AcrossItemErrors ns es # _) = Some es"
| "items_of (_ # es) = items_of es"

definition SoleItemError :: "err \<Rightarrow> err" where
  "SoleItemError e = (case items_of (err_tree e) of Some [x] \<Rightarrow> x | _ \<Rightarrow> e)"

section \<open>Preparing\<close>

definition UnscopedProgramHref :: string where
  "UnscopedProgramHref = ''/edev/0/fsa/0/derp/0''"

fun check_targets :: "Scope option \<Rightarrow> 's Target list \<Rightarrow> err option" where
  "check_targets prev [] = None"
| "check_targets prev (t # ts) =
     (if \<not> bounded_fleet (t_Fleet t) then Some ErrUncheckedCommitment
      else if prev = Some (t_Scope t) then Some (Errorf ''dercontrol: scope named twice'' [])
      else check_targets (Some (t_Scope t)) ts)"

definition sortTargets :: "'s Target list \<Rightarrow> err + 's Target list" where
  "sortTargets targets =
     (let out = sort_key (\<lambda>t. Key (t_Scope t)) targets
      in case check_targets None out of Some e \<Rightarrow> Inl e | None \<Rightarrow> Inr out)"

definition targetKeys :: "'s Target list \<Rightarrow> string list" where
  "targetKeys targets = map (\<lambda>t. Key (t_Scope t)) targets"

record ('s, 'f) preparedAcross =
  pa_item :: nat
  pa_req :: "'f CreateRequest"
  pa_origin :: string
  pa_targets :: "'s Target list"
  pa_base :: DERControlBase
  pa_record :: "'s RecordWriter"
  pa_offset :: int
  pa_total :: bool

definition prepareItem ::
    "('s, 'f) Issuer \<Rightarrow> int \<Rightarrow> nat \<Rightarrow> ('s, 'f) Across \<Rightarrow> err + ('s, 'f) preparedAcross" where
  "prepareItem i now n it =
     (if r_ExecutesGrant (a_Req it) \<noteq> [] then Inl ErrAcrossGrant
      else case StoredOrigin (r_Origin (a_Req it)) of
        Inl e \<Rightarrow> Inl e
      | Inr origin \<Rightarrow>
          (case sortTargets (a_Targets it) of
             Inl e \<Rightarrow> Inl e
           | Inr targets \<Rightarrow>
               if a_StartOffset it < 0 \<or> a_StartOffset it > 0 \<and> r_Start (a_Req it) \<noteq> None
               then Inl (Errorf ''dercontrol: a start offset must be non-negative and needs no start'' [])
               else (let req = (a_Req it)\<lparr>r_DERProgramHref := UnscopedProgramHref\<rparr>
                     in case validate i req now of
                          Inl e \<Rightarrow> Inl e
                        | Inr base \<Rightarrow>
                            Inr \<lparr>pa_item = n, pa_req = req, pa_origin = origin, pa_targets = targets,
                                 pa_base = base, pa_record = a_Record it, pa_offset = a_StartOffset it,
                                 pa_total = a_FleetTotal it\<rparr>)))"

fun prepareAcross ::
    "('s, 'f) Issuer \<Rightarrow> int \<Rightarrow> nat \<Rightarrow> ('s, 'f) Across list \<Rightarrow> ('s, 'f) preparedAcross list \<times> item_errors" where
  "prepareAcross i now n [] = ([], [])"
| "prepareAcross i now n (it # its) =
     (let (ps, refused) = prepareAcross i now (Suc n) its
      in case prepareItem i now n it of
           Inl e \<Rightarrow> (ps, (n, e) # refused)
         | Inr p \<Rightarrow> (p # ps, refused))"

section \<open>Reading the scopes\<close>

type_synonym scope_lists = "(string \<times> DERControl list) list"
type_synonym scope_errors = "(string \<times> err) list"

fun read_targets ::
    "('s, 'f) Issuer \<Rightarrow> 's Target list \<Rightarrow> scope_lists \<Rightarrow> scope_errors \<Rightarrow> (err, 's, scope_lists \<times> scope_errors) io" where
  "read_targets i [] existing errs = io_return (existing, errs)"
| "read_targets i (t # ts) existing errs =
     (let k = Key (t_Scope t)
      in if map_of existing k \<noteq> None \<or> map_of errs k \<noteq> None then read_targets i ts existing errs
         else io_try (checkProgram i (t_Scope t)) (\<lambda>r.
           case r of
             Inl e \<Rightarrow> read_targets i ts existing (errs @ [(k, e)])
           | Inr _ \<Rightarrow>
               io_bind (io_map_err (\<lambda>e. Errorf ''dercontrol: list scope'' [e])
                          (controls_List i k unbounded_options)) (\<lambda>lst.
                 read_targets i ts (existing @ [(k, lr_Items lst)]) errs)))"

definition readScopes ::
    "('s, 'f) Issuer \<Rightarrow> ('s, 'f) preparedAcross list \<Rightarrow> (err, 's, scope_lists \<times> scope_errors) io" where
  "readScopes i prepared = read_targets i (concat (map pa_targets prepared)) [] []"

fun firstScopeErr :: "'s Target list \<Rightarrow> scope_errors \<Rightarrow> err option" where
  "firstScopeErr [] errs = None"
| "firstScopeErr (t # ts) errs =
     (case map_of errs (Key (t_Scope t)) of Some e \<Rightarrow> Some e | None \<Rightarrow> firstScopeErr ts errs)"

fun usable_items ::
    "scope_errors \<Rightarrow> ('s, 'f) preparedAcross list \<Rightarrow> ('s, 'f) preparedAcross list \<times> item_errors" where
  "usable_items errs [] = ([], [])"
| "usable_items errs (p # ps) =
     (let (us, refused) = usable_items errs ps
      in case firstScopeErr (pa_targets p) errs of
           Some e \<Rightarrow> (us, (pa_item p, e) # refused)
         | None \<Rightarrow> (p # us, refused))"

section \<open>Planning\<close>

record 's plannedAcross =
  pl_item :: nat
  pl_id :: string
  pl_ctrl :: DERControl
  pl_record :: "'s RecordWriter"
  pl_copies :: "'s copyPlan list"

text \<open>Items get consecutive creation times; a refused one uses up its own.\<close>

fun resolveAcross ::
    "('s, 'f) Issuer \<Rightarrow> int \<Rightarrow> int \<Rightarrow> nat \<Rightarrow> ('s, 'f) preparedAcross list \<Rightarrow> 's \<Rightarrow>
     ('s plannedAcross list \<times> item_errors) \<times> 's" where
  "resolveAcross i first now n [] s = (([], []), s)"
| "resolveAcross i first now n (p # ps) s =
     (let creationTime = wrap64 (first + int n);
          start = (case r_Start (pa_req p) of None \<Rightarrow> wrap64 (first + pa_offset p) | Some st \<Rightarrow> st)
      in if start > wrap64 (now + quo (c_StartLead (i_cfg i)) Second)
         then (case resolveAcross i first now (Suc n) ps s of
                 ((out, refused), t) \<Rightarrow> ((out, (pa_item p, refuse RefusalStartTooFarAhead) # refused), t))
         else case i_newMRID i (the (c_PEN (i_cfg i))) s of
           (Inl e, t) \<Rightarrow>
             (case resolveAcross i first now (Suc n) ps t of
                ((out, refused), u) \<Rightarrow>
                  ((out, (pa_item p, Errorf ''dercontrol: generate mRID'' [e]) # refused), u))
         | (Inr m, t) \<Rightarrow>
             (case resolveAcross i first now (Suc n) ps t of
                ((out, refused), u) \<Rightarrow>
                  ((\<lparr>pl_item = pa_item p, pl_id = sortableID start creationTime m,
                     pl_ctrl = newControl (pa_base p) m (r_Description (pa_req p)) creationTime start
                       (r_DurationSeconds (pa_req p)),
                     pl_record = pa_record p, pl_copies = []\<rparr> # out, refused), u)))"

definition copyOf :: "DERControl \<Rightarrow> Scope \<Rightarrow> string \<Rightarrow> DERControl" where
  "copyOf ctrl scope rid = ctrl\<lparr>d_Href := ControlHref scope rid\<rparr>"

type_synonym in_call = "string \<Rightarrow> DERControl list"

definition overlaps_in_call :: "in_call \<Rightarrow> string \<Rightarrow> DERControl \<Rightarrow> bool" where
  "overlaps_in_call inCall k c =
     list_ex (\<lambda>d. Overlaps (Start (the (d_Interval d))) (IntervalEnd (the (d_Interval d)))
                     (Start (the (d_Interval c))) (IntervalEnd (the (d_Interval c)))) (inCall k)"

fun plan_targets ::
    "('s, 'f) Issuer \<Rightarrow> 's plannedAcross \<Rightarrow> ('s, 'f) preparedAcross \<Rightarrow> scope_lists \<Rightarrow> in_call \<Rightarrow>
     's Target list \<Rightarrow> (err, 's, 's copyPlan list) io" where
  "plan_targets i plan p existing inCall [] = io_return []"
| "plan_targets i plan p existing inCall (t # ts) =
     (let k = Key (t_Scope t)
      in if overlaps_in_call inCall k (pl_ctrl plan) then io_fail ErrAcrossOverlap
         else io_bind (planCopy i t (copyOf (pl_ctrl plan) (t_Scope t) (pl_id plan))
                         (case map_of existing k of None \<Rightarrow> [] | Some cs \<Rightarrow> cs) []) (\<lambda>cp.
              io_bind (plan_targets i plan p existing inCall ts) (\<lambda>cps.
                io_return (cp\<lparr>cp_link := (cp_link cp)\<lparr>lc_Origin := pa_origin p, lc_FleetTotal := pa_total p\<rparr>\<rparr> # cps))))"

definition planItemCopies ::
    "('s, 'f) Issuer \<Rightarrow> 's plannedAcross \<Rightarrow> ('s, 'f) preparedAcross \<Rightarrow> scope_lists \<Rightarrow> in_call \<Rightarrow>
     (err, 's, 's plannedAcross \<times> in_call) io" where
  "planItemCopies i plan p existing inCall =
     io_bind (plan_targets i plan p existing inCall (pa_targets p)) (\<lambda>cps.
       io_return (plan\<lparr>pl_copies := cps\<rparr>,
                  foldl (\<lambda>ic t. ic(Key (t_Scope t) := ic (Key (t_Scope t)) @ [pl_ctrl plan])) inCall (pa_targets p)))"

text \<open>
  The planned items with their copies, and the items that could not be planned. An item that
  was refused keeps no copies here; in the code it may keep some, which nothing reads, since a
  refused item ends the call.
\<close>

fun planAcross ::
    "('s, 'f) Issuer \<Rightarrow> ('s, 'f) preparedAcross list \<Rightarrow> scope_lists \<Rightarrow> in_call \<Rightarrow> 's plannedAcross list \<Rightarrow>
     's \<Rightarrow> ('s plannedAcross list \<times> item_errors) \<times> 's" where
  "planAcross i prepared existing inCall [] s = (([], []), s)"
| "planAcross i prepared existing inCall (plan # plans) s =
     (case find (\<lambda>p. pa_item p = pl_item plan) prepared of
        None \<Rightarrow>
          (case planAcross i prepared existing inCall plans s of
             ((out, refused), t) \<Rightarrow> ((plan # out, refused), t))
      | Some p \<Rightarrow>
          (case planItemCopies i plan p existing inCall s of
             (Inl e, t) \<Rightarrow>
               (case planAcross i prepared existing inCall plans t of
                  ((out, refused), u) \<Rightarrow> ((plan # out, (pl_item plan, e) # refused), u))
           | (Inr (plan', inCall'), t) \<Rightarrow>
               (case planAcross i prepared existing inCall' plans t of
                  ((out, refused), u) \<Rightarrow> ((plan' # out, refused), u))))"

section \<open>Undoing what was written\<close>

definition removeCopy :: "('s, 'f) Issuer \<Rightarrow> 's writtenCopy \<Rightarrow> err \<Rightarrow> 's \<Rightarrow> err option \<times> 's" where
  "removeCopy i w cause s =
     (let scopeKey = Key (t_Scope (cp_target (wc_plan w)));
          fail = (\<lambda>controlKept us rs. UndoError UndoStepStoreControl controlKept True (wc_id w) us cause rs)
      in case revertMarks i scopeKey (cp_candidates (wc_plan w)) False s of
           ((us, rs), t) \<Rightarrow>
             if us \<noteq> [] then (Some (fail True us rs), t)
             else case controls_Delete i scopeKey (wc_id w) t of
               (r, u) \<Rightarrow>
                 if \<not> undoWriteOK r then (Some (fail True [] (err_of r)), u)
                 else case lifecycles_Delete i scopeKey (wc_id w) u of
                   (r, v) \<Rightarrow>
                     if \<not> undoWriteOK r then (Some (fail False [] (err_of r)), v) else (None, v))"

record 's recordUndo =
  ru_id :: string
  ru_undo :: "(err, 's, unit) io"

fun remove_copies :: "('s, 'f) Issuer \<Rightarrow> 's writtenCopy list \<Rightarrow> err \<Rightarrow> 's \<Rightarrow> err option \<times> 's" where
  "remove_copies i [] cause s = (None, s)"
| "remove_copies i (w # ws) cause s =
     (case removeCopy i w cause s of
        (Some e, t) \<Rightarrow> (Some e, t)
      | (None, t) \<Rightarrow> remove_copies i ws cause t)"

definition removeWritten ::
    "('s, 'f) Issuer \<Rightarrow> 's writtenCopy list \<Rightarrow> err \<Rightarrow> 's recordUndo option \<Rightarrow> 's \<Rightarrow> err option \<times> 's" where
  "removeWritten i written cause rec s =
     (case remove_copies i (rev written) cause s of
        (Some e, t) \<Rightarrow> (Some e, t)
      | (None, t) \<Rightarrow>
          (case rec of
             None \<Rightarrow> (None, t)
           | Some ru \<Rightarrow>
               (case ru_undo ru t of
                  (Inr _, u) \<Rightarrow> (None, u)
                | (Inl e, u) \<Rightarrow> (Some (UndoError UndoStepStoreRecord False False (ru_id ru) [] cause [e]), u))))"

record 's writtenItem =
  wi_item :: nat
  wi_written :: "'s writtenCopy list"
  wi_record :: "'s recordUndo"

text \<open>The finished items, given newest first, each attempted whatever the others do.\<close>

fun undo_finished :: "('s, 'f) Issuer \<Rightarrow> 's writtenItem list \<Rightarrow> err \<Rightarrow> 's \<Rightarrow> item_errors \<times> 's" where
  "undo_finished i [] cause s = ([], s)"
| "undo_finished i (f # fs) cause s =
     (case removeWritten i (wi_written f) cause (Some (wi_record f)) s of
        (r, t) \<Rightarrow>
          (case undo_finished i fs cause t of
             (kept, u) \<Rightarrow> ((case r of None \<Rightarrow> kept | Some e \<Rightarrow> (wi_item f, e) # kept), u)))"

definition undo_current :: "('s, 'f) Issuer \<Rightarrow> ('s writtenItem \<times> err) option \<Rightarrow> err \<Rightarrow> 's \<Rightarrow> item_errors \<times> 's" where
  "undo_current i cur cause s =
     (case cur of
        None \<Rightarrow> ([], s)
      | Some (c, curErr) \<Rightarrow>
          if as_undo curErr
          then (case removeWritten i (wi_written c) curErr None s of (_, t) \<Rightarrow> ([(wi_item c, curErr)], t))
          else (case removeWritten i (wi_written c) cause (Some (wi_record c)) s of
                  (None, t) \<Rightarrow> ([], t)
                | (Some e, t) \<Rightarrow> ([(wi_item c, e)], t)))"

definition undoItems ::
    "('s, 'f) Issuer \<Rightarrow> nat \<Rightarrow> ('s writtenItem \<times> err) option \<Rightarrow> 's writtenItem list \<Rightarrow> err \<Rightarrow> 's \<Rightarrow> err \<times> 's" where
  "undoItems i items cur finished cause s =
     (case undo_current i cur cause s of
        (kept1, t) \<Rightarrow>
          (case undo_finished i (rev finished) cause t of
             (kept2, u) \<Rightarrow>
               (let kept = kept1 @ kept2
                in (if kept = [] then cause
                    else if items = 1 then snd (hd kept)
                    else (let es = with_errors kept [] in AcrossUndoError (map fst es) (map snd es) cause), u))))"

definition undoAcross ::
    "('s, 'f) Issuer \<Rightarrow> 's writtenCopy list \<Rightarrow> err \<Rightarrow> 's recordUndo option \<Rightarrow> 's \<Rightarrow> err \<times> 's" where
  "undoAcross i written cause rec s =
     (if as_undo cause then (cause, s)
      else case removeWritten i written cause rec s of
        (Some e, t) \<Rightarrow> (e, t)
      | (None, t) \<Rightarrow> (cause, t))"

section \<open>Writing every item\<close>

definition copy_result :: "string \<Rightarrow> 's writtenCopy \<Rightarrow> IssueResult" where
  "copy_result rid w =
     \<lparr>res_Scope = t_Scope (cp_target (wc_plan w)), res_ID = rid, res_Href = d_Href (cp_ctrl (wc_plan w)),
      res_Control = cp_ctrl (wc_plan w), res_Supersedes = wc_marked w\<rparr>"

fun write_items ::
    "('s, 'f) Issuer \<Rightarrow> nat \<Rightarrow> 's writtenItem list \<Rightarrow> 's plannedAcross list \<Rightarrow> (err, 's, AcrossResult list) io" where
  "write_items i items finished [] s = (Inr [], s)"
| "write_items i items finished (p # ps) s =
     (case pl_record p (pl_id p) (pl_ctrl p) s of
        (Inl e, t) \<Rightarrow>
          (case undoItems i items None finished (Errorf ''dercontrol: store record'' [e]) t of
             (e', u) \<Rightarrow> (Inl e', u))
      | (Inr undoRecord, t) \<Rightarrow>
          (case writeCopies i (pl_copies p) (pl_id p) t of
             ((ws, r), u) \<Rightarrow>
               (let cur = \<lparr>wi_item = pl_item p, wi_written = ws,
                           wi_record = \<lparr>ru_id = pl_id p, ru_undo = undoRecord\<rparr>\<rparr>
                in case r of
                     Some e \<Rightarrow>
                       (case undoItems i items (Some (cur, e)) finished e u of (e', v) \<Rightarrow> (Inl e', v))
                   | None \<Rightarrow>
                       (case write_items i items (finished @ [cur]) ps u of
                          (Inl e, v) \<Rightarrow> (Inl e, v)
                        | (Inr rs, v) \<Rightarrow>
                            (Inr (\<lparr>ar_ID = pl_id p, ar_Control = pl_ctrl p,
                                   ar_Copies = map (copy_result (pl_id p)) ws\<rparr> # rs), v)))))"

definition writeAcross :: "('s, 'f) Issuer \<Rightarrow> 's plannedAcross list \<Rightarrow> (err, 's, AcrossResult list) io" where
  "writeAcross i planned = write_items i (length planned) [] planned"

definition zero_control :: DERControl where
  "zero_control = \<lparr>d_MRID = [], d_Description = [], d_CreationTime = 0, d_Interval = None, d_Href = [],
     d_Base = None, d_EventStatus = None\<rparr>"

definition controls_by_item :: "nat \<Rightarrow> 's plannedAcross list \<Rightarrow> DERControl list" where
  "controls_by_item n planned = foldl (\<lambda>cs p. cs[pl_item p := pl_ctrl p]) (replicate n zero_control) planned"

definition refusal_of_plan :: "err option \<Rightarrow> item_errors \<Rightarrow> err option" where
  "refusal_of_plan checkErr refused =
     (case checkErr of
        Some e \<Rightarrow> if refused \<noteq> [] then Some (Errorf ''join'' [e, item_error refused]) else Some e
      | None \<Rightarrow> if refused \<noteq> [] then Some (item_error refused) else None)"

text \<open>The part of \<open>acrossAll\<close> after the scopes were read.\<close>

definition across_planned ::
    "('s, 'f) Issuer \<Rightarrow> 's ctx \<Rightarrow> int \<Rightarrow> nat \<Rightarrow> AcrossCheck option \<Rightarrow> ('s, 'f) preparedAcross list \<Rightarrow> item_errors \<Rightarrow>
     scope_lists \<Rightarrow> scope_errors \<Rightarrow> (err, 's, 's plannedAcross list) io" where
  "across_planned i ctx now n check prepared refused existing scopeErrs s =
     (let (usable, scopeRefused) = usable_items scopeErrs prepared;
          first = nextCreationTime now (map snd existing)
      in case resolveAcross i first now 0 usable s of
           ((planned, resolveRefused), t) \<Rightarrow>
             (let checkErr = (case check of None \<Rightarrow> None | Some chk \<Rightarrow> chk (controls_by_item n planned))
              in case planAcross i usable existing (\<lambda>_. []) planned t of
                   ((planned', planRefused), u) \<Rightarrow>
                     (let refused = with_errors (with_errors (refused @ scopeRefused) resolveRefused) planRefused
                      in case refusal_of_plan checkErr refused of
                           Some e \<Rightarrow> (Inl e, u)
                         | None \<Rightarrow>
                             (case ctx u of Some e \<Rightarrow> (Inl e, u) | None \<Rightarrow> (Inr planned', u)))))"

definition acrossAll ::
    "('s, 'f) Issuer \<Rightarrow> 's ctx \<Rightarrow> int \<Rightarrow> ('s, 'f) Across list \<Rightarrow> AcrossCheck option \<Rightarrow>
     ('s plannedAcross list \<Rightarrow> (err, 's, 'a) io) \<Rightarrow> (err, 's, 'a) io" where
  "acrossAll i ctx now items check write =
     (if items = [] then io_fail (Errorf ''dercontrol: no control to issue'' [])
      else (let (prepared, refused) = prepareAcross i now 0 items
            in io_bind (readScopes i prepared) (\<lambda>(existing, scopeErrs).
               io_bind (across_planned i ctx now (length items) check prepared refused existing scopeErrs) write)))"

definition IssueAcrossAll ::
    "('s, 'f) Issuer \<Rightarrow> 's ctx \<Rightarrow> int \<Rightarrow> ('s, 'f) Across list \<Rightarrow> AcrossCheck option \<Rightarrow> (err, 's, AcrossResult list) io" where
  "IssueAcrossAll i ctx now items check = acrossAll i ctx now items check (writeAcross i)"

definition PlanAcrossAll ::
    "('s, 'f) Issuer \<Rightarrow> 's ctx \<Rightarrow> int \<Rightarrow> ('s, 'f) Across list \<Rightarrow> AcrossCheck option \<Rightarrow> (err, 's, unit) io" where
  "PlanAcrossAll i ctx now items check = acrossAll i ctx now items check (\<lambda>_. io_return ())"

definition IssueAcross ::
    "('s, 'f) Issuer \<Rightarrow> 's ctx \<Rightarrow> int \<Rightarrow> 'f CreateRequest \<Rightarrow> 's Target list \<Rightarrow> 's RecordWriter \<Rightarrow>
     (err, 's, AcrossResult) io" where
  "IssueAcross i ctx now req targets rec =
     io_bind (io_map_err SoleItemError
       (IssueAcrossAll i ctx now
          [\<lparr>a_Req = req, a_Targets = targets, a_Record = rec, a_StartOffset = 0, a_FleetTotal = False\<rparr>] None)) (\<lambda>res.
       case res of [] \<Rightarrow> io_fail (Panic ''index out of range'') | r # _ \<Rightarrow> io_return r)"

section \<open>Replicating\<close>

record 's Replica =
  rp_Target :: "'s Target"
  rp_ID :: string
  rp_Control :: DERControl
  rp_Origin :: string
  rp_FleetTotal :: bool

fun supersededByNewer ::
    "('s, 'f) Issuer \<Rightarrow> string \<Rightarrow> DERControl list \<Rightarrow> DERControl \<Rightarrow> LifecycleRecord \<Rightarrow> (err, 's, LifecycleRecord) io" where
  "supersededByNewer i scopeKey [] ctrl lc = io_return lc"
| "supersededByNewer i scopeKey (c # cs) ctrl lc =
     (let iv = the (d_Interval ctrl); next = supersededByNewer i scopeKey cs ctrl
      in if \<not> replacedBy c (functionSetKey (d_Base ctrl)) (Start iv) (IntervalEnd iv) then next lc
         else case ControlID (d_Href c) of
           None \<Rightarrow> next lc
         | Some rid \<Rightarrow>
             io_try (lifecycles_Get i scopeKey rid) (\<lambda>r.
               case r of
                 Inl e \<Rightarrow> if err_is e ErrNotFound then next lc
                          else io_fail (Errorf ''dercontrol: load lifecycle'' [e])
               | Inr clc \<Rightarrow>
                   if cancelled clc then next lc
                   else (let st = Start (the (d_Interval c))
                         in next (case lc_SupersededAt lc of
                              None \<Rightarrow> lc\<lparr>lc_SupersededAt := Some st, lc_SupersededBy := d_MRID c\<rparr>
                            | Some cur \<Rightarrow>
                                if st < cur then lc\<lparr>lc_SupersededAt := Some st, lc_SupersededBy := d_MRID c\<rparr> else lc))))"

text \<open>\<open>None\<close> when the scope already holds the replica.\<close>

definition planReplica :: "('s, 'f) Issuer \<Rightarrow> 's Replica \<Rightarrow> (err, 's, 's copyPlan option) io" where
  "planReplica i r =
     (let scope = t_Scope (rp_Target r); scopeKey = Key scope; fleet = t_Fleet (rp_Target r)
      in io_bind (checkProgram i scope) (\<lambda>_.
         io_try (controls_Get i scopeKey (rp_ID r)) (\<lambda>got.
           case got of
             Inr _ \<Rightarrow> io_return None
           | Inl e \<Rightarrow>
               if \<not> err_is e ErrNotFound then io_fail (Errorf ''dercontrol: load control'' [e])
               else
                 io_bind (io_map_err (\<lambda>e. Errorf ''dercontrol: list scope'' [e])
                            (controls_List i scopeKey unbounded_options)) (\<lambda>lst.
                 let ctrl = copyOf (rp_Control r) scope (rp_ID r); iv = the (d_Interval ctrl);
                     older = filter (\<lambda>c. d_CreationTime c < d_CreationTime ctrl) (lr_Items lst);
                     newer = filter (\<lambda>c. d_CreationTime c > d_CreationTime ctrl) (lr_Items lst)
                 in io_bind (computeSupersedes i scopeKey older (d_Base ctrl) (Start iv) (IntervalEnd iv)) (\<lambda>cands.
                    io_bind (supersededByNewer i scopeKey newer ctrl
                               (zero_lifecycle\<lparr>lc_FleetKey := f_Key fleet, lc_Reach := f_Reach fleet,
                                  lc_Origin := rp_Origin r, lc_FleetTotal := rp_FleetTotal r\<rparr>)) (\<lambda>link.
                    io_bind (finishPlan (rp_Target r) ctrl [] cands link) (\<lambda>p. io_return (Some p))))))))"

fun replicate_all ::
    "('s, 'f) Issuer \<Rightarrow> 's writtenCopy list \<Rightarrow> 's Replica list \<Rightarrow> (err, 's, IssueResult list) io" where
  "replicate_all i written [] s = (Inr (map (\<lambda>w. copy_result (wc_id w) w) written), s)"
| "replicate_all i written (r # rs) s =
     (let undo = (\<lambda>ws e t. case undoAcross i ws e None t of (e', u) \<Rightarrow> (Inl e', u))
      in case planReplica i r s of
           (Inl e, t) \<Rightarrow> undo written e t
         | (Inr None, t) \<Rightarrow> replicate_all i written rs t
         | (Inr (Some p), t) \<Rightarrow>
             (case writeCopies i [p] (rp_ID r) t of
                ((w, Some e), u) \<Rightarrow> undo (written @ w) e u
              | ((w, None), u) \<Rightarrow> replicate_all i (written @ w) rs u))"

definition replica_error :: "'s Replica \<Rightarrow> err option" where
  "replica_error r =
     (if \<not> bounded_fleet (t_Fleet (rp_Target r)) then Some ErrUncheckedCommitment
      else if d_Interval (rp_Control r) = None \<or> d_Base (rp_Control r) = None
      then Some (Errorf ''dercontrol: replica has no interval or control base'' []) else None)"

definition Replicate :: "('s, 'f) Issuer \<Rightarrow> 's Replica list \<Rightarrow> (err, 's, IssueResult list) io" where
  "Replicate i replicas s =
     (case List.map_filter replica_error replicas of
        e # _ \<Rightarrow> (Inl e, s)
      | [] \<Rightarrow> replicate_all i [] replicas s)"

end
