(* ===== verification/IssuerLaws.thy ===== *)
theory IssuerLaws
  imports Issuer
begin

text \<open>
  What the issuer's operations do to the two stores. The locale states what the issuer relies
  on: a control store and a lifecycle store that are maps of two keys, whose failed writes
  change nothing, and which do not touch each other. Inside it the operations are related to
  pure functions of the two maps; the server's stores interpret it.
\<close>

section \<open>Ids in hrefs\<close>

text \<open>A store id has no slash, so the id of a control is recovered from its href.\<close>

lemma digits_hex: "c \<in> set (digits w n) \<Longrightarrow> upper_hex c"
proof (induction w arbitrary: n)
  case (Suc w)
  have "digit_char (n mod 10) = hexDigit (n mod 10)" by (simp add: digit_char_def hexDigit_def)
  with Suc upper_hex_hexDigit [of "n mod 10"] show ?case by auto
qed simp

lemma segment_sortableID: "segment (sortableID start ct m)"
proof -
  have slash: "\<not> upper_hex CHR ''/''" by (simp add: upper_hex_def)
  have "CHR ''/'' \<notin> set (fmt_d11 n)" for n
    using digits_hex slash by (auto simp: fmt_d11_def)
  moreover have "CHR ''/'' \<notin> set (invertHex m)"
  proof
    assume "CHR ''/'' \<in> set (invertHex m)"
    then obtain c where "CHR ''/'' = hexDigit (15 - hexValue c)" by (auto simp: invertHex_def)
    then show False using upper_hex_hexDigit [of "15 - hexValue c"] slash by simp
  qed
  moreover have "fmt_d11 n \<noteq> []" for n
  proof -
    have "length (fmt_d11 n) \<ge> 11" unfolding fmt_d11_def by (cases "n < 0") (simp_all del: length_greater_0_conv)
    then show ?thesis by auto
  qed
  ultimately show ?thesis by (simp add: segment_def sortableID_def)
qed

section \<open>Reference functions\<close>

type_synonym 'a map2 = "string \<Rightarrow> string \<Rightarrow> 'a option"

text \<open>The candidate a stored control gives, if any.\<close>

definition candidate_of ::
    "(string \<Rightarrow> LifecycleRecord option) \<Rightarrow> string \<Rightarrow> int \<Rightarrow> int \<Rightarrow> DERControl \<Rightarrow> supersedeCandidate option" where
  "candidate_of L st start stop c =
     (if d_Interval c = None then None
      else case ControlID (d_Href c) of
        None \<Rightarrow> None
      | Some rid \<Rightarrow>
          (case L rid of
             None \<Rightarrow> None
           | Some lc \<Rightarrow>
               if supersedeEligible lc start \<and> replacedBy c st start stop
               then Some \<lparr>sc_id = rid, sc_mrid = d_MRID c, sc_before = lc\<rparr> else None))"

definition candidates ::
    "(string \<Rightarrow> LifecycleRecord option) \<Rightarrow> DERControl list \<Rightarrow> DERControlBase option \<Rightarrow> int \<Rightarrow> int \<Rightarrow> supersedeCandidate list" where
  "candidates L existing base start stop =
     List.map_filter (candidate_of L (functionSetKey base) start stop) existing"

lemma in_map_filter: "y \<in> set (List.map_filter f xs) \<longleftrightarrow> (\<exists>x \<in> set xs. f x = Some y)"
  by (induction xs) (auto simp: List.map_filter_simps split: option.splits)

lemma candidate_of_Some:
  "candidate_of L st start stop c = Some d \<Longrightarrow>
     L (sc_id d) = Some (sc_before d) \<and> ControlID (d_Href c) = Some (sc_id d) \<and> sc_mrid d = d_MRID c \<and>
     supersedeEligible (sc_before d) start \<and> replacedBy c st start stop"
  by (auto simp: candidate_of_def split: if_splits option.splits)

lemma candidates_before:
  "c \<in> set (candidates L existing base start stop) \<Longrightarrow> L (sc_id c) = Some (sc_before c)"
  unfolding candidates_def in_map_filter using candidate_of_Some by blast

definition mark_all ::
    "string \<Rightarrow> int \<Rightarrow> string \<Rightarrow> supersedeCandidate list \<Rightarrow> LifecycleRecord map2 \<Rightarrow> LifecycleRecord map2" where
  "mark_all k start m cands L = foldl (\<lambda>L c. upd2 L k (sc_id c) (Some (marked_record c start m))) L cands"

lemma mark_all_simps [simp]:
  "mark_all k start m [] L = L"
  "mark_all k start m (cs @ [c]) L = upd2 (mark_all k start m cs L) k (sc_id c) (Some (marked_record c start m))"
  "mark_all k start m (c # cs) L = mark_all k start m cs (upd2 L k (sc_id c) (Some (marked_record c start m)))"
  by (simp_all add: mark_all_def)

text \<open>A mark changes candidates only, and leaves each with a record that names the new control.\<close>

lemma mark_all_other:
  "\<not> (p = k \<and> x \<in> sc_id ` set cs) \<Longrightarrow> mark_all k start m cs L p x = L p x"
  by (induction cs arbitrary: L) (auto simp: upd2_apply)

lemma mark_all_marked:
  "x \<in> sc_id ` set cs \<Longrightarrow>
   \<exists>c \<in> set cs. sc_id c = x \<and> mark_all k start m cs L k x = Some (marked_record c start m)"
proof (induction cs rule: rev_induct)
  case (snoc c cs)
  show ?case
  proof (cases "x = sc_id c")
    case False
    with snoc show ?thesis by (auto simp: upd2_apply)
  qed (auto simp: upd2_apply)
qed simp

abbreviation plan_key :: "'s copyPlan \<Rightarrow> string" where
  "plan_key p \<equiv> Key (t_Scope (cp_target p))"

abbreviation cand_ids :: "'s copyPlan \<Rightarrow> string set" where
  "cand_ids p \<equiv> sc_id ` set (cp_candidates p)"

text \<open>A plan made from the lifecycle records \<open>L\<close>.\<close>

definition plan_ok :: "LifecycleRecord map2 \<Rightarrow> 's copyPlan \<Rightarrow> bool" where
  "plan_ok L p \<longleftrightarrow> d_Interval (cp_ctrl p) \<noteq> None \<and>
     (\<forall>c \<in> set (cp_candidates p). L (plan_key p) (sc_id c) = Some (sc_before c))"

definition plan_start :: "'s copyPlan \<Rightarrow> int" where
  "plan_start p = Start (the (d_Interval (cp_ctrl p)))"

text \<open>The two maps after a whole copy is written.\<close>

definition copied_control :: "'s copyPlan \<Rightarrow> string \<Rightarrow> DERControl map2 \<Rightarrow> DERControl map2" where
  "copied_control p rid C = upd2 C (plan_key p) rid (Some (cp_ctrl p))"

definition copied_lifecycle :: "'s copyPlan \<Rightarrow> string \<Rightarrow> LifecycleRecord map2 \<Rightarrow> LifecycleRecord map2" where
  "copied_lifecycle p rid L =
     mark_all (plan_key p) (plan_start p) (d_MRID (cp_ctrl p)) (cp_candidates p)
       (upd2 L (plan_key p) rid (Some (cp_link p)))"

text \<open>
  What a failed write whose undo failed too may leave of a copy: its lifecycle record; the
  control only with that record; a mark only on a candidate, naming the control, and only while
  the control is stored. Everything else is as it was.
\<close>

definition remainder_ok ::
    "'s copyPlan \<Rightarrow> string \<Rightarrow> bool \<Rightarrow> DERControl map2 \<Rightarrow> LifecycleRecord map2 \<Rightarrow>
     DERControl map2 \<Rightarrow> LifecycleRecord map2 \<Rightarrow> bool" where
  "remainder_ok p rid controlKept C L C' L' \<longleftrightarrow>
     C' = (if controlKept then copied_control p rid C else C) \<and>
     L (plan_key p) rid = None \<and> L' (plan_key p) rid = Some (cp_link p) \<and>
     (\<forall>q x. (q, x) \<noteq> (plan_key p, rid) \<longrightarrow>
        L' q x = L q x \<or>
        controlKept \<and> q = plan_key p \<and> (\<exists>c \<in> set (cp_candidates p). sc_id c = x \<and>
          L' q x = Some (marked_record c (plan_start p) (d_MRID (cp_ctrl p)))))"

fun control_kept :: "err \<Rightarrow> bool" where
  "control_kept (UndoError _ ck _ _ _ _ _) = ck"
| "control_kept _ = False"

text \<open>
  The whole effect of a successful issue: a control that is new to its scope, stored under an
  id built from its own fields with a lifecycle record carrying the fleet's link, and every
  control of the scope it replaces marked as superseded by it from its start.
\<close>

definition issued ::
    "int \<Rightarrow> string \<Rightarrow> 's Fleet \<Rightarrow> DERControl list \<Rightarrow> IssueResult \<Rightarrow>
     DERControl map2 \<Rightarrow> LifecycleRecord map2 \<Rightarrow> DERControl map2 \<Rightarrow> LifecycleRecord map2 \<Rightarrow> bool" where
  "issued now grant fleet existing res C L C' L' \<longleftrightarrow>
     (let k = Key (res_Scope res); x = res_ID res; c = res_Control res; iv = the (d_Interval c);
          cands = candidates (L k) existing (d_Base c) (Start iv) (IntervalEnd iv);
          link = zero_lifecycle\<lparr>lc_GrantMRID := grant, lc_FleetKey := f_Key fleet, lc_Reach := f_Reach fleet\<rparr>
      in d_Interval c \<noteq> None \<and> C k x = None \<and> L k x = None \<and>
         C' = upd2 C k x (Some c) \<and>
         L' = mark_all k (Start iv) (d_MRID c) cands (upd2 L k x (Some link)) \<and>
         d_CreationTime c = nextCreationTime now [existing] \<and>
         x = sortableID (Start iv) (d_CreationTime c) (d_MRID c) \<and>
         d_Href c = ControlHref (res_Scope res) x \<and> res_Href res = d_Href c \<and>
         res_Supersedes res = map sc_mrid cands)"

text \<open>
  A state an unfinished issue may leave behind: every control it stored has its lifecycle
  record, and every record it changed names a control that is stored as its superseder.
\<close>

definition legal_rest ::
    "DERControl map2 \<Rightarrow> LifecycleRecord map2 \<Rightarrow> DERControl map2 \<Rightarrow> LifecycleRecord map2 \<Rightarrow> bool" where
  "legal_rest C L C' L' \<longleftrightarrow>
     (\<forall>k x c. C' k x = Some c \<and> L' k x = None \<longrightarrow> C k x = Some c \<and> L k x = None) \<and>
     (\<forall>k x lc old. L' k x = Some lc \<and> L k x = Some old \<and> lc \<noteq> old \<longrightarrow>
        (\<exists>y c. C' k y = Some c \<and> d_MRID c = lc_SupersededBy lc)) \<and>
     (\<forall>k x. L k x \<noteq> None \<longrightarrow> L' k x \<noteq> None)"

lemma legal_rest_refl [simp]: "legal_rest C L C L"
  by (auto simp: legal_rest_def)

lemma remainder_legal:
  assumes "remainder_ok p x ck C L C' L'"
  shows "legal_rest C L C' L'"
proof -
  let ?k = "plan_key p"
  have C: "C' = (if ck then upd2 C ?k x (Some (cp_ctrl p)) else C)" and Lx: "L ?k x = None" "L' ?k x = Some (cp_link p)"
    and other: "\<And>q y. (q, y) \<noteq> (?k, x) \<Longrightarrow> L' q y = L q y \<or>
      ck \<and> q = ?k \<and> (\<exists>c \<in> set (cp_candidates p). sc_id c = y \<and> L' q y = Some (marked_record c (plan_start p) (d_MRID (cp_ctrl p))))"
    using assms by (auto simp: remainder_ok_def copied_control_def)
  have "C q y = Some c \<and> L q y = None" if "C' q y = Some c" "L' q y = None" for q y c
    using that C Lx other [of q y] by (cases "(q, y) = (?k, x)") (auto simp: upd2_apply split: if_splits)
  moreover have "\<exists>z c. C' q z = Some c \<and> d_MRID c = lc_SupersededBy lc"
    if "L' q y = Some lc" "L q y = Some old" "lc \<noteq> old" for q y lc old
    using that C Lx other [of q y] by (cases "(q, y) = (?k, x)") (auto simp: upd2_apply marked_record_def)
  moreover have "L' q y \<noteq> None" if "L q y \<noteq> None" for q y
    using that Lx other [of q y] by (cases "(q, y) = (?k, x)") auto
  ultimately show ?thesis unfolding legal_rest_def by blast
qed

text \<open>The state of a stored control, and whether it may still act.\<close>

definition live_state :: "(string \<Rightarrow> LifecycleRecord option) \<Rightarrow> DERControl \<Rightarrow> int \<Rightarrow> State" where
  "live_state L c now =
     (case L (controlIDOf (d_Href c)) of
        None \<Rightarrow> ControlState c zero_lifecycle False now
      | Some lc \<Rightarrow> ControlState c lc True now)"

definition control_live :: "(string \<Rightarrow> LifecycleRecord option) \<Rightarrow> DERControl \<Rightarrow> int \<Rightarrow> bool" where
  "control_live L c now \<longleftrightarrow> live_state L c now \<noteq> Retired"

lemma stateOf_live_state:
  assumes "\<And>p x. getter p x s = (case L p x of None \<Rightarrow> Inl ErrNotFound | Some v \<Rightarrow> Inr v, s)"
  shows "stateOf getter k c now s = (Inr (live_state (L k) c now), s)"
  by (auto simp: stateOf_def live_state_def ControlState_def io_simps assms split: option.splits)

definition live_hrefs ::
    "DERControl map2 \<Rightarrow> LifecycleRecord map2 \<Rightarrow> string set \<Rightarrow> int \<Rightarrow> string set" where
  "live_hrefs C L ks now = {d_Href c | k c. k \<in> ks \<and> c \<in> ran (C k) \<and> control_live (L k) c now}"

definition the_live :: "('s, 'f) Issuer \<Rightarrow> int \<Rightarrow> Scope list \<Rightarrow> 's \<Rightarrow> string list" where
  "the_live i now scopes s =
     (case fst (live_in_scopes i (lock_order (map Key scopes)) now s) of Inl _ \<Rightarrow> [] | Inr hs \<Rightarrow> sort hs)"

text \<open>A newer control retires every control it replaces, from its own start on.\<close>

lemma ineligible_retired:
  "\<not> supersedeEligible lc start \<Longrightarrow> start \<le> now \<Longrightarrow> ControlState d lc True now = Retired"
  by (auto simp: ControlState_lc supersedeEligible_def supersededAsOf_def cancelled_def split: if_splits option.splits)

lemma marks_retire:
  assumes "d \<in> set existing" and "ControlID (d_Href d) = Some y" and "L y = Some lc"
    and "replacedBy d (functionSetKey base) start stop" and "start \<le> now" and "M k y = Some lc"
  defines "cands \<equiv> candidates L existing base start stop"
  shows "\<exists>lc'. mark_all k start m cands M k y = Some lc' \<and> ControlState d lc' True now = Retired"
proof (cases "supersedeEligible lc start")
  case True
  have "d_Interval d \<noteq> None" using assms(4) by (auto simp: replacedBy_def split: option.splits)
  with True assms(2-4) have "candidate_of L (functionSetKey base) start stop d =
      Some \<lparr>sc_id = y, sc_mrid = d_MRID d, sc_before = lc\<rparr>" by (simp add: candidate_of_def)
  with assms(1) have "\<lparr>sc_id = y, sc_mrid = d_MRID d, sc_before = lc\<rparr> \<in> set cands"
    unfolding cands_def candidates_def in_map_filter by blast
  then have "y \<in> sc_id ` set cands" by force
  from mark_all_marked [OF this] obtain c where "mark_all k start m cands M k y = Some (marked_record c start m)" by blast
  moreover have "ControlState d (marked_record c start m) True now = Retired"
    using assms(5) by (simp add: ControlState_lc marked_record_def supersededAsOf_def)
  ultimately show ?thesis by blast
next
  case False
  have "y \<notin> sc_id ` set cands"
  proof
    assume "y \<in> sc_id ` set cands"
    then obtain c where c: "c \<in> set cands" "sc_id c = y" by blast
    then obtain e where "candidate_of L (functionSetKey base) start stop e = Some c"
      unfolding cands_def candidates_def in_map_filter by blast
    from candidate_of_Some [OF this] c(2) assms(3) False show False by auto
  qed
  with mark_all_other [of k k y cands start m M] assms(6) ineligible_retired [OF False assms(5)]
  show ?thesis by auto
qed

lemma issued_retires:
  assumes "issued now0 grant fleet existing res C L C' L'"
  defines "k \<equiv> Key (res_Scope res)" and "c \<equiv> res_Control res"
  assumes "d \<in> set existing" and "ControlID (d_Href d) = Some y" and "L k y \<noteq> None"
    and "replacedBy d (functionSetKey (d_Base c)) (Start (the (d_Interval c))) (IntervalEnd (the (d_Interval c)))"
    and "Start (the (d_Interval c)) \<le> now"
  shows "live_state (L' k) d now = Retired"
proof -
  let ?iv = "the (d_Interval c)"
  let ?L = "upd2 L k (res_ID res) (Some (zero_lifecycle\<lparr>lc_GrantMRID := grant, lc_FleetKey := f_Key fleet, lc_Reach := f_Reach fleet\<rparr>))"
  obtain lc where lc: "L k y = Some lc" using assms(6) by blast
  from assms(1) have new: "L k (res_ID res) = None"
    and L': "L' = mark_all k (Start ?iv) (d_MRID c) (candidates (L k) existing (d_Base c) (Start ?iv) (IntervalEnd ?iv)) ?L"
    by (auto simp: issued_def Let_def k_def c_def)
  from new lc have "y \<noteq> res_ID res" by auto
  then have "?L k y = Some lc" using lc by (simp add: upd2_apply)
  from marks_retire [where L = "L k" and M = ?L, OF assms(4,5) lc assms(7,8) this] L'
  obtain lc' where "L' k y = Some lc'" "ControlState d lc' True now = Retired" by blast
  then show ?thesis using assms(5) by (simp add: live_state_def controlIDOf_def)
qed

text \<open>A control that has no lifecycle record is no candidate, and gets none.\<close>

lemma issued_leaves_recordless:
  assumes "issued now0 grant fleet existing res C L C' L'"
    and "L (Key (res_Scope res)) y = None" and "y \<noteq> res_ID res"
  shows "L' (Key (res_Scope res)) y = None"
proof -
  let ?k = "Key (res_Scope res)" and ?c = "res_Control res"
  let ?iv = "the (d_Interval ?c)"
  have "y \<notin> sc_id ` set (candidates (L ?k) existing (d_Base ?c) (Start ?iv) (IntervalEnd ?iv))"
    using assms(2) by (auto dest: candidates_before)
  with assms show ?thesis by (simp add: issued_def Let_def mark_all_other upd2_apply)
qed

section \<open>The stores the issuer relies on\<close>

locale issuer_stores =
  ctl: scoped_store cabs inv "controls_Get i" "controls_Create i" "controls_Delete i" +
  lcs: rollback_store labs inv "lifecycles_Get i" "lifecycles_Create i" "lifecycles_Delete i" "lifecycles_Update i"
  for i :: "('s, 'f) Issuer" and cabs :: "'s \<Rightarrow> DERControl map2" and labs :: "'s \<Rightarrow> LifecycleRecord map2"
    and inv :: "'s \<Rightarrow> bool" +
  fixes oabs :: "'s \<Rightarrow> 'o"
  assumes rolls: "controls_rolls i" "lifecycles_rolls i"
    and program_reads: "inv s \<Longrightarrow> programs_Get i edev derp s = (rp, t) \<Longrightarrow> t = s"
    and list_law: "inv s \<Longrightarrow> \<exists>l. controls_List i p unbounded_options s = (Inr l, s) \<and>
        (card (dom (cabs s p)) < 2 ^ 32 \<longrightarrow> set (lr_Items l) = ran (cabs s p))"
    and control_frame: "inv s \<Longrightarrow> controls_Create i p x c s = (r, t) \<Longrightarrow> labs t = labs s \<and> oabs t = oabs s"
      "inv s \<Longrightarrow> controls_Delete i p x s = (r, t) \<Longrightarrow> labs t = labs s \<and> oabs t = oabs s"
    and lifecycle_frame: "inv s \<Longrightarrow> lifecycles_Create i p x lc s = (r, t) \<Longrightarrow> cabs t = cabs s \<and> oabs t = oabs s"
      "inv s \<Longrightarrow> lifecycles_Update i p x lc s = (r, t) \<Longrightarrow> cabs t = cabs s \<and> oabs t = oabs s"
      "inv s \<Longrightarrow> lifecycles_Delete i p x s = (r, t) \<Longrightarrow> cabs t = cabs s \<and> oabs t = oabs s"
    and mint_frame: "inv s \<Longrightarrow> i_newMRID i pen s = (rm, t) \<Longrightarrow>
        inv t \<and> cabs t = cabs s \<and> labs t = labs s \<and> oabs t = oabs s"
begin

abbreviation same :: "'s \<Rightarrow> 's \<Rightarrow> bool" where
  "same s t \<equiv> inv t \<and> cabs t = cabs s \<and> labs t = labs s \<and> oabs t = oabs s"

text \<open>The reads.\<close>

lemma list_reads:
  "inv s \<Longrightarrow> controls_List i p unbounded_options s = (rl, t) \<Longrightarrow>
    t = s \<and> (\<forall>l. rl = Inr l \<longrightarrow> card (dom (cabs s p)) < 2 ^ 32 \<longrightarrow> set (lr_Items l) = ran (cabs s p))"
  using list_law [of s p] by auto

lemma computeSupersedes_eq:
  assumes "inv s"
  shows "computeSupersedes i k existing base start stop s =
    (Inr (candidates (labs s k) existing base start stop), s)"
  using assms
  by (induction existing)
    (auto simp: candidates_def candidate_of_def List.map_filter_simps io_simps Let_def lcs.get_law err_is_def
      split: option.splits)

text \<open>The marks.\<close>

lemma update_cases:
  assumes "inv s" and "lifecycles_Update i k x lc s = (r, t)"
  shows "inv t \<and> cabs t = cabs s \<and> oabs t = oabs s \<and>
    (case r of Inr _ \<Rightarrow> labs t = upd2 (labs s) k x (Some lc) | Inl _ \<Rightarrow> labs t = labs s) \<and>
    (undoWriteOK r \<and> labs s k x \<noteq> None \<longrightarrow> labs t = upd2 (labs s) k x (Some lc))"
  using lcs.update_law [OF assms] lifecycle_frame(2) [OF assms]
  by (cases r) (auto simp: undoWriteOK_def)

lemma applySupersedes_law:
  assumes "inv s" and "applySupersedes i k start m tried cs s = ((marked, r), t)"
  shows "inv t \<and> cabs t = cabs s \<and> oabs t = oabs s \<and>
    (case r of
       None \<Rightarrow> marked = map sc_mrid (tried @ cs) \<and> labs t = mark_all k start m cs (labs s)
     | Some (attempted, e) \<Rightarrow> \<exists>pre c post. cs = pre @ c # post \<and> attempted = tried @ pre @ [c] \<and>
         labs t = mark_all k start m pre (labs s))"
  using assms
proof (induction cs arbitrary: tried s)
  case (Cons c cs)
  obtain q u where u: "lifecycles_Update i k (sc_id c) (marked_record c start m) s = (q, u)" by fastforce
  note law = update_cases [OF Cons.prems(1) u]
  show ?case
  proof (cases q)
    case (Inl e)
    with Cons.prems(2) u law show ?thesis by (auto intro!: exI [of _ "[]"])
  next
    case (Inr x)
    with Cons.prems(2) u have "applySupersedes i k start m (tried @ [c]) cs u = ((marked, r), t)" by simp
    from Cons.IH [OF _ this] Inr law show ?thesis
      by (cases r) (auto simp: Cons_eq_append_conv)
  qed
qed auto

text \<open>Reverting to the records \<open>L\<close> the candidates were read from.\<close>

lemma revertMarks_law:
  assumes "inv s" and "revertMarks i k cs skip s = ((us, rs), t)"
    and "\<forall>c \<in> set cs. L k (sc_id c) = Some (sc_before c) \<and> labs s k (sc_id c) \<noteq> None"
  defines "tried \<equiv> (if skip then butlast cs else cs)"
  shows "inv t \<and> cabs t = cabs s \<and> oabs t = oabs s \<and>
    (\<forall>q x. labs t q x = labs s q x \<or> q = k \<and> x \<in> sc_id ` set tried \<and> labs t q x = L q x) \<and>
    (us = [] \<longrightarrow> (\<forall>q x. labs t q x = (if q = k \<and> x \<in> sc_id ` set tried then L q x else labs s q x)))"
  using assms(1-3) unfolding tried_def
proof (induction cs arbitrary: s us rs)
  case (Cons c cs)
  show ?case
  proof (cases "skip \<and> cs = []")
    case False
    obtain q u where u: "lifecycles_Update i k (sc_id c) (sc_before c) s = (q, u)" by fastforce
    obtain us' rs' where rest: "revertMarks i k cs skip u = ((us', rs'), t)"
      and us: "us = (if undoWriteOK q then us' else sc_id c # us')"
      using Cons.prems(2) False u by (auto split: prod.splits if_splits)
    note law = update_cases [OF Cons.prems(1) u]
    have pres: "labs u k x \<noteq> None" if "labs s k x \<noteq> None" for x
      using law that by (cases q) (auto simp: upd2_apply)
    have ih: "inv t \<and> cabs t = cabs u \<and> oabs t = oabs u \<and>
      (\<forall>q x. labs t q x = labs u q x \<or> q = k \<and> x \<in> sc_id ` set (if skip then butlast cs else cs) \<and> labs t q x = L q x) \<and>
      (us' = [] \<longrightarrow> (\<forall>q x. labs t q x =
         (if q = k \<and> x \<in> sc_id ` set (if skip then butlast cs else cs) then L q x else labs u q x)))"
      using law pres Cons.prems(3) by (intro Cons.IH [OF _ rest]) auto
    have b: "set (if skip then butlast (c # cs) else c # cs) = insert c (set (if skip then butlast cs else cs))"
      using False by auto
    have lu: "labs u q x = labs s q x \<or> q = k \<and> x = sc_id c \<and> labs u q x = L q x" for q x
      using law Cons.prems(3) by (cases q) (auto simp: upd2_apply split: sum.splits if_splits)
    have lu': "labs u q x = (if q = k \<and> x = sc_id c then L q x else labs s q x)" if "us = []" for q x
      using law Cons.prems(3) that us by (auto simp: upd2_apply split: if_splits)
    show ?thesis unfolding b
      using ih law lu lu' us by (intro conjI) (blast | (auto split: if_splits; metis))+
  qed (use Cons.prems in auto)
qed auto

text \<open>The undo of each step of a copy.\<close>

lemma delete_lifecycle_cases:
  assumes "inv s" and "lifecycles_Delete i k x s = (r, t)"
  shows "inv t \<and> cabs t = cabs s \<and> oabs t = oabs s \<and>
    labs t = (if undoWriteOK r then upd2 (labs s) k x None else labs s)"
proof (cases "undoWriteOK r")
  case True
  then have "\<And>e. r = Inl e \<Longrightarrow> err_is e ErrNotFound" by (auto simp: undoWriteOK_def)
  from lcs.delete_gone [OF assms this] lifecycle_frame(3) [OF assms] True show ?thesis by simp
next
  case False
  then obtain e where "r = Inl e" by (auto simp: undoWriteOK_def split: sum.splits)
  with lcs.delete_err [of s k x e t] assms lifecycle_frame(3) [OF assms] False show ?thesis by simp
qed

lemma delete_control_cases:
  assumes "inv s" and "controls_Delete i k x s = (r, t)"
  shows "inv t \<and> labs t = labs s \<and> oabs t = oabs s \<and>
    cabs t = (if undoWriteOK r then upd2 (cabs s) k x None else cabs s)"
proof (cases "undoWriteOK r")
  case True
  then have "\<And>e. r = Inl e \<Longrightarrow> err_is e ErrNotFound" by (auto simp: undoWriteOK_def)
  from ctl.delete_gone [OF assms this] control_frame(2) [OF assms] True show ?thesis by simp
next
  case False
  then obtain e where "r = Inl e" by (auto simp: undoWriteOK_def split: sum.splits)
  with ctl.delete_err [of s k x e t] assms control_frame(2) [OF assms] False show ?thesis by simp
qed

lemma undoControlCreateFailure_law:
  assumes "inv s" and "undoControlCreateFailure i k x cause s = (e, t)"
    and "labs s = upd2 L k x (Some lc)" and "L k x = None"
  shows "inv t \<and> cabs t = cabs s \<and> oabs t = oabs s \<and>
    (if is_UndoError e then \<not> control_kept e \<and> labs t = labs s else labs t = L)"
proof -
  obtain r u where u: "lifecycles_Delete i k x s = (r, u)" by fastforce
  from assms(2) u have "t = u"
    and "e = (if undoWriteOK r then Errorf ''dercontrol: store control'' [cause]
        else UndoError UndoStepStoreControl False True x [] cause (err_of r))"
    by (auto simp: undoControlCreateFailure_def rolls undoWriteOK_def split: if_splits)
  with delete_lifecycle_cases [OF assms(1) u] assms(3,4) show ?thesis
    by (auto simp: upd2_triv split: if_splits)
qed

lemma revert_after_marks:
  assumes "inv s" and "revertMarks i k (pre @ [c]) True s = ((us, rs), t)"
    and before: "\<forall>c \<in> set (pre @ [c]). L k (sc_id c) = Some (sc_before c)" and "L k x = None"
    and ls: "labs s = mark_all k start m pre (upd2 L k x (Some lc))"
  shows "inv t \<and> cabs t = cabs s \<and> oabs t = oabs s" and "labs t k x = Some lc"
    and "(q, y) \<noteq> (k, x) \<Longrightarrow> labs t q y = L q y \<or>
      q = k \<and> (\<exists>c \<in> set pre. sc_id c = y \<and> labs t q y = Some (marked_record c start m))"
    and "us = [] \<Longrightarrow> labs t = upd2 L k x (Some lc)"
proof -
  have x: "x \<notin> sc_id ` set (pre @ [c])" using before assms(4) by auto
  have marked: "labs s q y = (if q = k \<and> y = x then Some lc else L q y)"
    if "\<not> (q = k \<and> y \<in> sc_id ` set pre)" for q y
    using that by (simp add: ls mark_all_other upd2_apply)
  have "labs s k (sc_id d) \<noteq> None" if "d \<in> set (pre @ [c])" for d
    using that before mark_all_marked [of "sc_id d" pre k start m "upd2 L k x (Some lc)"] marked [of k "sc_id d"] x
    by (cases "sc_id d \<in> sc_id ` set pre") (auto simp: ls)
  with before have rv: "inv t \<and> cabs t = cabs s \<and> oabs t = oabs s \<and>
    (\<forall>q y. labs t q y = labs s q y \<or> q = k \<and> y \<in> sc_id ` set pre \<and> labs t q y = L q y) \<and>
    (us = [] \<longrightarrow> (\<forall>q y. labs t q y = (if q = k \<and> y \<in> sc_id ` set pre then L q y else labs s q y)))"
    using revertMarks_law [OF assms(1,2), of L] by auto
  then show "inv t \<and> cabs t = cabs s \<and> oabs t = oabs s" by blast
  have old: "labs t q y = labs s q y" if "\<not> (q = k \<and> y \<in> sc_id ` set pre)" for q y
    using rv that by metis
  show "labs t k x = Some lc" using old [of k x] marked [of k x] x by auto
  show "labs t q y = L q y \<or>
      q = k \<and> (\<exists>c \<in> set pre. sc_id c = y \<and> labs t q y = Some (marked_record c start m))"
    if "(q, y) \<noteq> (k, x)"
  proof (cases "q = k \<and> y \<in> sc_id ` set pre")
    case True
    with mark_all_marked [of y pre k start m "upd2 L k x (Some lc)"] rv ls show ?thesis by metis
  qed (use old [of q y] marked [of q y] that in auto)
  show "labs t = upd2 L k x (Some lc)" if "us = []"
    using rv that marked x by (auto simp: fun_eq_iff upd2_apply)
qed

lemma undoMarkFailure_law:
  assumes "inv s" and "undoMarkFailure i k x (pre @ [c]) cause s = (e, t)"
    and before: "\<forall>c \<in> set (pre @ [c]). L k (sc_id c) = Some (sc_before c)"
    and "L k x = None" and "C k x = None" and "cabs s = upd2 C k x (Some ctrl)"
    and "labs s = mark_all k start m pre (upd2 L k x (Some lc))"
  shows "inv t \<and> oabs t = oabs s \<and>
    (if is_UndoError e
     then cabs t = (if control_kept e then cabs s else C) \<and> labs t k x = Some lc \<and>
       (\<forall>q y. (q, y) \<noteq> (k, x) \<longrightarrow> labs t q y = L q y \<or>
          control_kept e \<and> q = k \<and> (\<exists>c \<in> set pre. sc_id c = y \<and> labs t q y = Some (marked_record c start m)))
     else cabs t = C \<and> labs t = L)"
proof -
  obtain us rs t1 where t1: "revertMarks i k (pre @ [c]) True s = ((us, rs), t1)"
    by (metis prod.collapse)
  note rv = revert_after_marks [OF assms(1) t1 before assms(4,7)]
  show ?thesis
  proof (cases "us = []")
    case False
    then have "e = UndoError UndoStepMarkSuperseded True True x us cause rs" "t = t1"
      using assms(2) t1 by (auto simp: undoMarkFailure_def rolls)
    with rv show ?thesis by auto
  next
    case True
    obtain r2 t2 where t2: "controls_Delete i k x t1 = (r2, t2)" by fastforce
    obtain r3 t3 where t3: "lifecycles_Delete i k x t2 = (r3, t3)" by fastforce
    note d2 = delete_control_cases [OF conjunct1 [OF rv(1)] t2]
    note d3 = delete_lifecycle_cases [OF conjunct1 [OF d2] t3]
    have "(e, t) =
      (if \<not> undoWriteOK r2 then (UndoError UndoStepMarkSuperseded True True x [] cause (err_of r2), t2)
       else if \<not> undoWriteOK r3 then (UndoError UndoStepMarkSuperseded False True x [] cause (err_of r3), t3)
       else (Errorf ''dercontrol: mark superseded'' [cause], t3))"
      using assms(2) True t1 t2 t3 by (auto simp: undoMarkFailure_def rolls split: if_splits)
    with rv(1) rv(4) [OF True] d2 d3 assms(4-6) show ?thesis
      by (auto simp: upd2_apply upd2_triv split: if_splits)
  qed
qed

text \<open>The third step of a copy, once its record and its control are stored.\<close>

lemma mark_step_law:
  fixes p :: "'s copyPlan"
  defines "k \<equiv> plan_key p" and "m \<equiv> d_MRID (cp_ctrl p)"
  assumes "inv s" and ok: "plan_ok L p" and "L k x = None" and "C k x = None"
    and cs: "cabs s = copied_control p x C" and ls: "labs s = upd2 L k x (Some (cp_link p))"
    and app: "applySupersedes i k (plan_start p) m [] (cp_candidates p) s = ((marked, Some (attempted, e)), t)"
    and undo: "undoMarkFailure i k x attempted e t = (f, u)"
  shows "inv u \<and> oabs u = oabs s \<and>
    (if is_UndoError f then remainder_ok p x (control_kept f) C L (cabs u) (labs u)
     else cabs u = C \<and> labs u = L)"
proof -
  from applySupersedes_law [OF assms(3) app] obtain pre c post
    where pre: "cp_candidates p = pre @ c # post" "attempted = pre @ [c]"
      and t: "inv t" "cabs t = cabs s" "oabs t = oabs s" "labs t = mark_all k (plan_start p) m pre (labs s)"
    by auto
  have before: "\<forall>c \<in> set (pre @ [c]). L k (sc_id c) = Some (sc_before c)"
    using ok pre by (auto simp: plan_ok_def k_def)
  from undoMarkFailure_law [where L = L and C = C and ctrl = "cp_ctrl p" and lc = "cp_link p"
      and start = "plan_start p" and m = m, OF t(1) undo [unfolded pre(2)] before assms(5,6)]
  have "inv u \<and> oabs u = oabs t \<and>
    (if is_UndoError f
     then cabs u = (if control_kept f then cabs t else C) \<and> labs u k x = Some (cp_link p) \<and>
       (\<forall>q y. (q, y) \<noteq> (k, x) \<longrightarrow> labs u q y = L q y \<or>
          control_kept f \<and> q = k \<and> (\<exists>c \<in> set pre. sc_id c = y \<and> labs u q y = Some (marked_record c (plan_start p) m)))
     else cabs u = C \<and> labs u = L)"
    using t cs [unfolded copied_control_def, folded k_def] ls by simp
  with t cs pre(1) assms(5) show ?thesis
    by (auto simp: remainder_ok_def k_def m_def split: if_splits; blast)
qed

lemma both_created:
  assumes "inv s" and "lifecycles_Create i k x lc s = (Inr y, t)" and "controls_Create i k x c t = (Inr z, u)"
  shows "inv u \<and> oabs u = oabs s \<and> labs s k x = None \<and> cabs s k x = None \<and>
    cabs u = upd2 (cabs s) k x (Some c) \<and> labs u = upd2 (labs s) k x (Some lc)"
  using lcs.create_ok [OF assms(1,2)] lifecycle_frame(1) [OF assms(1,2)]
    ctl.create_ok [OF _ assms(3)] control_frame(1) [OF _ assms(3)] by simp

lemma write_copy_law:
  assumes "inv s" and ok: "plan_ok (labs s) p" and w: "write_copy i p x s = (r, t)"
  shows "inv t \<and> oabs t = oabs s \<and>
    (case r of
       Inr w \<Rightarrow> w = \<lparr>wc_plan = p, wc_id = x, wc_marked = map sc_mrid (cp_candidates p)\<rparr> \<and>
         labs s (plan_key p) x = None \<and> cabs s (plan_key p) x = None \<and>
         cabs t = copied_control p x (cabs s) \<and> labs t = copied_lifecycle p x (labs s)
     | Inl e \<Rightarrow>
         if is_UndoError e then remainder_ok p x (control_kept e) (cabs s) (labs s) (cabs t) (labs t)
         else cabs t = cabs s \<and> labs t = labs s)"
proof -
  let ?k = "plan_key p" and ?m = "d_MRID (cp_ctrl p)"
  obtain iv where iv: "d_Interval (cp_ctrl p) = Some iv" and start: "Start iv = plan_start p"
    using ok by (auto simp: plan_ok_def plan_start_def)
  obtain r1 t1 where t1: "lifecycles_Create i ?k x (cp_link p) s = (r1, t1)" by fastforce
  note f1 = lifecycle_frame(1) [OF assms(1) t1]
  obtain r2 t2 where t2: "controls_Create i ?k x (cp_ctrl p) t1 = (r2, t2)" by fastforce
  obtain marked q t3 where t3: "applySupersedes i ?k (plan_start p) ?m [] (cp_candidates p) t2 = ((marked, q), t3)"
    by (metis prod.collapse)
  consider (link) e where "r1 = Inl e" | (control) e y where "r1 = Inr y" "r2 = Inl e"
    | (marks) a e y z where "r1 = Inr y" "r2 = Inr z" "q = Some (a, e)"
    | (written) y z where "r1 = Inr y" "r2 = Inr z" "q = None"
    by (cases r1; cases r2; cases q) auto
  then show ?thesis
  proof cases
    case link
    then have "r = Inl (Errorf ''dercontrol: store lifecycle'' [e])" "t = t1"
      using w t1 by (auto simp: write_copy_def undoLifecycleCreateFailure_def rolls Let_def)
    with lcs.create_err [of s ?k x _ e t1] assms(1) t1 link f1 show ?thesis by simp
  next
    case control
    with lcs.create_ok [of s ?k x "cp_link p" _ t1] assms(1) t1
    have l1: "inv t1" "labs s ?k x = None" "labs t1 = upd2 (labs s) ?k x (Some (cp_link p))" by auto
    note f2 = control_frame(1) [OF l1(1) t2]
    from control ctl.create_err [of t1 ?k x _ e t2] l1 t2 have c2: "inv t2" "cabs t2 = cabs t1" by auto
    obtain e3 t3 where t3: "undoControlCreateFailure i ?k x e t2 = (e3, t3)" by fastforce
    have "r = Inl e3" "t = t3" using w t1 t2 t3 control by (auto simp: write_copy_def Let_def)
    with undoControlCreateFailure_law [OF c2(1) t3, of "labs s" "cp_link p"] l1 f1 f2 c2 show ?thesis
      by (auto simp: remainder_ok_def upd2_apply split: if_splits)
  next
    case marks
    then have b: "inv t2 \<and> oabs t2 = oabs s \<and> labs s ?k x = None \<and> cabs s ?k x = None \<and>
        cabs t2 = copied_control p x (cabs s) \<and> labs t2 = upd2 (labs s) ?k x (Some (cp_link p))"
      using both_created [OF assms(1)] t1 t2 by (simp add: copied_control_def)
    obtain e4 t4 where t4: "undoMarkFailure i ?k x a e t3 = (e4, t4)" by fastforce
    have "r = Inl e4" "t = t4"
      using w t1 t2 t3 t4 marks iv start by (auto simp: write_copy_def Let_def)
    with mark_step_law [where L = "labs s" and C = "cabs s", OF _ ok _ _ _ _ t3 [unfolded marks(3)] t4] b
    show ?thesis by (simp split: if_splits)
  next
    case written
    then have b: "inv t2 \<and> oabs t2 = oabs s \<and> labs s ?k x = None \<and> cabs s ?k x = None \<and>
        cabs t2 = upd2 (cabs s) ?k x (Some (cp_ctrl p)) \<and> labs t2 = upd2 (labs s) ?k x (Some (cp_link p))"
      using both_created [OF assms(1)] t1 t2 by simp
    have "r = Inr \<lparr>wc_plan = p, wc_id = x, wc_marked = marked\<rparr>" "t = t3"
      using w t1 t2 t3 written iv start by (auto simp: write_copy_def Let_def)
    with applySupersedes_law [OF conjunct1 [OF b] t3] written b show ?thesis
      by (simp add: copied_control_def copied_lifecycle_def)
  qed
qed

text \<open>Planning reads only, as long as the fleet's check does.\<close>

abbreviation fleet_reads :: "'s Fleet \<Rightarrow> bool" where
  "fleet_reads fleet \<equiv> (\<forall>chk q s r t. f_Check fleet = Some chk \<longrightarrow> inv s \<longrightarrow> chk q s = (r, t) \<longrightarrow> same s t)"

lemma finishPlan_law:
  assumes "inv s" and "fleet_reads (t_Fleet tg)" and "finishPlan tg ctrl grant cands link s = (r, t)"
  shows "same s t \<and> (\<forall>p. r = Inr p \<longrightarrow>
    p = \<lparr>cp_target = tg, cp_ctrl = ctrl, cp_candidates = cands, cp_link = link\<rparr>)"
proof (cases "f_Check (t_Fleet tg)")
  case None
  with assms show ?thesis by (auto simp: finishPlan_def io_simps)
next
  case (Some chk)
  obtain q u where u: "chk (newProposal (t_Scope tg) ctrl grant (t_Fleet tg) cands) s = (q, u)" by fastforce
  with Some assms(1,2) have "same s u" by blast
  with Some u assms(3) show ?thesis by (cases q) (auto simp: finishPlan_def io_simps)
qed

lemma planCopy_law:
  assumes "inv s" and "fleet_reads (t_Fleet tg)" and "d_Interval ctrl = Some iv"
    and "planCopy i tg ctrl existing grant s = (r, t)"
  shows "same s t \<and> (\<forall>p. r = Inr p \<longrightarrow> cp_target p = tg \<and> cp_ctrl p = ctrl \<and>
    cp_candidates p = candidates (labs s (Key (t_Scope tg))) existing (d_Base ctrl) (Start iv) (IntervalEnd iv) \<and>
    cp_link p = zero_lifecycle\<lparr>lc_GrantMRID := grant, lc_FleetKey := f_Key (t_Fleet tg), lc_Reach := f_Reach (t_Fleet tg)\<rparr> \<and>
    plan_ok (labs s) p)"
proof -
  from assms(3,4) have "finishPlan tg ctrl grant
      (candidates (labs s (Key (t_Scope tg))) existing (d_Base ctrl) (Start iv) (IntervalEnd iv))
      (zero_lifecycle\<lparr>lc_GrantMRID := grant, lc_FleetKey := f_Key (t_Fleet tg), lc_Reach := f_Reach (t_Fleet tg)\<rparr>) s = (r, t)"
    by (simp add: planCopy_def io_bind_def computeSupersedes_eq [OF assms(1)])
  from finishPlan_law [OF assms(1,2) this] assms(3) candidates_before show ?thesis
    by (auto simp: plan_ok_def)
qed

lemma resolveScope_reads: "inv s \<Longrightarrow> resolveScope i edev derp s = (r, t) \<Longrightarrow> t = s"
  using program_reads
  by (auto simp: resolveScope_def loadProgram_def io_simps split: prod.splits sum.splits option.splits if_splits)

lemma loadProgram_reads: "inv s \<Longrightarrow> loadProgram i edev derp s = (r, t) \<Longrightarrow> t = s"
  using program_reads by (auto simp: loadProgram_def io_simps split: prod.splits sum.splits)

lemma checkProgram_reads: "inv s \<Longrightarrow> checkProgram i sc s = (r, t) \<Longrightarrow> t = s"
  using resolveScope_reads by (auto simp: checkProgram_def io_simps split: prod.splits sum.splits if_splits)

text \<open>Issuing.\<close>

lemma issue_write_eq:
  "issue_write i scope c x p s =
     (case write_copy i p x s of
        (Inl e, t) \<Rightarrow> (Inl e, t)
      | (Inr w, t) \<Rightarrow> (Inr \<lparr>res_Scope = scope, res_ID = x, res_Href = d_Href c, res_Control = c,
                             res_Supersedes = wc_marked w\<rparr>, t))"
  by (simp add: issue_write_def split: prod.splits sum.splits)

lemma issue_control_simps:
  "d_Interval (issue_control now req base scope existing m) =
     Some \<lparr>Start = (case r_Start req of None \<Rightarrow> nextCreationTime now [existing] | Some st \<Rightarrow> st),
           Duration = r_DurationSeconds req\<rparr>"
  "d_CreationTime (issue_control now req base scope existing m) = nextCreationTime now [existing]"
  "d_MRID (issue_control now req base scope existing m) = m"
  "d_Href (issue_control now req base scope existing m) = ControlHref scope (issue_id now req existing m)"
  by (simp_all add: issue_control_def newControl_def Let_def)

abbreviation kept_or_same :: "err \<Rightarrow> 's \<Rightarrow> 's \<Rightarrow> bool" where
  "kept_or_same e s t \<equiv> same s t \<or> is_UndoError e \<and> inv t \<and> oabs t = oabs s \<and>
     (\<exists>p x. remainder_ok (p :: 's copyPlan) x (control_kept e) (cabs s) (labs s) (cabs t) (labs t))"

lemma issue_write_law:
  assumes "inv s" and "plan_ok (labs s) p" and "issue_write i scope c x p s = (r, t)"
  shows "case r of
      Inl e \<Rightarrow> kept_or_same e s t
    | Inr res \<Rightarrow> inv t \<and> oabs t = oabs s \<and>
        res = \<lparr>res_Scope = scope, res_ID = x, res_Href = d_Href c, res_Control = c,
               res_Supersedes = map sc_mrid (cp_candidates p)\<rparr> \<and>
        labs s (plan_key p) x = None \<and> cabs s (plan_key p) x = None \<and>
        cabs t = copied_control p x (cabs s) \<and> labs t = copied_lifecycle p x (labs s)"
proof -
  obtain q u where u: "write_copy i p x s = (q, u)" by fastforce
  show ?thesis using write_copy_law [OF assms(1,2) u] assms(3)
    by (cases q) (auto simp: issue_write_eq u split: if_splits)
qed

lemma ctx_check_eq: "ctx_check ctx s = (r, t) \<longleftrightarrow> t = s \<and> r = (case ctx s of None \<Rightarrow> Inr () | Some e \<Rightarrow> Inl e)"
  by (auto simp: ctx_check_def split: option.splits)

lemma issue_locked_law:
  assumes "inv s" and "fleet_reads fleet" and iss: "issue_locked i ctx now req fleet base scope s = (r, t)"
  shows "case r of
      Inl e \<Rightarrow> kept_or_same e s t
    | Inr res \<Rightarrow> inv t \<and> oabs t = oabs s \<and> (\<exists>existing. res_Scope res = scope \<and>
         (card (dom (cabs s (Key scope))) < 2 ^ 32 \<longrightarrow> set existing = ran (cabs s (Key scope))) \<and>
         issued now (r_ExecutesGrant req) fleet existing res (cabs s) (labs s) (cabs t) (labs t))"
proof -
  obtain rl t1 where t1: "controls_List i (Key scope) unbounded_options s = (rl, t1)" by fastforce
  obtain rm t2 where t2: "i_newMRID i (the (c_PEN (i_cfg i))) s = (rm, t2)" by fastforce
  note lst = list_reads [OF assms(1) t1] and mint = mint_frame [OF assms(1) t2]
  show ?thesis
  proof (cases "\<exists>l m. rl = Inr l \<and> rm = Inr m")
    case False
    with iss t1 t2 lst have "(t = s \<or> t = t2) \<and> (\<exists>e. r = Inl e)"
      by (cases rl; cases rm) (auto simp: issue_locked_def io_run)
    with mint assms(1) show ?thesis by auto
  next
    case True
    then obtain l m where lm: "rl = Inr l" "rm = Inr m" by blast
    define c x where "c = issue_control now req base scope (lr_Items l) m" and "x = issue_id now req (lr_Items l) m"
    note cs = issue_control_simps [of now req base scope "lr_Items l" m, folded c_def x_def]
    obtain rp t3 where t3: "planCopy i \<lparr>t_Scope = scope, t_Fleet = fleet\<rparr> c (lr_Items l) (r_ExecutesGrant req) t2 = (rp, t3)"
      by fastforce
    note plan = planCopy_law [OF conjunct1 [OF mint] _ cs(1) t3]
    have rest: "issue_locked i ctx now req fleet base scope s = (case rp of Inl e \<Rightarrow> (Inl e, t3) | Inr p \<Rightarrow>
        (case ctx t3 of Some e \<Rightarrow> (Inl e, t3) | None \<Rightarrow> issue_write i scope c x p t3))"
      using t1 t2 t3 lm lst
      by (auto simp: issue_locked_def io_run c_def [symmetric] x_def [symmetric] ctx_check_def io_bind_def
          split: sum.split option.split)
    show ?thesis
    proof (cases "\<exists>p. rp = Inr p \<and> ctx t3 = None")
      case False
      with rest iss have "t = t3" "\<exists>e. r = Inl e" by (auto split: sum.splits option.splits)
      with plan mint assms(2) show ?thesis by auto
    next
      case True
      then obtain p where p: "rp = Inr p" "ctx t3 = None" by blast
      with rest iss have w: "issue_write i scope c x p t3 = (r, t)" by simp
      from plan p(1) mint assms(2)
      have pl: "inv t3" "cabs t3 = cabs s" "labs t3 = labs s" "oabs t3 = oabs s" "plan_ok (labs t3) p" by simp_all
      note law = issue_write_law [OF pl(1,5) w, unfolded pl(2-4)]
      show ?thesis
      proof (cases r)
        case (Inr res)
        with law plan p(1) mint assms(2) lst lm(1) cs show ?thesis
          by (auto simp: issued_def Let_def copied_control_def copied_lifecycle_def plan_start_def x_def issue_id_def
              intro!: exI [of _ "lr_Items l"])
      qed (use law in auto)
    qed
  qed
qed

lemma issue_law:
  assumes "inv s" and "fleet_reads fleet" and iss: "issue i ctx now req fleet s = (r, t)"
  shows "case r of
      Inl e \<Rightarrow> kept_or_same e s t
    | Inr res \<Rightarrow> inv t \<and> oabs t = oabs s \<and> (\<exists>existing.
         (card (dom (cabs s (Key (res_Scope res)))) < 2 ^ 32 \<longrightarrow> set existing = ran (cabs s (Key (res_Scope res)))) \<and>
         issued now (r_ExecutesGrant req) fleet existing res (cabs s) (labs s) (cabs t) (labs t))"
proof (cases "\<exists>base scope. issue_locked i ctx now req fleet base scope s = (r, t)")
  case True
  then obtain base scope where "issue_locked i ctx now req fleet base scope s = (r, t)" by blast
  from issue_locked_law [OF assms(1,2) this] show ?thesis by (cases r) auto
next
  case False
  have "t = s \<and> (\<exists>e. r = Inl e)"
  proof (cases "StoredOrigin (r_Origin req) = Inr [] \<and> (\<exists>base. validate i req now = Inr base)")
    case True
    then obtain base where base: "validate i req now = Inr base" by blast
    obtain edev fsa derp where e: "(case Program (r_DERProgramHref req) of None \<Rightarrow> ([], [], []) | Some t \<Rightarrow> t) = (edev, fsa, derp)"
      using prod_cases3 by blast
    obtain r1 t1 where t1: "resolveScope i edev derp s = (r1, t1)" by fastforce
    obtain r2 t2 where t2: "loadProgram i edev derp s = (r2, t2)" by fastforce
    from iss True base e t1 resolveScope_reads [OF assms(1) t1] t2 loadProgram_reads [OF assms(1) t2] False
    show ?thesis by (cases r1; cases r2) (auto simp: issue_def io_run io_lift_def io_bind_def)
  next
    case False
    with iss show ?thesis
      by (cases "validate i req now") (auto simp: issue_def io_fail_def io_lift_def io_bind_def split: if_splits)
  qed
  with assms(1) show ?thesis by auto
qed

text \<open>
  An issue that succeeds passed its fleet's check, on the stores as they were, with the proposal
  of the control it stored.
\<close>

lemma issue_locked_checked:
  assumes "inv s" and reads: "fleet_reads fleet" and chk: "f_Check fleet = Some chk"
    and iss: "issue_locked i ctx now req fleet base scope s = (Inr res, t)"
  shows "\<exists>u v. same s u \<and> chk \<lparr>q_Scope = res_Scope res, q_FleetKey = f_Key fleet,
     q_Window = the (d_Interval (res_Control res)), q_GrantMRID = r_ExecutesGrant req,
     q_TargetW = TargetOf (d_Base (res_Control res)), q_Reach = f_Reach fleet,
     q_Supersedes = res_Supersedes res\<rparr> u = (Inr (), v)"
proof -
  obtain l where l: "controls_List i (Key scope) unbounded_options s = (Inr l, s)"
    using list_law [OF assms(1)] by blast
  obtain rm t2 where t2: "i_newMRID i (the (c_PEN (i_cfg i))) s = (rm, t2)" by fastforce
  note mint = mint_frame [OF assms(1) t2]
  obtain m where m: "rm = Inr m" using iss l t2 by (cases rm) (auto simp: issue_locked_def io_run)
  define c x where "c = issue_control now req base scope (lr_Items l) m" and "x = issue_id now req (lr_Items l) m"
  note cs = issue_control_simps [of now req base scope "lr_Items l" m, folded c_def x_def]
  define iv cands where "iv = the (d_Interval c)"
    and "cands = candidates (labs t2 (Key scope)) (lr_Items l) (d_Base c) (Start iv) (IntervalEnd iv)"
  define q where "q = newProposal scope c (r_ExecutesGrant req) fleet cands"
  obtain rp t3 where t3: "planCopy i \<lparr>t_Scope = scope, t_Fleet = fleet\<rparr> c (lr_Items l) (r_ExecutesGrant req) t2 = (rp, t3)"
    by fastforce
  have rest: "issue_locked i ctx now req fleet base scope s =
      io_bind (planCopy i \<lparr>t_Scope = scope, t_Fleet = fleet\<rparr> c (lr_Items l) (r_ExecutesGrant req))
        (\<lambda>plan. io_bind (ctx_check ctx) (\<lambda>_. issue_write i scope c x plan)) t2"
    using l t2 m by (simp add: issue_locked_def io_run c_def x_def)
  then obtain p where p: "rp = Inr p" using iss t3 by (cases rp) (simp_all add: io_run)
  have ivc: "d_Interval c = Some iv" using cs(1) by (simp add: iv_def)
  have fin: "finishPlan \<lparr>t_Scope = scope, t_Fleet = fleet\<rparr> c (r_ExecutesGrant req) cands
      (zero_lifecycle\<lparr>lc_GrantMRID := r_ExecutesGrant req, lc_FleetKey := f_Key fleet, lc_Reach := f_Reach fleet\<rparr>) t2
      = (Inr p, t3)"
    using t3 p ivc computeSupersedes_eq [OF conjunct1 [OF mint]] by (simp add: planCopy_def io_bind_def cands_def)
  then obtain v where v: "chk q t2 = (Inr (), v)"
    by (auto simp: finishPlan_def chk io_bind_Inr q_def)
  have w: "issue_write i scope c x p t3 = (Inr res, t)"
    using iss rest t3 p by (cases "ctx t3") (simp_all add: io_run ctx_check_def io_bind_def)
  have plan: "plan_ok (labs t3) p" "inv t3" "cp_candidates p = cands"
    using planCopy_law [OF conjunct1 [OF mint] _ ivc t3] reads p by (auto simp: cands_def)
  from issue_write_law [OF plan(2,1) w] plan(3)
  have "res_Scope res = scope" "res_Control res = c" "res_Supersedes res = map sc_mrid cands" by simp_all
  then have "q = \<lparr>q_Scope = res_Scope res, q_FleetKey = f_Key fleet,
     q_Window = the (d_Interval (res_Control res)), q_GrantMRID = r_ExecutesGrant req,
     q_TargetW = TargetOf (d_Base (res_Control res)), q_Reach = f_Reach fleet,
     q_Supersedes = res_Supersedes res\<rparr>" by (simp add: q_def newProposal_def)
  with v mint show ?thesis by blast
qed

lemma issue_checked:
  assumes "inv s" and "fleet_reads fleet" and "f_Check fleet = Some chk"
    and iss: "issue i ctx now req fleet s = (Inr res, t)"
  shows "\<exists>u v. same s u \<and> chk \<lparr>q_Scope = res_Scope res, q_FleetKey = f_Key fleet,
     q_Window = the (d_Interval (res_Control res)), q_GrantMRID = r_ExecutesGrant req,
     q_TargetW = TargetOf (d_Base (res_Control res)), q_Reach = f_Reach fleet,
     q_Supersedes = res_Supersedes res\<rparr> u = (Inr (), v)"
proof -
  obtain edev fsa derp where e: "(case Program (r_DERProgramHref req) of None \<Rightarrow> ([], [], []) | Some t \<Rightarrow> t) = (edev, fsa, derp)"
    using prod_cases3 by blast
  from iss obtain base where "validate i req now = Inr base"
    by (cases "validate i req now") (auto simp: issue_def io_fail_def io_lift_def io_bind_def split: if_splits)
  with iss e obtain scope s1 prog s2 where "resolveScope i edev derp s = (Inr scope, s1)"
    "loadProgram i edev derp s1 = (Inr prog, s2)" "issue_locked i ctx now req fleet base scope s2 = (Inr res, t)"
    by (auto simp: issue_def io_bind_Inr split: if_splits)
  moreover from this have "s1 = s" "s2 = s"
    using resolveScope_reads [OF assms(1)] loadProgram_reads [OF assms(1)] by blast+
  ultimately show ?thesis using issue_locked_checked [OF assms(1-3)] by blast
qed

lemma issue_scope_wf:
  assumes "inv s" and "fleet_reads fleet" and iss: "issue i ctx now req fleet s = (Inr res, t)"
  shows "wf_scope (res_Scope res)"
proof -
  obtain edev fsa derp where e: "(case Program (r_DERProgramHref req) of None \<Rightarrow> ([], [], []) | Some t \<Rightarrow> t) = (edev, fsa, derp)"
    using prod_cases3 by blast
  from iss e obtain base scope s1 prog s2 where sc: "resolveScope i edev derp s = (Inr scope, s1)"
    and "loadProgram i edev derp s1 = (Inr prog, s2)" and lk: "issue_locked i ctx now req fleet base scope s2 = (Inr res, t)"
    by (auto simp: issue_def io_bind_Inr split: if_splits)
  then have "s2 = s" using resolveScope_reads [OF assms(1) sc] loadProgram_reads [OF assms(1)] by blast
  with issue_locked_law [OF assms(1,2)] lk have "res_Scope res = scope" by fastforce
  moreover have "wf_scope scope"
    using sc ControlList_segments
    by (fastforce simp: resolveScope_def io_bind_Inr wf_scope_def split: option.splits if_splits prod.splits)
  ultimately show ?thesis by simp
qed

text \<open>Cancelling and relinking.\<close>

lemma load_pair_eq:
  assumes "inv s"
  shows "load_pair i scope x s =
    (case cabs s (Key scope) x of
       None \<Rightarrow> (Inl (RefusalError RefusalControlNotFound), s)
     | Some c \<Rightarrow>
         (case labs s (Key scope) x of
            None \<Rightarrow> (Inl (RefusalError RefusalControlNotFound), s)
          | Some lc \<Rightarrow> (Inr (c, lc), s)))"
  by (auto simp: load_pair_def io_simps ctl.get_law [OF assms] lcs.get_law [OF assms] refuse_def split: option.splits)

lemma update_or_restore:
  assumes "inv s"
  shows "(case lifecycles_Update i (Key scope) x lc s of
       (Inl e, u) \<Rightarrow> restoreLifecycle i scope x before step e u | (Inr _, u) \<Rightarrow> ((lc, None), u)) = ((lc', e), t) \<Longrightarrow>
     inv t \<and> cabs t = cabs s \<and> oabs t = oabs s \<and>
     (e = None \<and> lc' = lc \<and> labs t = upd2 (labs s) (Key scope) x (Some lc) \<or>
      e \<noteq> None \<and> lc' = before \<and> labs t = labs s)"
  using update_cases [OF assms, of "Key scope" x lc]
  by (cases "lifecycles_Update i (Key scope) x lc s"; cases "fst (lifecycles_Update i (Key scope) x lc s)")
    (auto simp: restoreLifecycle_def rolls)

lemma Cancel_law:
  assumes "inv s" and "Cancel i ctx now scope x reason s = ((lc, e), t)"
  shows "inv t \<and> cabs t = cabs s \<and> oabs t = oabs s \<and>
    (case (cabs s (Key scope) x, labs s (Key scope) x) of
       (Some c, Some before) \<Rightarrow>
         if cancelled before then e = Some (RefusalError RefusalAlreadyCancelled) \<and> labs t = labs s
         else if supersededAsOf before now then e = Some (RefusalError RefusalAlreadySuperseded) \<and> labs t = labs s
         else if d_Interval c = None then e \<noteq> None \<and> labs t = labs s
         else if over c now then e = Some (RefusalError RefusalEnded) \<and> labs t = labs s
         else e = None \<and> lc = before\<lparr>lc_CancelledAt := Some now, lc_CancelReason := reason\<rparr> \<and>
                labs t = upd2 (labs s) (Key scope) x (Some lc) \<or>
              e \<noteq> None \<and> lc = before \<and> labs t = labs s
     | _ \<Rightarrow> e = Some (RefusalError RefusalControlNotFound) \<and> labs t = labs s)"
proof (cases "\<exists>c before iv. cabs s (Key scope) x = Some c \<and> labs s (Key scope) x = Some before \<and>
    \<not> cancelled before \<and> \<not> supersededAsOf before now \<and> d_Interval c = Some iv \<and> \<not> IntervalEnded iv now \<and> ctx s = None")
  case True
  then obtain c before iv where c: "cabs s (Key scope) x = Some c" "labs s (Key scope) x = Some before"
    "\<not> cancelled before" "\<not> supersededAsOf before now" "d_Interval c = Some iv" "\<not> IntervalEnded iv now" "ctx s = None"
    by blast
  with assms(2) have "(case lifecycles_Update i (Key scope) x (before\<lparr>lc_CancelledAt := Some now, lc_CancelReason := reason\<rparr>) s of
      (Inl e, u) \<Rightarrow> restoreLifecycle i scope x before UndoStepCancel e u
    | (Inr _, u) \<Rightarrow> ((before\<lparr>lc_CancelledAt := Some now, lc_CancelReason := reason\<rparr>, None), u)) = ((lc, e), t)"
    by (simp add: Cancel_def load_pair_eq [OF assms(1)] Let_def)
  from update_or_restore [OF assms(1) this] c show ?thesis by (auto simp: over_def)
next
  case False
  with assms show ?thesis
    by (auto simp: Cancel_def load_pair_eq [OF assms(1)] refuse_def over_def split: option.splits if_splits)
qed

lemma Relink_law:
  assumes "inv s" and "Relink i ctx scope x grant s = ((lc, e), t)"
  shows "inv t \<and> cabs t = cabs s \<and> oabs t = oabs s \<and>
    (case (cabs s (Key scope) x, labs s (Key scope) x) of
       (Some c, Some before) \<Rightarrow>
         if lc_GrantMRID before = [] \<or> grant = [] then e = Some ErrNotExecution \<and> lc = before \<and> labs t = labs s
         else e = None \<and> lc = before\<lparr>lc_GrantMRID := grant\<rparr> \<and> labs t = upd2 (labs s) (Key scope) x (Some lc) \<or>
              e \<noteq> None \<and> lc = before \<and> labs t = labs s
     | _ \<Rightarrow> e = Some (RefusalError RefusalControlNotFound) \<and> labs t = labs s)"
proof (cases "\<exists>c before. cabs s (Key scope) x = Some c \<and> labs s (Key scope) x = Some before \<and>
    lc_GrantMRID before \<noteq> [] \<and> grant \<noteq> [] \<and> ctx s = None")
  case True
  then obtain c before where c: "cabs s (Key scope) x = Some c" "labs s (Key scope) x = Some before"
    "lc_GrantMRID before \<noteq> []" "grant \<noteq> []" "ctx s = None" by blast
  with assms(2) have "(case lifecycles_Update i (Key scope) x (before\<lparr>lc_GrantMRID := grant\<rparr>) s of
      (Inl e, u) \<Rightarrow> restoreLifecycle i scope x before UndoStepRelink e u
    | (Inr _, u) \<Rightarrow> ((before\<lparr>lc_GrantMRID := grant\<rparr>, None), u)) = ((lc, e), t)"
    by (simp add: Relink_def load_pair_eq [OF assms(1)] Let_def)
  from update_or_restore [OF assms(1) this] c show ?thesis by auto
next
  case False
  with assms show ?thesis
    by (auto simp: Relink_def load_pair_eq [OF assms(1)] split: option.splits if_splits)
qed

text \<open>Retiring.\<close>

lemma live_items_eq:
  assumes "inv s"
  shows "live_items i k now cs s =
    (Inr (map d_Href (filter (\<lambda>c. control_live (labs s k) c now) cs)), s)"
proof (induction cs)
  case (Cons c cs)
  have "stateOf (lifecycles_Get i) k c now s = (Inr (live_state (labs s k) c now), s)"
    by (rule stateOf_live_state) (rule lcs.get_law [OF assms])
  with Cons show ?case by (simp add: io_run io_return_def control_live_def)
qed (simp add: io_return_def)

lemma live_in_scopes_law:
  assumes "inv s"
  shows "\<exists>live. live_in_scopes i ks now s = (Inr live, s) \<and>
    ((\<forall>k \<in> set ks. card (dom (cabs s k)) < 2 ^ 32) \<longrightarrow>
      set live = live_hrefs (cabs s) (labs s) (set ks) now)"
proof (induction ks)
  case (Cons k ks)
  obtain l where l: "controls_List i k unbounded_options s = (Inr l, s)"
    and ran: "card (dom (cabs s k)) < 2 ^ 32 \<longrightarrow> set (lr_Items l) = ran (cabs s k)"
    using list_law [OF assms] by blast
  have here: "liveControls i k now s =
      (Inr (map d_Href (filter (\<lambda>c. control_live (labs s k) c now) (lr_Items l))), s)"
    by (simp add: liveControls_def io_run l live_items_eq [OF assms])
  from Cons obtain live where "live_in_scopes i ks now s = (Inr live, s)"
    and "(\<forall>k \<in> set ks. card (dom (cabs s k)) < 2 ^ 32) \<longrightarrow>
      set live = live_hrefs (cabs s) (labs s) (set ks) now" by blast
  with here ran show ?case by (auto simp: io_run io_return_def live_hrefs_def)
qed (auto simp: io_return_def live_hrefs_def)

lemma Retire_law:
  assumes "inv s" and "\<forall>sc \<in> set scopes. card (dom (cabs s (Key sc))) < 2 ^ 32"
  shows "Retire i now scopes remove s =
      (if live_hrefs (cabs s) (labs s) (Key ` set scopes) now = {} then remove s
       else (Inl (LiveControlsError (the_live i now scopes s)), s))"
    and "set (the_live i now scopes s) = live_hrefs (cabs s) (labs s) (Key ` set scopes) now"
proof -
  obtain hs where "live_in_scopes i (lock_order (map Key scopes)) now s = (Inr hs, s)"
    and "set hs = live_hrefs (cabs s) (labs s) (Key ` set scopes) now"
    using live_in_scopes_law [OF assms(1), of "lock_order (map Key scopes)" now] assms(2) by auto
  then show "Retire i now scopes remove s =
      (if live_hrefs (cabs s) (labs s) (Key ` set scopes) now = {} then remove s
       else (Inl (LiveControlsError (the_live i now scopes s)), s))"
    and "set (the_live i now scopes s) = live_hrefs (cabs s) (labs s) (Key ` set scopes) now"
    by (auto simp: Retire_def io_run io_fail_def the_live_def)
qed

end

section \<open>When nothing fails\<close>

text \<open>An mRID may be stored again only under the same id of another scope.\<close>

definition mrid_free :: "DERControl map2 \<Rightarrow> string \<Rightarrow> string \<Rightarrow> string \<Rightarrow> bool" where
  "mrid_free C m p x \<longleftrightarrow> (\<forall>q y d. C q y = Some d \<and> d_MRID d = m \<longrightarrow> y = x \<and> q \<noteq> p)"

locale writable_stores = issuer_stores +
  fixes healthy :: "'a \<Rightarrow> bool"
  assumes create_total: "inv s \<Longrightarrow> healthy s \<Longrightarrow> labs s p x = None \<Longrightarrow>
        \<exists>t. lifecycles_Create i p x lc s = (Inr (), t) \<and> healthy t"
    and update_total: "inv s \<Longrightarrow> healthy s \<Longrightarrow> labs s p x \<noteq> None \<Longrightarrow>
        \<exists>t. lifecycles_Update i p x lc s = (Inr (), t) \<and> healthy t"
    and control_total: "inv s \<Longrightarrow> healthy s \<Longrightarrow> cabs s p x = None \<Longrightarrow> mrid_free (cabs s) (d_MRID c) p x \<Longrightarrow>
        \<exists>t. controls_Create i p x c s = (Inr (), t) \<and> healthy t"
    and mint_healthy: "inv s \<Longrightarrow> healthy s \<Longrightarrow> i_newMRID i pen s = (rm, t) \<Longrightarrow> healthy t"
begin

lemma applySupersedes_total:
  assumes "inv s" and "healthy s" and "\<forall>c \<in> set cs. labs s k (sc_id c) \<noteq> None"
  shows "\<exists>t. applySupersedes i k start m tried cs s = ((map sc_mrid (tried @ cs), None), t) \<and> healthy t"
  using assms
proof (induction cs arbitrary: tried s)
  case (Cons c cs)
  then obtain t where t: "lifecycles_Update i k (sc_id c) (marked_record c start m) s = (Inr (), t)" "healthy t"
    using update_total [OF Cons.prems(1,2), of k "sc_id c" "marked_record c start m"] by fastforce
  from update_cases [OF Cons.prems(1) t(1)] have "inv t" "\<forall>d \<in> set cs. labs t k (sc_id d) \<noteq> None"
    using Cons.prems(3) by (auto simp: upd2_apply)
  from Cons.IH [OF this(1) t(2) this(2), of "tried @ [c]"] t(1) show ?case by simp
qed simp

lemma write_copy_total:
  assumes "inv s" and "healthy s" and ok: "d_Interval (cp_ctrl p) \<noteq> None"
      "\<forall>c \<in> set (cp_candidates p). labs s (plan_key p) (sc_id c) \<noteq> None"
    and "labs s (plan_key p) x = None" and "cabs s (plan_key p) x = None"
    and "mrid_free (cabs s) (d_MRID (cp_ctrl p)) (plan_key p) x"
  shows "\<exists>w t. write_copy i p x s = (Inr w, t) \<and> healthy t"
proof -
  let ?k = "plan_key p"
  obtain iv where iv: "d_Interval (cp_ctrl p) = Some iv" using ok(1) by blast
  obtain t where t: "lifecycles_Create i ?k x (cp_link p) s = (Inr (), t)" "healthy t"
    using create_total assms by blast
  with lcs.create_ok [OF assms(1) t(1)] lifecycle_frame(1) [OF assms(1) t(1)]
  have t': "inv t" "cabs t = cabs s" "labs t = upd2 (labs s) ?k x (Some (cp_link p))" by auto
  then obtain u where u: "controls_Create i ?k x (cp_ctrl p) t = (Inr (), u)" "healthy u"
    using control_total [OF t'(1) t(2)] assms(6,7) by metis
  from both_created [OF assms(1) t(1) u(1)] ok(2)
  have "inv u" "\<forall>c \<in> set (cp_candidates p). labs u ?k (sc_id c) \<noteq> None"
    by (auto simp: upd2_apply)
  from applySupersedes_total [OF this(1) u(2) this(2), of "Start iv" "d_MRID (cp_ctrl p)" "[]"] t u iv
  show ?thesis by (auto simp: write_copy_def Let_def)
qed

text \<open>A valid request, an unused mRID and no failing write, and a check that passes if there is one: the control is issued.\<close>

lemma issue_total_checked:
  assumes "inv s" and "healthy s" and reads: "fleet_reads fleet" and ctx: "\<And>u. ctx u = None"
    and "StoredOrigin (r_Origin req) = Inr []" and base: "validate i req now = Inr base"
    and "Program (r_DERProgramHref req) = Some (edev, fsa, derp)"
    and scope: "resolveScope i edev derp s = (Inr scope, s)"
    and m: "i_newMRID i (the (c_PEN (i_cfg i))) s = (Inr m, s')"
    and "\<And>q y d. cabs s q y = Some d \<Longrightarrow> d_MRID d \<noteq> m"
    and new: "\<And>existing. labs s (Key scope) (issue_id now req existing m) = None \<and>
        cabs s (Key scope) (issue_id now req existing m) = None"
    and pass: "\<And>chk q existing. f_Check fleet = Some chk \<Longrightarrow> q_FleetKey q = f_Key fleet \<Longrightarrow>
        q_GrantMRID q = r_ExecutesGrant req \<Longrightarrow>
        q_Window q = the (d_Interval (issue_control now req base scope existing m)) \<Longrightarrow>
        (card (dom (cabs s (Key scope))) < 2 ^ 32 \<longrightarrow> set existing = ran (cabs s (Key scope))) \<Longrightarrow>
        chk q s' = (Inr (), s')"
  shows "\<exists>res t existing. issue i ctx now req fleet s = (Inr res, t) \<and> healthy t \<and> res_Scope res = scope \<and>
    (card (dom (cabs s (Key scope))) < 2 ^ 32 \<longrightarrow> set existing = ran (cabs s (Key scope))) \<and>
    res_Control res = issue_control now req base scope existing m"
proof -
  obtain l where l: "controls_List i (Key scope) unbounded_options s = (Inr l, s)"
    "card (dom (cabs s (Key scope))) < 2 ^ 32 \<longrightarrow> set (lr_Items l) = ran (cabs s (Key scope))"
    using list_law [OF assms(1)] by blast
  obtain prog where prog: "loadProgram i edev derp s = (Inr prog, s)"
    using scope loadProgram_reads [OF assms(1), of edev derp]
    by (cases "loadProgram i edev derp s"; cases "fst (loadProgram i edev derp s)")
      (auto simp: resolveScope_def io_run)
  note mint = mint_frame [OF assms(1) m]
  let ?c = "issue_control now req base scope (lr_Items l) m" and ?x = "issue_id now req (lr_Items l) m"
  let ?t = "\<lparr>t_Scope = scope, t_Fleet = fleet\<rparr>"
  obtain rp t where t: "planCopy i ?t ?c (lr_Items l) (r_ExecutesGrant req) s' = (rp, t)" by fastforce
  have checked: "\<exists>p. finishPlan ?t ?c (r_ExecutesGrant req) cs link s' = (Inr p, s')" for cs link
  proof (cases "f_Check fleet")
    case (Some chk)
    have "chk (newProposal scope ?c (r_ExecutesGrant req) fleet cs) s' = (Inr (), s')"
      by (rule pass [OF Some _ _ _ l(2)]) (simp_all add: newProposal_def)
    then show ?thesis by (simp add: finishPlan_def Some io_bind_def io_return_def)
  qed (simp add: finishPlan_def io_run io_return_def)
  have "\<exists>p. rp = Inr p \<and> t = s'"
    using t mint checked by (auto simp: planCopy_def issue_control_simps(1) io_run computeSupersedes_eq) (metis prod.inject)+
  then obtain p where p: "rp = Inr p" "t = s'" by blast
  have pl: "cp_target p = ?t" "cp_ctrl p = ?c" "plan_ok (labs s') p"
    using planCopy_law [OF conjunct1 [OF mint] _ issue_control_simps(1) t] p(1) reads by simp_all
  have "mrid_free (cabs s') (d_MRID (cp_ctrl p)) (plan_key p) ?x"
    using assms(10) mint pl by (auto simp: mrid_free_def issue_control_simps)
  then obtain w u where w: "write_copy i p ?x s' = (Inr w, u)" "healthy u"
    using write_copy_total [OF conjunct1 [OF mint] mint_healthy [OF assms(1,2) m], of p ?x] new [of "lr_Items l"] mint pl
    by (auto simp: plan_ok_def)
  have "issue_locked i ctx now req fleet base scope s =
      (Inr \<lparr>res_Scope = scope, res_ID = ?x, res_Href = d_Href ?c, res_Control = ?c, res_Supersedes = wc_marked w\<rparr>, u)"
    using l(1) m t p w by (simp add: issue_locked_def io_run ctx_check_def ctx issue_write_eq)
  then have "issue i ctx now req fleet s =
      (Inr \<lparr>res_Scope = scope, res_ID = ?x, res_Href = d_Href ?c, res_Control = ?c, res_Supersedes = wc_marked w\<rparr>, u)"
    using assms(5-7) scope prog by (simp add: issue_def io_run io_lift_def io_bind_def)
  with l(2) w(2) show ?thesis by auto
qed

lemma issue_total:
  assumes "inv s" and "healthy s" and "f_Check fleet = None" and ctx: "\<And>u. ctx u = None"
    and "StoredOrigin (r_Origin req) = Inr []" and base: "validate i req now = Inr base"
    and "Program (r_DERProgramHref req) = Some (edev, fsa, derp)"
    and scope: "resolveScope i edev derp s = (Inr scope, s)"
    and m: "i_newMRID i (the (c_PEN (i_cfg i))) s = (Inr m, s')"
    and "\<And>q y d. cabs s q y = Some d \<Longrightarrow> d_MRID d \<noteq> m"
    and new: "\<And>existing. labs s (Key scope) (issue_id now req existing m) = None \<and>
        cabs s (Key scope) (issue_id now req existing m) = None"
  shows "\<exists>res t existing. issue i ctx now req fleet s = (Inr res, t) \<and> healthy t \<and> res_Scope res = scope \<and>
    (card (dom (cabs s (Key scope))) < 2 ^ 32 \<longrightarrow> set existing = ran (cabs s (Key scope))) \<and>
    res_Control res = issue_control now req base scope existing m"
  by (rule issue_total_checked [OF assms(1,2) _ assms(4-11)]) (simp_all add: assms(3))

end

end
