(* ===== verification/AcrossLaws.thy ===== *)
theory AcrossLaws
  imports Across IssuerLaws
begin

text \<open>
  What a fan-out does to the two stores. A copy is planned from the lifecycle records as the
  call first read them, and undone to them, while the copies before it may have changed them:
  the invariant relates the stores to the ones the call began with through the set of copies
  that are stored and the set of lifecycle records left without their control.
\<close>

section \<open>The stores between two writes\<close>

type_synonym 's copy = "'s copyPlan \<times> string"

definition covered :: "'s copy set \<Rightarrow> string \<Rightarrow> string \<Rightarrow> bool" where
  "covered W q x \<longleftrightarrow> (\<exists>p. (p, x) \<in> W \<and> plan_key p = q)"

definition marked_by :: "'s copy set \<Rightarrow> string \<Rightarrow> string \<Rightarrow> LifecycleRecord option \<Rightarrow> bool" where
  "marked_by W q x r \<longleftrightarrow> (\<exists>(p, y) \<in> W. plan_key p = q \<and> (\<exists>c \<in> set (cp_candidates p). sc_id c = x \<and>
     r = Some (marked_record c (plan_start p) (d_MRID (cp_ctrl p)))))"

text \<open>Outside the copies, a record is the one the call began with or carries a stored copy's mark.\<close>

definition settled ::
    "LifecycleRecord map2 \<Rightarrow> 's copy set \<Rightarrow> (string \<times> string) set \<Rightarrow> LifecycleRecord map2 \<Rightarrow> bool" where
  "settled L0 W Q L \<longleftrightarrow>
     (\<forall>q x. \<not> covered W q x \<and> (q, x) \<notin> Q \<longrightarrow> L q x = L0 q x \<or> marked_by W q x (L q x))"

definition copies_inv ::
    "DERControl map2 \<Rightarrow> LifecycleRecord map2 \<Rightarrow> 's copy set \<Rightarrow> (string \<times> string) set \<Rightarrow>
     DERControl map2 \<Rightarrow> LifecycleRecord map2 \<Rightarrow> bool" where
  "copies_inv C0 L0 W Q C L \<longleftrightarrow>
     (\<forall>(p, x) \<in> W. plan_ok L0 p \<and> C (plan_key p) x = Some (cp_ctrl p) \<and> L (plan_key p) x = Some (cp_link p) \<and>
        C0 (plan_key p) x = None \<and> L0 (plan_key p) x = None) \<and>
     inj_on (\<lambda>(p, x). (plan_key p, x)) W \<and>
     (\<forall>(q, x) \<in> Q. \<not> covered W q x \<and> L0 q x = None \<and> L q x \<noteq> None) \<and>
     (\<forall>q x. \<not> covered W q x \<longrightarrow> C q x = C0 q x) \<and>
     settled L0 W Q L"

lemma copies_invI:
  assumes "\<And>p x. (p, x) \<in> W \<Longrightarrow> plan_ok L0 p \<and> C (plan_key p) x = Some (cp_ctrl p) \<and>
      L (plan_key p) x = Some (cp_link p) \<and> C0 (plan_key p) x = None \<and> L0 (plan_key p) x = None"
    and "\<And>p x p'. (p, x) \<in> W \<Longrightarrow> (p', x) \<in> W \<Longrightarrow> plan_key p = plan_key p' \<Longrightarrow> p = p'"
    and "\<And>q x. (q, x) \<in> Q \<Longrightarrow> \<not> covered W q x \<and> L0 q x = None \<and> L q x \<noteq> None"
    and "\<And>q x. \<not> covered W q x \<Longrightarrow> C q x = C0 q x"
    and "\<And>q x. \<not> covered W q x \<Longrightarrow> (q, x) \<notin> Q \<Longrightarrow> L q x = L0 q x \<or> marked_by W q x (L q x)"
  shows "copies_inv C0 L0 W Q C L"
  unfolding copies_inv_def settled_def inj_on_def using assms by fast

lemma copies_inv_dest:
  assumes "copies_inv C0 L0 W Q C L"
  shows "(p, x) \<in> W \<Longrightarrow> plan_ok L0 p \<and> C (plan_key p) x = Some (cp_ctrl p) \<and>
      L (plan_key p) x = Some (cp_link p) \<and> C0 (plan_key p) x = None \<and> L0 (plan_key p) x = None"
    and "(p, x) \<in> W \<Longrightarrow> (p', x) \<in> W \<Longrightarrow> plan_key p = plan_key p' \<Longrightarrow> p = p'"
    and "(q, x) \<in> Q \<Longrightarrow> \<not> covered W q x \<and> L0 q x = None \<and> L q x \<noteq> None"
    and "\<not> covered W q x \<Longrightarrow> C q x = C0 q x"
    and "\<not> covered W q x \<Longrightarrow> (q, x) \<notin> Q \<Longrightarrow> L q x = L0 q x \<or> marked_by W q x (L q x)"
  using assms unfolding copies_inv_def settled_def inj_on_def by fast+

lemma copies_inv_start: "copies_inv C L {} {} C L"
  by (rule copies_invI) (simp_all)

lemma copies_inv_done: "copies_inv C0 L0 {} {} C L \<Longrightarrow> C = C0 \<and> L = L0"
  by (auto simp: fun_eq_iff covered_def marked_by_def dest: copies_inv_dest(4,5))

lemma copies_inv_legal:
  assumes ci: "copies_inv C0 L0 W Q C L"
  shows "legal_rest C0 L0 C L"
proof -
  note d = copies_inv_dest [OF ci]
  have cov: "L q x \<noteq> None \<and> L0 q x = None" if "covered W q x" for q x
    using that d(1) by (auto simp: covered_def)
  have mrk: "\<exists>lc y c. r = Some lc \<and> C q y = Some c \<and> d_MRID c = lc_SupersededBy lc" if "marked_by W q x r" for q x r
    using that d(1) by (fastforce simp: marked_by_def marked_record_def)
  have "C0 q x = Some c \<and> L0 q x = None" if "C q x = Some c" "L q x = None" for q x c
    using that cov [of q x] d(3-5) [of q x] mrk [of q x] by fastforce
  moreover have "\<exists>y c. C q y = Some c \<and> d_MRID c = lc_SupersededBy lc"
    if "L q x = Some lc" "L0 q x = Some old" "lc \<noteq> old" for q x lc old
    using that cov [of q x] d(3,5) [of q x] mrk [of q x "L q x"] by fastforce
  moreover have "L q x \<noteq> None" if "L0 q x \<noteq> None" for q x
    using that cov [of q x] d(3,5) [of q x] mrk [of q x "L q x"] by fastforce
  ultimately show ?thesis unfolding legal_rest_def by blast
qed

text \<open>The steps of a write and of its undo.\<close>

lemma covered_insert: "covered (insert (p, x) W) q y \<longleftrightarrow> q = plan_key p \<and> y = x \<or> covered W q y"
  by (auto simp: covered_def)

lemma coveredI: "(p, x) \<in> W \<Longrightarrow> covered W (plan_key p) x"
  by (auto simp: covered_def)

lemma marked_by_mono: "marked_by W q x r \<Longrightarrow> W \<subseteq> W' \<Longrightarrow> marked_by W' q x r"
  by (fastforce simp: marked_by_def)

lemma marked_by_Some: "marked_by W q x r \<Longrightarrow> r \<noteq> None"
  by (auto simp: marked_by_def)

lemma copies_inv_absent:
  assumes ci: "copies_inv C0 L0 W Q C L" and "L q x = None"
  shows "\<not> covered W q x" and "(q, x) \<notin> Q" and "L0 q x = None"
proof -
  show c: "\<not> covered W q x" using assms(2) copies_inv_dest(1) [OF ci] by (auto simp: covered_def)
  show o: "(q, x) \<notin> Q" using assms(2) copies_inv_dest(3) [OF ci, of q x] by auto
  show "L0 q x = None" using copies_inv_dest(5) [OF ci c o] assms(2) marked_by_Some by metis
qed

text \<open>A lifecycle record is created.\<close>

lemma copies_inv_record:
  assumes ci: "copies_inv C0 L0 W Q C L" and "L k x = None"
  shows "copies_inv C0 L0 W (insert (k, x) Q) C (upd2 L k x (Some lc))"
proof -
  note d = copies_inv_dest [OF ci] and a = copies_inv_absent [OF assms]
  show ?thesis
  proof (rule copies_invI)
    show "plan_ok L0 p \<and> C (plan_key p) y = Some (cp_ctrl p) \<and> upd2 L k x (Some lc) (plan_key p) y = Some (cp_link p) \<and>
        C0 (plan_key p) y = None \<and> L0 (plan_key p) y = None" if "(p, y) \<in> W" for p y
      using d(1) [OF that] coveredI [OF that] a by (auto simp: upd2_apply)
  qed (use d a in \<open>auto simp: upd2_apply\<close>)
qed

text \<open>Its control is created.\<close>

lemma copies_inv_control:
  assumes ci: "copies_inv C0 L0 W (insert (plan_key p, x) Q) C L" and "(plan_key p, x) \<notin> Q"
    and "L (plan_key p) x = Some (cp_link p)" and "C (plan_key p) x = None" and "plan_ok L0 p"
  shows "copies_inv C0 L0 (insert (p, x) W) Q (upd2 C (plan_key p) x (Some (cp_ctrl p))) L"
proof -
  note d = copies_inv_dest [OF ci]
  have new: "\<not> covered W (plan_key p) x" "L0 (plan_key p) x = None" using d(3) by auto
  then have C0: "C0 (plan_key p) x = None" using d(4) assms(4) by auto
  show ?thesis
  proof (rule copies_invI)
    show "plan_ok L0 r \<and> upd2 C (plan_key p) x (Some (cp_ctrl p)) (plan_key r) y = Some (cp_ctrl r) \<and>
        L (plan_key r) y = Some (cp_link r) \<and> C0 (plan_key r) y = None \<and> L0 (plan_key r) y = None"
      if "(r, y) \<in> insert (p, x) W" for r y
      using that d(1) [of r y] coveredI [of r y W] new C0 assms(3,5) by (auto simp: upd2_apply)
    show "r = r'" if "(r, y) \<in> insert (p, x) W" "(r', y) \<in> insert (p, x) W" "plan_key r = plan_key r'" for r y r'
      using that d(2) coveredI [of r y W] coveredI [of r' y W] new by auto
    show "L q y = L0 q y \<or> marked_by (insert (p, x) W) q y (L q y)"
      if "\<not> covered (insert (p, x) W) q y" "(q, y) \<notin> Q" for q y
      using that d(5) [of q y] marked_by_mono [of W q y "L q y" "insert (p, x) W"] by (auto simp: covered_insert)
  qed (use d(3,4) assms(2) new in \<open>auto simp: covered_insert upd2_apply\<close>)
qed

text \<open>A candidate's record is changed: marked by a stored copy, or put back.\<close>

lemma copies_inv_candidate:
  assumes ci: "copies_inv C0 L0 W Q C L" and old: "L0 k y \<noteq> None" and "r = L0 k y \<or> marked_by W k y r"
  shows "copies_inv C0 L0 W Q C (upd2 L k y r)"
proof -
  note d = copies_inv_dest [OF ci]
  have "(k, y) \<notin> Q" using d(3) old by auto
  moreover have "(k, y) \<noteq> (plan_key p, x)" if "(p, x) \<in> W" for p x using that d(1) old by auto
  ultimately show ?thesis using d assms(3) by (intro copies_invI) (auto simp: upd2_apply)
qed

text \<open>The control of a copy whose marks are gone is deleted.\<close>

lemma copies_inv_uncontrol:
  assumes ci: "copies_inv C0 L0 W Q C L" and "(p, x) \<in> W" and "settled L0 (W - {(p, x)}) (insert (plan_key p, x) Q) L"
  shows "copies_inv C0 L0 (W - {(p, x)}) (insert (plan_key p, x) Q) (upd2 C (plan_key p) x None) L"
proof -
  note d = copies_inv_dest [OF ci] and w = copies_inv_dest(1) [OF ci assms(2)]
  have other: "(plan_key r, y) \<noteq> (plan_key p, x)" if "(r, y) \<in> W - {(p, x)}" for r y
    using that d(2) assms(2) by auto
  then have nc: "\<not> covered (W - {(p, x)}) (plan_key p) x" by (auto simp: covered_def)
  have cov: "covered W q y \<longleftrightarrow> q = plan_key p \<and> y = x \<or> covered (W - {(p, x)}) q y" for q y
    using assms(2) by (auto simp: covered_def)
  show ?thesis
  proof (rule copies_invI)
    show "plan_ok L0 r \<and> upd2 C (plan_key p) x None (plan_key r) y = Some (cp_ctrl r) \<and>
        L (plan_key r) y = Some (cp_link r) \<and> C0 (plan_key r) y = None \<and> L0 (plan_key r) y = None"
      if "(r, y) \<in> W - {(p, x)}" for r y
      using that d(1) [of r y] other [OF that] by (auto simp: upd2_apply)
    show "L q y = L0 q y \<or> marked_by (W - {(p, x)}) q y (L q y)"
      if "\<not> covered (W - {(p, x)}) q y" "(q, y) \<notin> insert (plan_key p, x) Q" for q y
      using that assms(3) unfolding settled_def by blast
  qed (use d w nc cov in \<open>auto simp: upd2_apply\<close>)
qed

text \<open>A record without a control is deleted.\<close>

lemma copies_inv_unrecord:
  assumes ci: "copies_inv C0 L0 W (insert (k, x) Q) C L" and "(k, x) \<notin> Q"
  shows "copies_inv C0 L0 W Q C (upd2 L k x None)"
proof -
  note d = copies_inv_dest [OF ci]
  have "(k, x) \<noteq> (plan_key p, y)" if "(p, y) \<in> W" for p y
    using d(3) [of k x] coveredI [OF that] by auto
  then show ?thesis using d assms(2) by (intro copies_invI) (auto simp: upd2_apply)
qed

text \<open>Marking every candidate of a stored copy, and putting candidates back.\<close>

lemma copies_inv_mark_all:
  assumes "copies_inv C0 L0 W Q C L" and "(p, x) \<in> W" and "set cs \<subseteq> set (cp_candidates p)"
  shows "copies_inv C0 L0 W Q C (mark_all (plan_key p) (plan_start p) (d_MRID (cp_ctrl p)) cs L)"
  using assms(3)
proof (induction cs rule: rev_induct)
  case Nil
  then show ?case using assms(1) by simp
next
  case (snoc c cs)
  have "L0 (plan_key p) (sc_id c) \<noteq> None"
    using snoc.prems copies_inv_dest(1) [OF assms(1,2)] by (auto simp: plan_ok_def)
  moreover have "marked_by W (plan_key p) (sc_id c) (Some (marked_record c (plan_start p) (d_MRID (cp_ctrl p))))"
    using assms(2) snoc.prems by (force simp: marked_by_def)
  ultimately show ?case using snoc by (simp add: copies_inv_candidate)
qed

lemma copies_inv_revert:
  assumes ci: "copies_inv C0 L0 W Q C L" and "plan_ok L0 p" and "set cs \<subseteq> set (cp_candidates p)"
    and L': "\<forall>q y. L' q y = L q y \<or> q = plan_key p \<and> y \<in> sc_id ` set cs \<and> L' q y = L0 q y"
  shows "copies_inv C0 L0 W Q C L'"
proof -
  note d = copies_inv_dest [OF ci]
  have old: "L0 (plan_key p) y \<noteq> None" if "y \<in> sc_id ` set cs" for y
    using that assms(2,3) by (auto simp: plan_ok_def)
  have eq: "L' q y = L q y" if "L0 q y = None" for q y using L' old that by metis
  have new: "L' q y = L q y \<or> L' q y = L0 q y" for q y using L' by blast
  show ?thesis
  proof (rule copies_invI)
    show "plan_ok L0 r \<and> C (plan_key r) y = Some (cp_ctrl r) \<and> L' (plan_key r) y = Some (cp_link r) \<and>
        C0 (plan_key r) y = None \<and> L0 (plan_key r) y = None" if "(r, y) \<in> W" for r y
      using d(1) [OF that] eq by auto
    show "\<not> covered W q y \<and> L0 q y = None \<and> L' q y \<noteq> None" if "(q, y) \<in> Q" for q y
      using d(3) [OF that] eq by auto
    show "L' q y = L0 q y \<or> marked_by W q y (L' q y)" if "\<not> covered W q y" "(q, y) \<notin> Q" for q y
      using d(5) [OF that] new [of q y] by metis
  qed (use d(2,4) in blast)+
qed

text \<open>Once the marks a copy made are put back, nothing names it.\<close>

lemma settled_without:
  assumes ci: "copies_inv C0 L0 W Q C L"
    and L': "\<And>q y. L' q y = (if q = k \<and> y \<in> Y then L0 q y else L q y)"
  shows "settled L0 W Q L'"
  using copies_inv_dest(5) [OF ci] L' by (auto simp: settled_def)

lemma settled_after:
  assumes ci: "copies_inv C0 L0 W Q C L" and "(p, x) \<in> W"
    and L': "\<And>q y. L' q y = (if q = plan_key p \<and> y \<in> cand_ids p then L0 q y else L q y)"
  shows "settled L0 (W - {(p, x)}) (insert (plan_key p, x) Q) L'"
  unfolding settled_def
proof (intro allI impI, elim conjE)
  fix q y
  assume a: "\<not> covered (W - {(p, x)}) q y" "(q, y) \<notin> insert (plan_key p, x) Q"
  have "\<not> covered W q y"
  proof
    assume "covered W q y"
    then obtain r where "(r, y) \<in> W" "plan_key r = q" by (auto simp: covered_def)
    with a show False by (cases "(r, y) = (p, x)") (auto simp: covered_def)
  qed
  with a copies_inv_dest(5) [OF ci, of q y] have "L q y = L0 q y \<or> marked_by W q y (L q y)" by simp
  then show "L' q y = L0 q y \<or> marked_by (W - {(p, x)}) q y (L' q y)"
  proof
    assume m: "marked_by W q y (L q y)"
    show ?thesis
    proof (cases "q = plan_key p \<and> y \<in> cand_ids p")
      case False
      with m L' show ?thesis by (force simp: marked_by_def)
    qed (simp add: L')
  qed (simp add: L')
qed

lemma copies_inv_candidates_present:
  assumes "copies_inv C0 L0 W Q C L" and "plan_ok L0 p" and "c \<in> set (cp_candidates p)"
  shows "L0 (plan_key p) (sc_id c) = Some (sc_before c) \<and> L (plan_key p) (sc_id c) \<noteq> None"
  using copies_inv_legal [OF assms(1)] assms(2,3) by (auto simp: plan_ok_def legal_rest_def)

section \<open>Writing and removing copies\<close>

text \<open>A removal takes its own copy away, or says why it stays.\<close>

definition copy_of :: "'s writtenCopy \<Rightarrow> 's copy" where
  "copy_of w = (wc_plan w, wc_id w)"

definition all_controls :: "'s copy list \<Rightarrow> DERControl map2 \<Rightarrow> DERControl map2" where
  "all_controls ws C = foldl (\<lambda>C (p, x). copied_control p x C) C ws"

definition all_lifecycles :: "'s copy list \<Rightarrow> LifecycleRecord map2 \<Rightarrow> LifecycleRecord map2" where
  "all_lifecycles ws L = foldl (\<lambda>L (p, x). copied_lifecycle p x L) L ws"

context issuer_stores
begin

definition copies :: "'s \<Rightarrow> 's copy set \<Rightarrow> (string \<times> string) set \<Rightarrow> 's \<Rightarrow> bool" where
  "copies s0 W Q s \<longleftrightarrow> inv s \<and> copies_inv (cabs s0) (labs s0) W Q (cabs s) (labs s)"

lemma copies_marks:
  assumes "copies s0 W Q s" and "(p, x) \<in> W" and "set cs \<subseteq> set (cp_candidates p)"
    and "labs t = mark_all (plan_key p) (plan_start p) (d_MRID (cp_ctrl p)) cs (labs s)" and "inv t" and "cabs t = cabs s"
  shows "copies s0 W Q t"
  using copies_inv_mark_all assms by (auto simp: copies_def)

lemma copies_removed:
  assumes ci: "copies s0 (insert (p, x) W) Q s" and new: "(p, x) \<notin> W" and st: "settled (labs s0) W (insert (plan_key p, x) Q) (labs s)"
    and r: "controls_Delete i (plan_key p) x s = (r, t)" and q: "lifecycles_Delete i (plan_key p) x t = (q, u)"
  shows "\<not> undoWriteOK r \<Longrightarrow> copies s0 (insert (p, x) W) Q t \<and> oabs t = oabs s"
    and "undoWriteOK r \<Longrightarrow> \<not> undoWriteOK q \<Longrightarrow> copies s0 W (insert (plan_key p, x) Q) u \<and> oabs u = oabs s"
    and "undoWriteOK r \<Longrightarrow> undoWriteOK q \<Longrightarrow> copies s0 W Q u \<and> oabs u = oabs s"
proof -
  have s: "inv s" "copies_inv (cabs s0) (labs s0) (insert (p, x) W) Q (cabs s) (labs s)"
    using ci by (auto simp: copies_def)
  note c = delete_control_cases [OF s(1) r] and l = delete_lifecycle_cases [OF conjunct1 [OF delete_control_cases [OF s(1) r]] q]
  show "copies s0 (insert (p, x) W) Q t \<and> oabs t = oabs s" if "\<not> undoWriteOK r"
    using that c s by (simp add: copies_def)
  have W: "insert (p, x) W - {(p, x)} = W" using new by blast
  have k: "copies_inv (cabs s0) (labs s0) W (insert (plan_key p, x) Q) (upd2 (cabs s) (plan_key p) x None) (labs s)"
    using copies_inv_uncontrol [OF s(2), of p x] st by (simp add: W)
  show "copies s0 W (insert (plan_key p, x) Q) u \<and> oabs u = oabs s" if "undoWriteOK r" "\<not> undoWriteOK q"
    using that c l k by (simp add: copies_def)
  have nq: "(plan_key p, x) \<notin> Q"
    using copies_inv_dest(3) [OF s(2), of "plan_key p" x] coveredI [of p x "insert (p, x) W"] by blast
  show "copies s0 W Q u \<and> oabs u = oabs s" if "undoWriteOK r" "undoWriteOK q"
    using that c l copies_inv_unrecord [OF k nq] by (simp add: copies_def)
qed


lemma removeCopy_law:
  assumes ci: "copies s0 W Q s" and w: "copy_of w \<in> W" and rm: "removeCopy i w cause s = (r, t)"
  shows "oabs t = oabs s \<and>
    (case r of
       None \<Rightarrow> copies s0 (W - {copy_of w}) Q t
     | Some e \<Rightarrow> is_UndoError e \<and> (\<exists>W' Q'. W - {copy_of w} \<subseteq> W' \<and> W' \<subseteq> W \<and> copies s0 W' Q' t))"
proof -
  let ?p = "wc_plan w" and ?x = "wc_id w" and ?W = "W - {copy_of w}"
  note w = w [unfolded copy_of_def]
  have s: "inv s" "copies_inv (cabs s0) (labs s0) W Q (cabs s) (labs s)" using ci by (auto simp: copies_def)
  have ok: "plan_ok (labs s0) ?p" using copies_inv_dest(1) [OF s(2) w] by blast
  obtain us rs t1 where t1: "revertMarks i (plan_key ?p) (cp_candidates ?p) False s = ((us, rs), t1)"
    by (metis prod.collapse)
  have rv: "inv t1 \<and> cabs t1 = cabs s \<and> oabs t1 = oabs s \<and>
    (\<forall>q y. labs t1 q y = labs s q y \<or> q = plan_key ?p \<and> y \<in> cand_ids ?p \<and> labs t1 q y = labs s0 q y) \<and>
    (us = [] \<longrightarrow> (\<forall>q y. labs t1 q y = (if q = plan_key ?p \<and> y \<in> cand_ids ?p then labs s0 q y else labs s q y)))"
    using revertMarks_law [OF s(1) t1, of "labs s0"] copies_inv_candidates_present [OF s(2) ok] by simp
  then have c1: "copies s0 W Q t1"
    using copies_inv_revert [OF s(2) ok subset_refl, of "labs t1"] by (simp add: copies_def)
  show ?thesis
  proof (cases "us = []")
    case False
    with rm t1 rv c1 show ?thesis by (auto simp: removeCopy_def Let_def intro!: exI [of _ W])
  next
    case True
    obtain r2 t2 where t2: "controls_Delete i (plan_key ?p) ?x t1 = (r2, t2)" by fastforce
    obtain r3 t3 where t3: "lifecycles_Delete i (plan_key ?p) ?x t2 = (r3, t3)" by fastforce
    have ins: "insert (?p, ?x) ?W = W" and out: "(?p, ?x) \<notin> ?W" using w by (auto simp: copy_of_def)
    have "settled (labs s0) ?W (insert (plan_key ?p, ?x) Q) (labs t1)"
      using settled_after [OF s(2) w, of "labs t1"] rv True by (simp add: copy_of_def)
    note del = copies_removed [of s0 ?p ?x ?W Q t1, unfolded ins, OF c1 out this t2 t3]
    have "(r, t) = (if \<not> undoWriteOK r2 then (Some (UndoError UndoStepStoreControl True True ?x [] cause (err_of r2)), t2)
      else if \<not> undoWriteOK r3 then (Some (UndoError UndoStepStoreControl False True ?x [] cause (err_of r3)), t3)
      else (None, t3))"
      using rm t1 t2 t3 True by (auto simp: removeCopy_def Let_def split: if_splits)
    with del rv show ?thesis by (auto split: if_splits)
  qed
qed


text \<open>A write adds its copy; a write that failed and was undone adds nothing.\<close>

lemma copies_both_created:
  assumes ci: "copies s0 W Q s" and ok: "plan_ok (labs s0) p"
    and t: "lifecycles_Create i (plan_key p) x (cp_link p) s = (Inr y, t)"
    and u: "controls_Create i (plan_key p) x (cp_ctrl p) t = (Inr z, u)"
  shows "copies s0 (insert (p, x) W) Q u" and "(p, x) \<notin> W"
    and "copies_inv (cabs s0) (labs s0) W (insert (plan_key p, x) Q) (cabs s) (labs u)"
proof -
  let ?k = "plan_key p"
  have s: "inv s" "copies_inv (cabs s0) (labs s0) W Q (cabs s) (labs s)" using ci by (auto simp: copies_def)
  note b = both_created [OF s(1) t u]
  then have new: "labs s ?k x = None" by blast
  note a = copies_inv_absent [OF s(2) new]
  show "(p, x) \<notin> W" using a(1) coveredI by blast
  show c: "copies_inv (cabs s0) (labs s0) W (insert (?k, x) Q) (cabs s) (labs u)"
    using copies_inv_record [OF s(2) new] b by simp
  from copies_inv_control [OF this a(2) _ _ ok] b show "copies s0 (insert (p, x) W) Q u"
    by (simp add: copies_def upd2_apply)
qed

lemma undone_marks:
  assumes c2: "copies s0 (insert (p, x) W) Q s" and new: "(p, x) \<notin> W"
    and ci: "copies_inv (cabs s0) (labs s0) W (insert (plan_key p, x) Q) C (labs s)"
    and pre: "set (pre @ [c]) \<subseteq> set (cp_candidates p)"
    and t: "inv t" "cabs t = cabs s" "oabs t = oabs s"
      "labs t = mark_all (plan_key p) (plan_start p) (d_MRID (cp_ctrl p)) pre (labs s)"
    and undo: "undoMarkFailure i (plan_key p) x (pre @ [c]) cause t = (f, u)"
  shows "oabs u = oabs s \<and>
    (if is_UndoError f then \<exists>W' Q'. W \<subseteq> W' \<and> copies s0 W' Q' u else copies s0 W Q u)"
proof -
  let ?k = "plan_key p"
  have s2: "copies_inv (cabs s0) (labs s0) (insert (p, x) W) Q (cabs s) (labs s)" using c2 by (simp add: copies_def)
  have ok: "plan_ok (labs s0) p" using copies_inv_dest(1) [OF s2] by blast
  have ct: "copies s0 (insert (p, x) W) Q t" using copies_marks [OF c2 _ _ t(4,1,2)] pre by auto
  then have it: "copies_inv (cabs s0) (labs s0) (insert (p, x) W) Q (cabs t) (labs t)" by (simp add: copies_def)
  obtain us rs t1 where t1: "revertMarks i ?k (pre @ [c]) True t = ((us, rs), t1)" by (metis prod.collapse)
  have rv: "inv t1 \<and> cabs t1 = cabs t \<and> oabs t1 = oabs t \<and>
    (\<forall>q y. labs t1 q y = labs t q y \<or> q = ?k \<and> y \<in> sc_id ` set pre \<and> labs t1 q y = labs s0 q y) \<and>
    (us = [] \<longrightarrow> (\<forall>q y. labs t1 q y = (if q = ?k \<and> y \<in> sc_id ` set pre then labs s0 q y else labs t q y)))"
  proof -
    have "\<forall>d \<in> set (pre @ [c]). labs s0 ?k (sc_id d) = Some (sc_before d) \<and> labs t ?k (sc_id d) \<noteq> None"
      using copies_inv_candidates_present [OF it ok] pre by blast
    from revertMarks_law [where L = "labs s0", OF t(1) t1 this] show ?thesis by simp
  qed
  have c1: "copies s0 (insert (p, x) W) Q t1"
    using copies_inv_revert [OF it ok, of pre "labs t1"] rv pre by (auto simp: copies_def)
  show ?thesis
  proof (cases "us = []")
    case False
    with undo t1 rv t(3) c1 show ?thesis by (auto simp: undoMarkFailure_def rolls)
  next
    case True
    have "labs t1 q y = (if q = ?k \<and> y \<in> sc_id ` set pre then labs s0 q y else labs s q y)" for q y
      using rv True mark_all_other [of q ?k y pre] by (auto simp: t(4))
    from settled_without [OF ci this] have st: "settled (labs s0) W (insert (?k, x) Q) (labs t1)" .
    obtain r2 t2 where t2: "controls_Delete i ?k x t1 = (r2, t2)" by fastforce
    obtain r3 t3 where t3: "lifecycles_Delete i ?k x t2 = (r3, t3)" by fastforce
    note del = copies_removed [OF c1 new st t2 t3]
    have "(f, u) =
      (if \<not> undoWriteOK r2 then (UndoError UndoStepMarkSuperseded True True x [] cause (err_of r2), t2)
       else if \<not> undoWriteOK r3 then (UndoError UndoStepMarkSuperseded False True x [] cause (err_of r3), t3)
       else (Errorf ''dercontrol: mark superseded'' [cause], t3))"
      using undo True t1 t2 t3 by (auto simp: undoMarkFailure_def rolls split: if_splits)
    with del rv t(3) show ?thesis by (auto split: if_splits)
  qed
qed

lemma write_copy_copies:
  assumes ci: "copies s0 W Q s" and ok: "plan_ok (labs s0) p" and w: "write_copy i p x s = (r, t)"
  shows "oabs t = oabs s \<and>
    (case r of
       Inr w \<Rightarrow> w = \<lparr>wc_plan = p, wc_id = x, wc_marked = map sc_mrid (cp_candidates p)\<rparr> \<and>
         (p, x) \<notin> W \<and> copies s0 (insert (p, x) W) Q t \<and>
         cabs t = copied_control p x (cabs s) \<and> labs t = copied_lifecycle p x (labs s)
     | Inl e \<Rightarrow>
         if is_UndoError e then \<exists>W' Q'. W \<subseteq> W' \<and> copies s0 W' Q' t else copies s0 W Q t)"
proof -
  let ?k = "plan_key p" and ?m = "d_MRID (cp_ctrl p)"
  have s: "inv s" "copies_inv (cabs s0) (labs s0) W Q (cabs s) (labs s)" using ci by (auto simp: copies_def)
  obtain iv where iv: "d_Interval (cp_ctrl p) = Some iv" and start: "Start iv = plan_start p"
    using ok by (auto simp: plan_ok_def plan_start_def)
  obtain r1 t1 where t1: "lifecycles_Create i ?k x (cp_link p) s = (r1, t1)" by fastforce
  note f1 = lifecycle_frame(1) [OF s(1) t1]
  obtain r2 t2 where t2: "controls_Create i ?k x (cp_ctrl p) t1 = (r2, t2)" by fastforce
  obtain marked q t3 where t3: "applySupersedes i ?k (plan_start p) ?m [] (cp_candidates p) t2 = ((marked, q), t3)"
    by (metis prod.collapse)
  consider (link) e where "r1 = Inl e" | (control) e y where "r1 = Inr y" "r2 = Inl e"
    | (stored) y z where "r1 = Inr y" "r2 = Inr z"
    by (cases r1; cases r2) auto
  then show ?thesis
  proof cases
    case link
    then have "r = Inl (Errorf ''dercontrol: store lifecycle'' [e])" "t = t1"
      using w t1 by (auto simp: write_copy_def undoLifecycleCreateFailure_def rolls Let_def)
    with lcs.create_err [of s ?k x _ e t1] s t1 link f1 show ?thesis by (simp add: copies_def)
  next
    case control
    with lcs.create_ok [of s ?k x "cp_link p" _ t1] s(1) t1
    have l1: "inv t1" "labs s ?k x = None" "labs t1 = upd2 (labs s) ?k x (Some (cp_link p))" by auto
    note f2 = control_frame(1) [OF l1(1) t2]
    from control ctl.create_err [of t1 ?k x _ e t2] l1 t2 have c2: "inv t2" "cabs t2 = cabs t1" by auto
    have q2: "copies_inv (cabs s0) (labs s0) W (insert (?k, x) Q) (cabs t2) (labs t2)"
      using copies_inv_record [OF s(2) l1(2)] l1 f1 f2 c2 by simp
    obtain e3 t3 where t3: "undoControlCreateFailure i ?k x e t2 = (e3, t3)" by fastforce
    have "r = Inl e3" "t = t3" using w t1 t2 t3 control by (auto simp: write_copy_def Let_def)
    with undoControlCreateFailure_law [OF c2(1) t3, of "labs s" "cp_link p"] l1 f1 f2 c2 q2 s show ?thesis
      by (auto simp: copies_def split: if_splits)
  next
    case stored
    note b = copies_both_created [OF ci ok t1 [unfolded stored(1)] t2 [unfolded stored(2)]]
      and b' = both_created [OF s(1) t1 [unfolded stored(1)] t2 [unfolded stored(2)]]
    then have i2: "inv t2" by blast
    note app = applySupersedes_law [OF i2 t3]
    show ?thesis
    proof (cases q)
      case None
      then have "r = Inr \<lparr>wc_plan = p, wc_id = x, wc_marked = marked\<rparr>" "t = t3"
        using w t1 t2 t3 stored iv start by (auto simp: write_copy_def Let_def)
      with app None b b' copies_marks [OF b(1), of p x "cp_candidates p" t3] show ?thesis
        by (simp add: copied_control_def copied_lifecycle_def)
    next
      case (Some ae)
      then obtain a e where q: "q = Some (a, e)" by (cases ae) auto
      obtain e4 t4 where t4: "undoMarkFailure i ?k x a e t3 = (e4, t4)" by fastforce
      have "r = Inl e4" "t = t4"
        using w t1 t2 t3 t4 q stored iv start by (auto simp: write_copy_def Let_def)
      moreover obtain pre c post where "cp_candidates p = pre @ c # post" "a = pre @ [c]"
        "inv t3" "cabs t3 = cabs t2" "oabs t3 = oabs t2" "labs t3 = mark_all ?k (plan_start p) ?m pre (labs t2)"
        using app q by auto
      ultimately show ?thesis
        using undone_marks [OF b(1-3), of pre c t3 e e4 t4] t4 b' by fastforce
    qed
  qed
qed


section \<open>A whole call\<close>

lemma writeCopies_law:
  assumes "copies s0 W Q s" and "\<forall>p \<in> set ps. plan_ok (labs s0) p" and "writeCopies i ps x s = ((ws, r), t)"
  shows "oabs t = oabs s \<and> distinct (map copy_of ws) \<and> copy_of ` set ws \<inter> W = {} \<and>
    (case r of
       None \<Rightarrow> map copy_of ws = map (\<lambda>p. (p, x)) ps \<and> map wc_marked ws = map (\<lambda>p. map sc_mrid (cp_candidates p)) ps \<and>
         copies s0 (W \<union> copy_of ` set ws) Q t \<and>
         cabs t = all_controls (map copy_of ws) (cabs s) \<and> labs t = all_lifecycles (map copy_of ws) (labs s)
     | Some e \<Rightarrow>
         if is_UndoError e then \<exists>W' Q'. W \<union> copy_of ` set ws \<subseteq> W' \<and> copies s0 W' Q' t
         else copies s0 (W \<union> copy_of ` set ws) Q t)"
  using assms
proof (induction ps arbitrary: s W ws)
  case Nil
  then show ?case by (auto simp: all_controls_def all_lifecycles_def)
next
  case (Cons p ps)
  obtain r1 t1 where t1: "write_copy i p x s = (r1, t1)" by fastforce
  note law = write_copy_copies [OF Cons.prems(1) _ t1]
  show ?case
  proof (cases r1)
    case (Inl e)
    with Cons.prems t1 have "ws = []" "r = Some e" "t = t1" by auto
    with law Inl Cons.prems(2) show ?thesis by (simp split: if_splits)
  next
    case (Inr w)
    with law Cons.prems(2) have w: "copy_of w = (p, x)" "wc_marked w = map sc_mrid (cp_candidates p)" "(p, x) \<notin> W"
      "copies s0 (insert (p, x) W) Q t1" "oabs t1 = oabs s"
      "cabs t1 = copied_control p x (cabs s)" "labs t1 = copied_lifecycle p x (labs s)" by (auto simp: copy_of_def)
    obtain vs where v: "writeCopies i ps x t1 = ((vs, r), t)" "ws = w # vs"
      using Cons.prems(3) t1 Inr by (auto split: prod.splits)
    note ih = Cons.IH [OF w(4) _ v(1)]
    have "W \<union> copy_of ` set ws = insert (p, x) W \<union> copy_of ` set vs" using v(2) w(1) by auto
    moreover have "distinct (map copy_of ws)" "copy_of ` set ws \<inter> W = {}" "oabs t = oabs s"
      using ih Cons.prems(2) w v(2) by auto
    ultimately show ?thesis using ih Cons.prems(2) w v(2)
      by (cases r) (simp_all del: distinct.simps add: all_controls_def all_lifecycles_def split: if_splits)
  qed
qed

lemma remove_copies_law:
  assumes "copies s0 W Q s" and "copy_of ` set ws \<subseteq> W" and "distinct (map copy_of ws)"
    and "remove_copies i ws cause s = (r, t)"
  shows "oabs t = oabs s \<and>
    (case r of
       None \<Rightarrow> copies s0 (W - copy_of ` set ws) Q t
     | Some e \<Rightarrow> is_UndoError e \<and> (\<exists>W' Q'. W - copy_of ` set ws \<subseteq> W' \<and> W' \<subseteq> W \<and> copies s0 W' Q' t))"
  using assms
proof (induction ws arbitrary: s W)
  case (Cons w ws)
  obtain r1 t1 where t1: "removeCopy i w cause s = (r1, t1)" by fastforce
  have w: "copy_of w \<in> W" using Cons.prems(2) by simp
  note law = removeCopy_law [OF Cons.prems(1) w t1]
  show ?case
  proof (cases r1)
    case None
    with law have t1': "copies s0 (W - {copy_of w}) Q t1" "oabs t1 = oabs s" by auto
    have sub: "copy_of ` set ws \<subseteq> W - {copy_of w}" and dst: "distinct (map copy_of ws)"
      using Cons.prems(2,3) by auto
    have run: "remove_copies i ws cause t1 = (r, t)" using Cons.prems(4) t1 None by simp
    have eq: "W - {copy_of w} - copy_of ` set ws = W - copy_of ` set (w # ws)" by auto
    from Cons.IH [OF t1'(1) sub dst run, unfolded eq t1'(2)]
    have "oabs t = oabs s \<and>
      (case r of
         None \<Rightarrow> copies s0 (W - copy_of ` set (w # ws)) Q t
       | Some e \<Rightarrow> is_UndoError e \<and>
           (\<exists>W' Q'. W - copy_of ` set (w # ws) \<subseteq> W' \<and> W' \<subseteq> W - {copy_of w} \<and> copies s0 W' Q' t))" .
    then show ?thesis by (cases r) (simp_all only: option.case, blast+)
  next
    case (Some e)
    with Cons.prems(4) t1 have "r = Some e" "t = t1" by auto
    with law Some show ?thesis by auto
  qed
qed auto

end

end
