(* ===== verification/AcrossCalls.thy ===== *)
theory AcrossCalls
  imports AcrossLaws
begin

text \<open>
  The contract of a whole fan-out: the records and copies of its items written in order, and
  the undo of everything when one write fails. A record writer promises that a failed write
  leaves no record and that its undo, run once everything written since is gone, takes the
  record away.
\<close>

text \<open>An error after which something of the call may remain.\<close>

definition may_remain :: "err \<Rightarrow> bool" where
  "may_remain e \<longleftrightarrow> as_undo e \<or> (case e of AcrossUndoError _ _ _ \<Rightarrow> True | _ \<Rightarrow> False)"

lemma is_UndoError_as_undo: "is_UndoError e \<Longrightarrow> as_undo e"
  using err_tree_self by (auto simp: as_undo_def)

lemma distinct_concat_rev: "distinct (concat (rev xss)) \<longleftrightarrow> distinct (concat xss)"
  by (induction xss) auto

lemma sort_key_Nil_iff: "sort_key f xs = [] \<longleftrightarrow> xs = []"
  by (metis length_0_conv length_sort)

lemma map_le_keeps: "m \<subseteq>\<^sub>m m' \<Longrightarrow> m k \<noteq> None \<Longrightarrow> m' k \<noteq> None"
  by (metis domIff map_le_def)

definition item_copies :: "'s writtenItem \<Rightarrow> 's copy list" where
  "item_copies f = map copy_of (wi_written f)"

definition planned_copies :: "'s plannedAcross list \<Rightarrow> 's copy list" where
  "planned_copies ps = concat (map (\<lambda>p. map (\<lambda>cp. (cp, pl_id p)) (pl_copies p)) ps)"

definition item_result :: "'s plannedAcross \<Rightarrow> AcrossResult" where
  "item_result p =
     \<lparr>ar_ID = pl_id p, ar_Control = pl_ctrl p,
      ar_Copies = map (\<lambda>cp. \<lparr>res_Scope = t_Scope (cp_target cp), res_ID = pl_id p, res_Href = d_Href (cp_ctrl cp),
        res_Control = cp_ctrl cp, res_Supersedes = map sc_mrid (cp_candidates cp)\<rparr>) (pl_copies p)\<rparr>"

text \<open>An item resolved: its control carries the request's duration and its own id.\<close>

definition resolved :: "('s, 'f) preparedAcross \<Rightarrow> 's plannedAcross \<Rightarrow> bool" where
  "resolved p q \<longleftrightarrow> pl_item q = pa_item p \<and> pl_record q = pa_record p \<and> pl_copies q = [] \<and>
     (\<exists>iv. d_Interval (pl_ctrl q) = Some iv \<and> Duration iv = r_DurationSeconds (pa_req p) \<and>
        (\<forall>st. r_Start (pa_req p) = Some st \<longrightarrow> Start iv = st) \<and>
        pl_id q = sortableID (Start iv) (d_CreationTime (pl_ctrl q)) (d_MRID (pl_ctrl q))) \<and>
     d_Base (pl_ctrl q) = Some (pa_base p)"

definition copy_planned ::
    "LifecycleRecord map2 \<Rightarrow> scope_lists \<Rightarrow> 's plannedAcross \<Rightarrow> string \<Rightarrow> bool \<Rightarrow> 's Target \<Rightarrow> 's copyPlan \<Rightarrow> bool" where
  "copy_planned L existing plan origin whole tg cp \<longleftrightarrow>
     (let k = Key (t_Scope tg); iv = the (d_Interval (pl_ctrl plan))
      in cp_target cp = tg \<and> cp_ctrl cp = copyOf (pl_ctrl plan) (t_Scope tg) (pl_id plan) \<and>
         cp_candidates cp = candidates (L k) (case map_of existing k of None \<Rightarrow> [] | Some cs \<Rightarrow> cs)
           (d_Base (pl_ctrl plan)) (Start iv) (IntervalEnd iv) \<and>
         cp_link cp = zero_lifecycle\<lparr>lc_FleetKey := f_Key (t_Fleet tg), lc_Reach := f_Reach (t_Fleet tg),
           lc_Origin := origin, lc_FleetTotal := whole\<rparr> \<and>
         plan_ok L cp)"

definition item_planned ::
    "LifecycleRecord map2 \<Rightarrow> scope_lists \<Rightarrow> ('s, 'f) preparedAcross list \<Rightarrow> 's plannedAcross \<Rightarrow> 's plannedAcross \<Rightarrow> bool" where
  "item_planned L existing prepared plan q \<longleftrightarrow>
     q = plan\<lparr>pl_copies := pl_copies q\<rparr> \<and>
     (case find (\<lambda>p. pa_item p = pl_item plan) prepared of
        None \<Rightarrow> pl_copies q = pl_copies plan
      | Some p \<Rightarrow> list_all2 (copy_planned L existing plan (pa_origin p) (pa_total p)) (pa_targets p) (pl_copies q))"

text \<open>
  A planned item of a call that was not refused: its control has the duration, start and
  record writer of its request, and a copy for each of its targets, in scope key order,
  planned from the records and the lists read before the first write.
\<close>

definition item_issued ::
    "LifecycleRecord map2 \<Rightarrow> scope_lists \<Rightarrow> ('s, 'f) Across \<Rightarrow> 's plannedAcross \<Rightarrow> bool" where
  "item_issued L existing it q \<longleftrightarrow>
     (\<exists>iv. d_Interval (pl_ctrl q) = Some iv \<and> Duration iv = r_DurationSeconds (a_Req it) \<and>
        (\<forall>st. r_Start (a_Req it) = Some st \<longrightarrow> Start iv = st)) \<and>
     pl_record q = a_Record it \<and>
     (\<exists>origin. StoredOrigin (r_Origin (a_Req it)) = Inr origin \<and>
        list_all2 (copy_planned L existing q origin (a_FleetTotal it))
          (sort_key (\<lambda>t. Key (t_Scope t)) (a_Targets it)) (pl_copies q))"

context issuer_stores
begin

definition undo_ok :: "'s recordUndo \<Rightarrow> 'o \<Rightarrow> 'o \<Rightarrow> bool" where
  "undo_ok ru a b \<longleftrightarrow> (\<forall>u r v. inv u \<longrightarrow> ru_undo ru u = (r, v) \<longrightarrow>
     inv v \<and> cabs v = cabs u \<and> labs v = labs u \<and> (oabs u = a \<and> r = Inr () \<longrightarrow> oabs v = b))"

definition record_ok :: "'s RecordWriter \<Rightarrow> bool" where
  "record_ok rw \<longleftrightarrow> (\<forall>x c s r t. inv s \<longrightarrow> rw x c s = (r, t) \<longrightarrow>
     inv t \<and> cabs t = cabs s \<and> labs t = labs s \<and>
     (case r of Inl _ \<Rightarrow> oabs t = oabs s | Inr undo \<Rightarrow> undo_ok \<lparr>ru_id = x, ru_undo = undo\<rparr> (oabs t) (oabs s)))"

text \<open>The undos of finished items, newest first, lead from one state of the records back to another.\<close>

fun undo_chain :: "'s writtenItem list \<Rightarrow> 'o \<Rightarrow> 'o \<Rightarrow> bool" where
  "undo_chain [] a b \<longleftrightarrow> a = b"
| "undo_chain (f # fs) a b \<longleftrightarrow> (\<exists>c. undo_ok (wi_record f) a c \<and> undo_chain fs c b)"

lemma copies_frame:
  "copies s0 W Q u \<Longrightarrow> inv v \<Longrightarrow> cabs v = cabs u \<Longrightarrow> labs v = labs u \<Longrightarrow> copies s0 W Q v"
  by (simp add: copies_def)

lemma removeWritten_law:
  assumes ci: "copies s0 W Q s" and sub: "copy_of ` set ws \<subseteq> W" and dst: "distinct (map copy_of ws)"
    and rec: "\<forall>ru. rec = Some ru \<longrightarrow> undo_ok ru a b"
    and rm: "removeWritten i ws cause rec s = (r, t)"
  shows "case r of
       None \<Rightarrow> copies s0 (W - copy_of ` set ws) Q t \<and> (rec \<noteq> None \<and> oabs s = a \<longrightarrow> oabs t = b)
     | Some e \<Rightarrow> is_UndoError e \<and> (\<exists>W' Q'. W - copy_of ` set ws \<subseteq> W' \<and> W' \<subseteq> W \<and> copies s0 W' Q' t)"
proof -
  obtain r1 t1 where t1: "remove_copies i (rev ws) cause s = (r1, t1)" by fastforce
  have "copy_of ` set (rev ws) \<subseteq> W" "distinct (map copy_of (rev ws))"
    using sub dst by (auto simp: rev_map [symmetric])
  note law = remove_copies_law [OF ci this t1]
  show ?thesis
  proof (cases r1)
    case (Some e)
    then have "r = Some e" "t = t1" using rm t1 by (auto simp: removeWritten_def)
    with law Some show ?thesis by simp
  next
    case None
    with law have c1: "copies s0 (W - copy_of ` set ws) Q t1" and o1: "oabs t1 = oabs s" by auto
    show ?thesis
    proof (cases rec)
      case None
      with rm t1 \<open>r1 = None\<close> c1 show ?thesis by (auto simp: removeWritten_def)
    next
      case (Some ru)
      obtain r2 t2 where t2: "ru_undo ru t1 = (r2, t2)" by fastforce
      have u: "inv t2 \<and> cabs t2 = cabs t1 \<and> labs t2 = labs t1 \<and> (oabs t1 = a \<and> r2 = Inr () \<longrightarrow> oabs t2 = b)"
        using rec Some t2 c1 by (auto simp: undo_ok_def copies_def)
      then have c2: "copies s0 (W - copy_of ` set ws) Q t2" using copies_frame [OF c1] by blast
      show ?thesis
      proof (cases r2)
        case (Inl e)
        with rm t1 t2 Some \<open>r1 = None\<close>
        have "r = Some (UndoError UndoStepStoreRecord False False (ru_id ru) [] cause [e])" "t = t2"
          by (auto simp: removeWritten_def)
        with c2 show ?thesis by (auto intro!: exI [of _ "W - copy_of ` set ws"])
      next
        case (Inr y)
        with rm t1 t2 Some \<open>r1 = None\<close> have "r = None" "t = t2" by (auto simp: removeWritten_def)
        with c2 u o1 Inr show ?thesis by simp
      qed
    qed
  qed
qed

lemma undo_finished_law:
  assumes "copies s0 W Q s" and "set (concat (map item_copies fs)) \<subseteq> W" and "distinct (concat (map item_copies fs))"
    and "undo_chain fs a b" and "undo_finished i fs cause s = (kept, u)"
  shows "(\<forall>(n, e) \<in> set kept. is_UndoError e) \<and>
    (\<exists>W' Q'. W' \<subseteq> W \<and> copies s0 W' Q' u \<and>
      (kept = [] \<longrightarrow> W' = W - set (concat (map item_copies fs)) \<and> Q' = Q \<and> (oabs s = a \<longrightarrow> oabs u = b)))"
  using assms
proof (induction fs arbitrary: s W Q a kept)
  case Nil
  then show ?case by auto
next
  case (Cons f fs)
  obtain r t where t: "removeWritten i (wi_written f) cause (Some (wi_record f)) s = (r, t)" by fastforce
  obtain kept' where k: "undo_finished i fs cause t = (kept', u)"
    and kept: "kept = (case r of None \<Rightarrow> kept' | Some e \<Rightarrow> (wi_item f, e) # kept')"
    using Cons.prems(5) t by (auto split: prod.splits)
  obtain c where c: "undo_ok (wi_record f) a c" "undo_chain fs c b" using Cons.prems(4) by auto
  have own: "copy_of ` set (wi_written f) = set (item_copies f)" by (simp add: item_copies_def)
  have law: "case r of
       None \<Rightarrow> copies s0 (W - set (item_copies f)) Q t \<and> (oabs s = a \<longrightarrow> oabs t = c)
     | Some e \<Rightarrow> is_UndoError e \<and> (\<exists>W' Q'. W - set (item_copies f) \<subseteq> W' \<and> W' \<subseteq> W \<and> copies s0 W' Q' t)"
  proof -
    have "copy_of ` set (wi_written f) \<subseteq> W" "distinct (map copy_of (wi_written f))"
      using Cons.prems(2,3) by (simp_all add: own item_copies_def [symmetric])
    from removeWritten_law [OF Cons.prems(1) this _ t, of a c] c(1) show ?thesis by (cases r) (simp_all add: own)
  qed
  have rest: "set (concat (map item_copies fs)) \<subseteq> V" if "W - set (item_copies f) \<subseteq> V" for V
    using Cons.prems(2,3) that by simp blast
  have dst: "distinct (concat (map item_copies fs))" using Cons.prems(3) by simp
  show ?case
  proof (cases r)
    case None
    with law have t': "copies s0 (W - set (item_copies f)) Q t" "oabs s = a \<longrightarrow> oabs t = c" by auto
    have eq: "W - set (item_copies f) - set (concat (map item_copies fs)) = W - set (concat (map item_copies (f # fs)))"
      by auto
    from Cons.IH [OF t'(1) rest [OF subset_refl] dst c(2) k, unfolded eq] kept None t'(2) show ?thesis
      by (simp only: option.case) blast
  next
    case (Some e)
    with law obtain V P where V: "W - set (item_copies f) \<subseteq> V" "V \<subseteq> W" "copies s0 V P t" and e: "is_UndoError e" by auto
    have kept': "kept = (wi_item f, e) # kept'" using kept Some by simp
    from Cons.IH [OF V(3) rest [OF V(1)] dst c(2) k] V(2) e show ?thesis
      unfolding kept' by auto
  qed
qed


text \<open>The item whose write failed.\<close>

abbreviation current_copies :: "('s writtenItem \<times> err) option \<Rightarrow> 's copy list" where
  "current_copies cur \<equiv> (case cur of None \<Rightarrow> [] | Some (c, _) \<Rightarrow> item_copies c)"

lemma undo_current_law:
  assumes ci: "copies s0 W Q s" and sub: "set (current_copies cur) \<subseteq> W" and dst: "distinct (current_copies cur)"
    and rec: "case cur of None \<Rightarrow> z = a | Some (c, _) \<Rightarrow> undo_ok (wi_record c) z a"
    and run: "undo_current i cur cause s = (kept, t)"
  shows "(\<forall>(n, e) \<in> set kept. as_undo e) \<and>
    (\<exists>W' Q'. W - set (current_copies cur) \<subseteq> W' \<and> W' \<subseteq> W \<and> copies s0 W' Q' t \<and>
      (kept = [] \<longrightarrow> W' = W - set (current_copies cur) \<and> Q' = Q \<and> (oabs s = z \<longrightarrow> oabs t = a)))"
proof (cases cur)
  case None
  with run ci rec show ?thesis by (auto simp: undo_current_def)
next
  case (Some ce)
  obtain c e where cur: "cur = Some (c, e)" using Some by (cases ce) auto
  have own: "copy_of ` set (wi_written c) = set (item_copies c)" by (simp add: item_copies_def)
  have sub': "copy_of ` set (wi_written c) \<subseteq> W" and dst': "distinct (map copy_of (wi_written c))"
    using sub dst cur by (simp_all add: own item_copies_def [symmetric])
  show ?thesis
  proof (cases "as_undo e")
    case True
    obtain r u where u: "removeWritten i (wi_written c) e None s = (r, u)" by fastforce
    have "\<exists>W' Q'. W - set (item_copies c) \<subseteq> W' \<and> W' \<subseteq> W \<and> copies s0 W' Q' u"
      using removeWritten_law [OF ci sub' dst' _ u] by (cases r) (auto simp: own)
    with run cur True u show ?thesis by (auto simp: undo_current_def)
  next
    case False
    obtain r u where u: "removeWritten i (wi_written c) cause (Some (wi_record c)) s = (r, u)" by fastforce
    have law: "case r of
       None \<Rightarrow> copies s0 (W - set (item_copies c)) Q u \<and> (oabs s = z \<longrightarrow> oabs u = a)
     | Some e \<Rightarrow> is_UndoError e \<and> (\<exists>W' Q'. W - set (item_copies c) \<subseteq> W' \<and> W' \<subseteq> W \<and> copies s0 W' Q' u)"
      using removeWritten_law [OF ci sub' dst' _ u, of z a] rec cur by (cases r) (simp_all add: own)
    show ?thesis
    proof (cases r)
      case None
      then have "kept = []" "t = u" using run cur False u by (auto simp: undo_current_def)
      with law None cur show ?thesis by auto
    next
      case (Some f)
      then have "kept = [(wi_item c, f)]" "t = u" using run cur False u by (auto simp: undo_current_def)
      with law Some cur show ?thesis by (simp add: is_UndoError_as_undo)
    qed
  qed
qed

lemma undoItems_law:
  fixes finished :: "'s writtenItem list"
  defines "fin \<equiv> set (concat (map item_copies finished))"
  assumes ci: "copies s0 W Q s" and sub: "set (current_copies cur) \<union> fin \<subseteq> W"
    and dst: "distinct (current_copies cur @ concat (map item_copies finished))"
    and rec: "case cur of None \<Rightarrow> z = a | Some (c, _) \<Rightarrow> undo_ok (wi_record c) z a"
    and chain: "undo_chain (rev finished) a b"
    and run: "undoItems i n cur finished cause s = (e, u)"
  shows "\<exists>W' Q'. W' \<subseteq> W \<and> copies s0 W' Q' u \<and>
    (\<not> may_remain e \<longrightarrow> W' = W - (set (current_copies cur) \<union> fin) \<and> Q' = Q \<and> (oabs s = z \<longrightarrow> oabs u = b))"
proof -
  obtain kept1 t where t: "undo_current i cur cause s = (kept1, t)" by fastforce
  obtain kept2 v where v: "undo_finished i (rev finished) cause t = (kept2, v)" by fastforce
  have "set (current_copies cur) \<subseteq> W" "distinct (current_copies cur)" using sub dst by auto
  from undo_current_law [OF ci this rec t] obtain W1 Q1 where
    k1: "\<forall>(n, e) \<in> set kept1. as_undo e" and W1: "W - set (current_copies cur) \<subseteq> W1" "W1 \<subseteq> W" "copies s0 W1 Q1 t"
    and d1: "kept1 = [] \<longrightarrow> W1 = W - set (current_copies cur) \<and> Q1 = Q \<and> (oabs s = z \<longrightarrow> oabs t = a)" by auto
  have f: "set (concat (map item_copies (rev finished))) = fin" by (simp add: fin_def)
  have "fin \<subseteq> W1" using sub dst W1(1) unfolding fin_def by (simp only: distinct_append) blast
  moreover have "distinct (concat (map item_copies (rev finished)))"
    using dst by (simp add: rev_map [symmetric] distinct_concat_rev)
  ultimately obtain W2 Q2 where k2: "\<forall>(n, e) \<in> set kept2. is_UndoError e" and W2: "W2 \<subseteq> W1" "copies s0 W2 Q2 v"
    and d2: "kept2 = [] \<longrightarrow> W2 = W1 - fin \<and> Q2 = Q1 \<and> (oabs t = a \<longrightarrow> oabs v = b)"
    using undo_finished_law [OF W1(3) _ _ chain v] f by auto
  have "u = v" and e: "e = (if kept1 @ kept2 = [] then cause else if n = 1 then snd (hd (kept1 @ kept2))
      else (let es = with_errors (kept1 @ kept2) [] in AcrossUndoError (map fst es) (map snd es) cause))"
    using run t v by (auto simp: undoItems_def Let_def)
  have "kept1 = [] \<and> kept2 = []" if "\<not> may_remain e"
  proof (rule ccontr)
    assume ne: "\<not> (kept1 = [] \<and> kept2 = [])"
    then have "hd (kept1 @ kept2) \<in> set (kept1 @ kept2)" by (intro hd_in_set) auto
    then have "as_undo (snd (hd (kept1 @ kept2)))" using k1 k2 is_UndoError_as_undo by fastforce
    with e ne that show False by (auto simp: may_remain_def Let_def split: if_splits)
  qed
  with W1 W2 d1 d2 \<open>u = v\<close> show ?thesis by (intro exI [of _ W2] exI [of _ Q2]) auto
qed


section \<open>Writing every item\<close>

lemma copy_results:
  assumes "map copy_of ws = map (\<lambda>p. (p, x)) ps" and "map wc_marked ws = map (\<lambda>p. map sc_mrid (cp_candidates p)) ps"
  shows "map (copy_result x) ws = map (\<lambda>cp. \<lparr>res_Scope = t_Scope (cp_target cp), res_ID = x, res_Href = d_Href (cp_ctrl cp),
      res_Control = cp_ctrl cp, res_Supersedes = map sc_mrid (cp_candidates cp)\<rparr>) ps"
  using assms
proof (induction ws arbitrary: ps)
  case (Cons w ws)
  then obtain p qs where "ps = p # qs" by (cases ps) auto
  with Cons show ?case by (simp add: copy_result_def copy_of_def)
qed simp

lemma all_append:
  "all_controls (xs @ ys) C = all_controls ys (all_controls xs C)"
  "all_lifecycles (xs @ ys) L = all_lifecycles ys (all_lifecycles xs L)"
  by (simp_all add: all_controls_def all_lifecycles_def)

lemma write_items_law:
  assumes "copies s0 (set (concat (map item_copies finished))) {} s"
    and "distinct (concat (map item_copies finished))"
    and "undo_chain (rev finished) (oabs s) (oabs s0)"
    and "\<forall>p \<in> set ps. record_ok (pl_record p) \<and> (\<forall>cp \<in> set (pl_copies p). plan_ok (labs s0) cp)"
    and "write_items i n finished ps s = (r, t)"
  shows "case r of
      Inl e \<Rightarrow> \<exists>W Q. copies s0 W Q t \<and> (\<not> may_remain e \<longrightarrow> W = {} \<and> Q = {} \<and> oabs t = oabs s0)
    | Inr rs \<Rightarrow> rs = map item_result ps \<and> inv t \<and>
        cabs t = all_controls (planned_copies ps) (cabs s) \<and> labs t = all_lifecycles (planned_copies ps) (labs s) \<and>
        copies s0 (set (concat (map item_copies finished)) \<union> set (planned_copies ps)) {} t"
  using assms
proof (induction ps arbitrary: finished s r)
  case Nil
  then show ?case by (auto simp: planned_copies_def all_controls_def all_lifecycles_def copies_def)
next
  case (Cons p ps)
  let ?fin = "set (concat (map item_copies finished))" and ?x = "pl_id p"
  have inv_s: "inv s" using Cons.prems(1) by (simp add: copies_def)
  obtain r1 t1 where t1: "pl_record p ?x (pl_ctrl p) s = (r1, t1)" by fastforce
  have rec: "inv t1 \<and> cabs t1 = cabs s \<and> labs t1 = labs s \<and>
     (case r1 of Inl _ \<Rightarrow> oabs t1 = oabs s | Inr undo \<Rightarrow> undo_ok \<lparr>ru_id = ?x, ru_undo = undo\<rparr> (oabs t1) (oabs s))"
    using Cons.prems(4) t1 inv_s by (simp add: record_ok_def)
  have c1: "copies s0 ?fin {} t1" using copies_frame [OF Cons.prems(1)] rec by blast
  show ?case
  proof (cases r1)
    case (Inl e)
    obtain e' u where u: "undoItems i n None finished (Errorf ''dercontrol: store record'' [e]) t1 = (e', u)" by fastforce
    have "r = Inl e'" "t = u" using Cons.prems(5) t1 Inl u by auto
    with undoItems_law [OF c1 _ _ _ Cons.prems(3) u, of "oabs s"] Cons.prems(2) rec Inl show ?thesis by auto
  next
    case (Inr undo)
    obtain ws q t2 where t2: "writeCopies i (pl_copies p) ?x t1 = ((ws, q), t2)" by (metis prod.collapse)
    let ?cur = "\<lparr>wi_item = pl_item p, wi_written = ws, wi_record = \<lparr>ru_id = ?x, ru_undo = undo\<rparr>\<rparr>"
    have plans: "\<forall>cp \<in> set (pl_copies p). plan_ok (labs s0) cp" using Cons.prems(4) by simp
    note law = writeCopies_law [OF c1 plans t2]
    have cur: "item_copies ?cur = map copy_of ws" by (simp add: item_copies_def)
    have dst: "distinct (item_copies ?cur @ concat (map item_copies finished))"
      using law Cons.prems(2) by (auto simp: cur)
    have undo: "undo_ok (wi_record ?cur) (oabs t1) (oabs s)" using rec Inr by simp
    show ?thesis
    proof (cases q)
      case (Some e)
      obtain e' u where u: "undoItems i n (Some (?cur, e)) finished e t2 = (e', u)" by fastforce
      have "r = Inl e'" "t = u" using Cons.prems(5) t1 Inr t2 Some u by (auto simp: Let_def)
      moreover obtain W Q where W: "copies s0 W Q t2" "?fin \<union> copy_of ` set ws \<subseteq> W"
        and ex: "\<not> is_UndoError e \<Longrightarrow> W = ?fin \<union> copy_of ` set ws \<and> Q = {}"
        using law Some by (auto split: if_splits)
      moreover have "as_undo e'" if "is_UndoError e" "n = 1"
        using u that is_UndoError_as_undo [OF that(1)]
        by (auto simp: undoItems_def undo_current_def Let_def split: prod.splits)
      moreover have "may_remain e'" if "is_UndoError e"
        using u that is_UndoError_as_undo [OF that]
        by (auto simp: undoItems_def undo_current_def Let_def may_remain_def split: prod.splits)
      ultimately show ?thesis
        using undoItems_law [OF W(1) _ _ _ Cons.prems(3) u, of "oabs t1"] dst undo law
        by (cases "is_UndoError e") (auto simp: cur)
    next
      case None
      obtain r3 where t3: "write_items i n (finished @ [?cur]) ps t2 = (r3, t)"
        and r: "r = (case r3 of Inl e \<Rightarrow> Inl e | Inr rs \<Rightarrow>
          Inr (\<lparr>ar_ID = ?x, ar_Control = pl_ctrl p, ar_Copies = map (copy_result ?x) ws\<rparr> # rs))"
        using Cons.prems(5) t1 Inr t2 None by (auto simp: Let_def split: prod.splits sum.splits)
      have w: "oabs t2 = oabs t1" "map copy_of ws = map (\<lambda>p. (p, ?x)) (pl_copies p)"
        "map wc_marked ws = map (\<lambda>p. map sc_mrid (cp_candidates p)) (pl_copies p)"
        "copies s0 (?fin \<union> copy_of ` set ws) {} t2"
        "cabs t2 = all_controls (map copy_of ws) (cabs t1)" "labs t2 = all_lifecycles (map copy_of ws) (labs t1)"
        using law None by auto
      have fin: "set (concat (map item_copies (finished @ [?cur]))) = ?fin \<union> copy_of ` set ws" by (simp add: cur)
      have "undo_chain (rev (finished @ [?cur])) (oabs t2) (oabs s0)" using undo Cons.prems(3) w(1) by auto
      moreover have "distinct (concat (map item_copies (finished @ [?cur])))" using dst by auto
      ultimately have ih: "case r3 of
          Inl e \<Rightarrow> \<exists>W Q. copies s0 W Q t \<and> (\<not> may_remain e \<longrightarrow> W = {} \<and> Q = {} \<and> oabs t = oabs s0)
        | Inr rs \<Rightarrow> rs = map item_result ps \<and> inv t \<and>
            cabs t = all_controls (planned_copies ps) (cabs t2) \<and> labs t = all_lifecycles (planned_copies ps) (labs t2) \<and>
            copies s0 ((?fin \<union> copy_of ` set ws) \<union> set (planned_copies ps)) {} t"
        using Cons.IH [of "finished @ [?cur]" t2 r3] w(4) t3 Cons.prems(4) unfolding fin by simp
      have pc: "planned_copies (p # ps) = map copy_of ws @ planned_copies ps" by (simp add: planned_copies_def w(2))
      have res: "\<lparr>ar_ID = ?x, ar_Control = pl_ctrl p, ar_Copies = map (copy_result ?x) ws\<rparr> = item_result p"
        by (simp add: item_result_def copy_results [OF w(2,3)])
      from ih rec w(5,6) show ?thesis unfolding r pc res
        by (cases r3) (auto simp: all_append Un_assoc)
    qed
  qed
qed


section \<open>Reading and planning\<close>

text \<open>The lists read are the controls of their scopes, and every target was read or failed its program check.\<close>

definition lists_ok :: "'s \<Rightarrow> scope_lists \<Rightarrow> bool" where
  "lists_ok s existing \<longleftrightarrow>
     (\<forall>k cs. map_of existing k = Some cs \<longrightarrow> card (dom (cabs s k)) < 2 ^ 32 \<longrightarrow> set cs = ran (cabs s k))"

lemma read_targets_law:
  assumes "inv s" and "lists_ok s existing" and "read_targets i ts existing errs s = (r, t)"
  shows "t = s \<and> (\<forall>existing' errs'. r = Inr (existing', errs') \<longrightarrow> lists_ok s existing' \<and>
    map_of existing \<subseteq>\<^sub>m map_of existing' \<and> map_of errs \<subseteq>\<^sub>m map_of errs' \<and>
    (\<forall>tg \<in> set ts. map_of existing' (Key (t_Scope tg)) \<noteq> None \<or> map_of errs' (Key (t_Scope tg)) \<noteq> None))"
  using assms(2,3)
proof (induction ts arbitrary: existing errs)
  case Nil
  then show ?case by (auto simp: io_return_def)
next
  case (Cons tg ts)
  let ?k = "Key (t_Scope tg)"
  have step: ?case if ok: "lists_ok s ex" and run: "read_targets i ts ex er s = (r, t)"
    and le: "map_of existing \<subseteq>\<^sub>m map_of ex" "map_of errs \<subseteq>\<^sub>m map_of er"
    and k: "map_of ex ?k \<noteq> None \<or> map_of er ?k \<noteq> None" for ex er
  proof (intro conjI allI impI)
    show "t = s" using Cons.IH [OF ok run] by blast
    fix ex' er' assume r: "r = Inr (ex', er')"
    with Cons.IH [OF ok run] have ih: "lists_ok s ex'" "map_of ex \<subseteq>\<^sub>m map_of ex'" "map_of er \<subseteq>\<^sub>m map_of er'"
      "\<forall>tg \<in> set ts. map_of ex' (Key (t_Scope tg)) \<noteq> None \<or> map_of er' (Key (t_Scope tg)) \<noteq> None" by blast+
    show "lists_ok s ex'" "map_of existing \<subseteq>\<^sub>m map_of ex'" "map_of errs \<subseteq>\<^sub>m map_of er'"
      using ih le by (blast intro: map_le_trans)+
    have "map_of ex' ?k \<noteq> None \<or> map_of er' ?k \<noteq> None" using k ih(2,3) map_le_keeps by metis
    with ih(4) show "\<forall>tg \<in> set (tg # ts). map_of ex' (Key (t_Scope tg)) \<noteq> None \<or> map_of er' (Key (t_Scope tg)) \<noteq> None"
      by simp
  qed
  show ?case
  proof (cases "map_of existing ?k \<noteq> None \<or> map_of errs ?k \<noteq> None")
    case True
    with Cons.prems(2) have "read_targets i ts existing errs s = (r, t)" by (simp add: Let_def)
    from step [OF Cons.prems(1) this _ _ True] show ?thesis by simp
  next
    case False
    obtain r1 t1 where t1: "checkProgram i (t_Scope tg) s = (r1, t1)" by fastforce
    note t1' = checkProgram_reads [OF assms(1) t1]
    show ?thesis
    proof (cases r1)
      case (Inl e)
      with Cons.prems(2) False t1 t1' have "read_targets i ts existing (errs @ [(?k, e)]) s = (r, t)"
        by (simp add: io_try_def Let_def)
      from step [OF Cons.prems(1) this] show ?thesis by (simp add: map_le_map_add map_add_Some_iff)
    next
      case (Inr u)
      obtain l where l: "controls_List i ?k unbounded_options s = (Inr l, s)"
        "card (dom (cabs s ?k)) < 2 ^ 32 \<longrightarrow> set (lr_Items l) = ran (cabs s ?k)"
        using list_law [OF assms(1)] by blast
      have ok: "lists_ok s (existing @ [(?k, lr_Items l)])"
        using Cons.prems(1) l(2) by (auto simp: lists_ok_def map_add_def split: option.splits)
      from Cons.prems(2) False t1 t1' Inr l(1)
      have "read_targets i ts (existing @ [(?k, lr_Items l)]) errs s = (r, t)"
        by (simp add: io_try_def io_run Let_def)
      from step [OF ok this] show ?thesis by (simp add: map_le_map_add map_add_Some_iff)
    qed
  qed
qed

lemma resolveAcross_law:
  assumes "inv s" and "resolveAcross i first now n ps s = ((out, refused), t)"
  shows "same s t \<and> (\<forall>q \<in> set out. \<exists>p \<in> set ps. resolved p q) \<and> (refused = [] \<longrightarrow> list_all2 resolved ps out)"
  using assms
proof (induction ps arbitrary: n s out refused)
  case (Cons p ps)
  let ?start = "case r_Start (pa_req p) of None \<Rightarrow> wrap64 (first + pa_offset p) | Some st \<Rightarrow> st"
  show ?case
  proof (cases "?start > wrap64 (now + quo (c_StartLead (i_cfg i)) Second)")
    case True
    then obtain rf where "resolveAcross i first now (Suc n) ps s = ((out, rf), t)"
      "refused = (pa_item p, refuse RefusalStartTooFarAhead) # rf"
      using Cons.prems(2) by (auto simp: Let_def split: prod.splits)
    with Cons.IH [OF Cons.prems(1)] show ?thesis by fastforce
  next
    case False
    obtain r1 t1 where t1: "i_newMRID i (the (c_PEN (i_cfg i))) s = (r1, t1)" by fastforce
    note m = mint_frame [OF Cons.prems(1) t1]
    obtain out' rf' where rest: "resolveAcross i first now (Suc n) ps t1 = ((out', rf'), t)"
      using Cons.prems(2) False t1 by (cases r1) (auto simp: Let_def split: prod.splits)
    note ih = Cons.IH [OF conjunct1 [OF m] rest]
    show ?thesis
    proof (cases r1)
      case (Inl e)
      with Cons.prems(2) False t1 rest m ih show ?thesis by (auto simp: Let_def)
    next
      case (Inr w)
      let ?q = "\<lparr>pl_item = pa_item p, pl_id = sortableID ?start (wrap64 (first + int n)) w,
         pl_ctrl = newControl (pa_base p) w (r_Description (pa_req p)) (wrap64 (first + int n)) ?start (r_DurationSeconds (pa_req p)),
         pl_record = pa_record p, pl_copies = []\<rparr>"
      have "resolved p ?q" by (simp add: resolved_def newControl_def)
      moreover have "out = ?q # out'" "refused = rf'"
        using Cons.prems(2) False t1 rest Inr by (auto simp: Let_def)
      ultimately show ?thesis using ih m by auto
    qed
  qed
qed simp

lemma plan_targets_law:
  assumes "inv s" and "\<forall>tg \<in> set ts. fleet_reads (t_Fleet tg)" and "d_Interval (pl_ctrl plan) = Some iv"
    and "plan_targets i plan p existing inCall ts s = (r, t)"
  shows "same s t \<and> (\<forall>cps. r = Inr cps \<longrightarrow> list_all2 (copy_planned (labs s) existing plan (pa_origin p) (pa_total p)) ts cps)"
  using assms(1,2,4)
proof (induction ts arbitrary: s r t)
  case Nil
  then show ?case by (auto simp: io_return_def)
next
  case (Cons tg ts)
  let ?k = "Key (t_Scope tg)" and ?c = "copyOf (pl_ctrl plan) (t_Scope tg) (pl_id plan)"
  let ?ex = "case map_of existing ?k of None \<Rightarrow> [] | Some cs \<Rightarrow> cs"
  have iv: "d_Interval ?c = Some iv" and base: "d_Base ?c = d_Base (pl_ctrl plan)"
    using assms(3) by (simp_all add: copyOf_def)
  show ?case
  proof (cases "overlaps_in_call inCall ?k (pl_ctrl plan)")
    case True
    with Cons.prems show ?thesis by (auto simp: io_fail_def Let_def)
  next
    case False
    obtain r1 t1 where t1: "planCopy i tg ?c ?ex [] s = (r1, t1)" by fastforce
    note law = planCopy_law [OF Cons.prems(1) _ iv t1]
    have fr: "fleet_reads (t_Fleet tg)" using Cons.prems(2) by simp
    show ?thesis
    proof (cases r1)
      case (Inl e)
      then have "r = Inl e" "t = t1" using Cons.prems(3) False t1 by (simp_all add: io_run Let_def)
      with law [OF fr] show ?thesis by simp
    next
      case (Inr cp)
      obtain r2 t2 where t2: "plan_targets i plan p existing inCall ts t1 = (r2, t2)" by fastforce
      have s1: "same s t1" using law [OF fr] by blast
      have ih: "same t1 t2 \<and> (\<forall>cps. r2 = Inr cps \<longrightarrow> list_all2 (copy_planned (labs s) existing plan (pa_origin p) (pa_total p)) ts cps)"
        using Cons.IH [OF _ _ t2] s1 Cons.prems(2) by simp
      let ?cp = "cp\<lparr>cp_link := (cp_link cp)\<lparr>lc_Origin := pa_origin p, lc_FleetTotal := pa_total p\<rparr>\<rparr>"
      have "copy_planned (labs s) existing plan (pa_origin p) (pa_total p) tg ?cp"
        using law [OF fr] Inr assms(3) base iv
          candidates_before [of _ "labs s ?k" ?ex "d_Base (pl_ctrl plan)" "Start iv" "IntervalEnd iv"]
        by (simp add: copy_planned_def Let_def plan_ok_def zero_lifecycle_def)
      with ih s1 Cons.prems(3) False t1 Inr t2 show ?thesis
        by (cases r2) (auto simp: io_run io_return_def Let_def)
    qed
  qed
qed


lemma planAcross_law:
  assumes "inv s" and "\<forall>p \<in> set prepared. \<forall>tg \<in> set (pa_targets p). fleet_reads (t_Fleet tg)"
    and "\<forall>plan \<in> set plans. d_Interval (pl_ctrl plan) \<noteq> None"
    and "planAcross i prepared existing inCall plans s = ((out, refused), t)"
  shows "same s t \<and> (refused = [] \<longrightarrow> list_all2 (item_planned (labs s) existing prepared) plans out)"
  using assms(1,3,4)
proof (induction plans arbitrary: inCall s out refused)
  case (Cons plan plans)
  obtain iv where iv: "d_Interval (pl_ctrl plan) = Some iv" using Cons.prems(2) by auto
  show ?case
  proof (cases "find (\<lambda>p. pa_item p = pl_item plan) prepared")
    case None
    then obtain out' where "planAcross i prepared existing inCall plans s = ((out', refused), t)" "out = plan # out'"
      using Cons.prems(3) by (auto split: prod.splits)
    with Cons.IH [OF Cons.prems(1)] Cons.prems(2) None show ?thesis by (simp add: item_planned_def)
  next
    case (Some p)
    then have "p \<in> set prepared" by (metis (mono_tags) find_Some_iff nth_mem)
    then have fr: "\<forall>tg \<in> set (pa_targets p). fleet_reads (t_Fleet tg)" using assms(2) by blast
    obtain r1 t1 where t1: "plan_targets i plan p existing inCall (pa_targets p) s = (r1, t1)" by fastforce
    note law = plan_targets_law [OF Cons.prems(1) fr iv t1]
    show ?thesis
    proof (cases r1)
      case (Inl e)
      then obtain out' rf' where "planAcross i prepared existing inCall plans t1 = ((out', rf'), t)" "refused \<noteq> []"
        using Cons.prems(3) Some t1 by (auto simp: planItemCopies_def io_run split: prod.splits)
      with Cons.IH [of t1] law Cons.prems(2) show ?thesis by auto
    next
      case (Inr cps)
      then obtain ic out' where rest: "planAcross i prepared existing ic plans t1 = ((out', refused), t)"
        and out: "out = plan\<lparr>pl_copies := cps\<rparr> # out'"
        using Cons.prems(3) Some t1 by (auto simp: planItemCopies_def io_run io_return_def split: prod.splits)
      have "item_planned (labs s) existing prepared plan (plan\<lparr>pl_copies := cps\<rparr>)"
        using law Inr Some by (simp add: item_planned_def)
      with Cons.IH [OF _ _ rest] law Cons.prems(2) out show ?thesis by simp
    qed
  qed
qed simp

lemma prepareAcross_law:
  "prepareAcross i now n its = (ps, refused) \<Longrightarrow>
    (\<forall>p \<in> set ps. \<exists>it \<in> set its. \<exists>k. prepareItem i now k it = Inr p) \<and>
    (refused = [] \<longrightarrow> length ps = length its \<and> (\<forall>k < length its. prepareItem i now (n + k) (its ! k) = Inr (ps ! k)))"
proof (induction its arbitrary: n ps refused)
  case (Cons it its)
  obtain qs rf where q: "prepareAcross i now (Suc n) its = (qs, rf)" by fastforce
  note ih = Cons.IH [OF q]
  show ?case
  proof (cases "prepareItem i now n it")
    case (Inl e)
    with Cons.prems q ih show ?thesis by auto
  next
    case (Inr p)
    with Cons.prems q have "ps = p # qs" "refused = rf" by auto
    with ih Inr show ?thesis by (auto simp: nth_Cons split: nat.splits)
  qed
qed simp

lemma check_targets_bounded: "check_targets prev ts = None \<Longrightarrow> tg \<in> set ts \<Longrightarrow> bounded_fleet (t_Fleet tg)"
  by (induction prev ts rule: check_targets.induct) (auto split: if_splits)

lemma prepareItem_simps:
  "prepareItem i now n it = Inr p \<Longrightarrow>
    pa_item p = n \<and> pa_record p = a_Record it \<and> pa_targets p = sort_key (\<lambda>t. Key (t_Scope t)) (a_Targets it) \<and>
    r_DurationSeconds (pa_req p) = r_DurationSeconds (a_Req it) \<and> r_Start (pa_req p) = r_Start (a_Req it) \<and>
    StoredOrigin (r_Origin (a_Req it)) = Inr (pa_origin p) \<and> pa_total p = a_FleetTotal it \<and>
    (\<forall>tg \<in> set (a_Targets it). bounded_fleet (t_Fleet tg))"
  by (auto simp: prepareItem_def sortTargets_def Let_def split: if_splits sum.splits option.splits
      intro: check_targets_bounded)

lemma usable_items_law:
  "usable_items errs ps = (us, refused) \<Longrightarrow>
    set us \<subseteq> set ps \<and> (refused = [] \<longrightarrow> us = ps) \<and> (\<forall>p \<in> set us. firstScopeErr (pa_targets p) errs = None)"
  by (induction ps arbitrary: us refused) (auto split: prod.splits option.splits)


section \<open>The call\<close>

lemma firstScopeErr_None: "firstScopeErr ts errs = None \<Longrightarrow> tg \<in> set ts \<Longrightarrow> map_of errs (Key (t_Scope tg)) = None"
  by (induction ts) (auto split: option.splits)

lemma across_planned_law:
  assumes inv: "inv s" and fr: "\<forall>p \<in> set prepared. \<forall>tg \<in> set (pa_targets p). fleet_reads (t_Fleet tg)"
    and run: "across_planned i ctx now n check prepared refused existing errs s = (r, t)"
  shows "same s t \<and> (\<forall>out. r = Inr out \<longrightarrow> refused = [] \<and>
    (\<exists>plans. list_all2 resolved prepared plans \<and> list_all2 (item_planned (labs s) existing prepared) plans out) \<and>
    (\<forall>p \<in> set prepared. firstScopeErr (pa_targets p) errs = None))"
proof -
  obtain us rs1 where us: "usable_items errs prepared = (us, rs1)" by fastforce
  obtain plans rs2 t1 where t1: "resolveAcross i (nextCreationTime now (map snd existing)) now 0 us s = ((plans, rs2), t1)"
    by (metis prod.collapse)
  obtain out rs3 t2 where t2: "planAcross i us existing (\<lambda>_. []) plans t1 = ((out, rs3), t2)" by (metis prod.collapse)
  note u = usable_items_law [OF us] and rv = resolveAcross_law [OF inv t1]
  have "\<forall>p \<in> set us. \<forall>tg \<in> set (pa_targets p). fleet_reads (t_Fleet tg)" using fr u by blast
  moreover have "\<forall>plan \<in> set plans. d_Interval (pl_ctrl plan) \<noteq> None" using rv by (fastforce simp: resolved_def)
  ultimately have pl: "same t1 t2 \<and> (rs3 = [] \<longrightarrow> list_all2 (item_planned (labs t1) existing us) plans out)"
    using planAcross_law [OF _ _ _ t2] rv by blast
  define chk all where "chk = (case check of None \<Rightarrow> None | Some c \<Rightarrow> c (controls_by_item n plans))"
    and "all = with_errors (with_errors (refused @ rs1) rs2) rs3"
  have rt: "(r, t) = (case refusal_of_plan chk all of Some e \<Rightarrow> (Inl e, t2)
      | None \<Rightarrow> (case ctx t2 of Some e \<Rightarrow> (Inl e, t2) | None \<Rightarrow> (Inr out, t2)))"
    using run us t1 t2 by (simp add: across_planned_def chk_def all_def Let_def)
  have "all = [] \<longleftrightarrow> refused = [] \<and> rs1 = [] \<and> rs2 = [] \<and> rs3 = []"
    by (simp add: all_def with_errors_def sort_key_Nil_iff)
  moreover have "all = []" if "refusal_of_plan chk all = None"
    using that by (auto simp: refusal_of_plan_def split: option.splits if_splits)
  ultimately show ?thesis using rt rv pl u
    by (auto split: option.splits)
qed

lemma planned_items:
  assumes prep: "length prepared = length items" "\<forall>k < length items. prepareItem i now k (items ! k) = Inr (prepared ! k)"
    and res: "list_all2 resolved prepared plans" and pl: "list_all2 (item_planned L existing prepared) plans out"
  shows "list_all2 (item_issued L existing) items out"
proof (rule list_all2_all_nthI)
  show len: "length items = length out" using prep(1) list_all2_lengthD [OF res] list_all2_lengthD [OF pl] by simp
  fix k assume k: "k < length items"
  then have n: "k < length prepared" "k < length plans" using prep(1) list_all2_lengthD [OF res] by auto
  note it = prepareItem_simps [OF prep(2) [rule_format, OF k]]
  have item: "pa_item (prepared ! j) = j" if "j < length prepared" for j
    using that prepareItem_simps [OF prep(2) [rule_format, of j]] prep(1) by simp
  have r: "resolved (prepared ! k) (plans ! k)" using res n(1) by (rule list_all2_nthD)
  have q: "item_planned L existing prepared (plans ! k) (out ! k)" using pl n(2) by (rule list_all2_nthD)
  have "find (\<lambda>p. pa_item p = pl_item (plans ! k)) prepared = Some (prepared ! k)"
    unfolding find_Some_iff using n item r by (intro exI [of _ k]) (auto simp: resolved_def)
  with q have c: "out ! k = (plans ! k)\<lparr>pl_copies := pl_copies (out ! k)\<rparr>"
    and l: "list_all2 (copy_planned L existing (plans ! k) (pa_origin (prepared ! k)) (pa_total (prepared ! k))) (pa_targets (prepared ! k)) (pl_copies (out ! k))"
    by (simp_all add: item_planned_def)
  have eqs: "pl_ctrl (out ! k) = pl_ctrl (plans ! k)" "pl_id (out ! k) = pl_id (plans ! k)" "pl_record (out ! k) = pl_record (plans ! k)"
    by (subst c, simp)+
  have "copy_planned L existing (out ! k) (pa_origin (prepared ! k)) (pa_total (prepared ! k)) = copy_planned L existing (plans ! k) (pa_origin (prepared ! k)) (pa_total (prepared ! k))"
    by (simp add: copy_planned_def eqs fun_eq_iff)
  with l it have "list_all2 (copy_planned L existing (out ! k) (pa_origin (prepared ! k)) (a_FleetTotal (items ! k)))
      (sort_key (\<lambda>t. Key (t_Scope t)) (a_Targets (items ! k))) (pl_copies (out ! k))" by simp
  moreover have "\<exists>iv. d_Interval (pl_ctrl (out ! k)) = Some iv \<and> Duration iv = r_DurationSeconds (a_Req (items ! k)) \<and>
      (\<forall>st. r_Start (a_Req (items ! k)) = Some st \<longrightarrow> Start iv = st)" "pl_record (out ! k) = a_Record (items ! k)"
    using r it eqs by (auto simp: resolved_def)
  ultimately show "item_issued L existing (items ! k) (out ! k)" using it unfolding item_issued_def by blast
qed


lemma IssueAcrossAll_law:
  assumes inv: "inv s"
    and items: "\<forall>it \<in> set items. record_ok (a_Record it) \<and> (\<forall>tg \<in> set (a_Targets it). fleet_reads (t_Fleet tg))"
    and run: "IssueAcrossAll i ctx now items check s = (r, t)"
  shows "case r of
      Inl e \<Rightarrow> inv t \<and> legal_rest (cabs s) (labs s) (cabs t) (labs t) \<and> (\<not> may_remain e \<longrightarrow> same s t)
    | Inr rs \<Rightarrow> \<exists>existing planned. inv t \<and> rs = map item_result planned \<and> lists_ok s existing \<and>
        (\<forall>it \<in> set items. \<forall>tg \<in> set (a_Targets it). map_of existing (Key (t_Scope tg)) \<noteq> None) \<and>
        list_all2 (item_issued (labs s) existing) items planned \<and>
        cabs t = all_controls (planned_copies planned) (cabs s) \<and>
        labs t = all_lifecycles (planned_copies planned) (labs s)"
proof (cases "items = []")
  case True
  with run inv show ?thesis by (auto simp: IssueAcrossAll_def acrossAll_def io_fail_def)
next
  case False
  obtain prepared refused where prep: "prepareAcross i now 0 items = (prepared, refused)" by fastforce
  note p = prepareAcross_law [OF prep]
  have fr: "\<forall>q \<in> set prepared. \<forall>tg \<in> set (pa_targets q). fleet_reads (t_Fleet tg)"
    using p items prepareItem_simps by (metis set_sort)
  obtain r1 t1 where t1: "readScopes i prepared s = (r1, t1)" by fastforce
  have rd: "t1 = s \<and> (\<forall>existing errs. r1 = Inr (existing, errs) \<longrightarrow> lists_ok s existing \<and>
    (\<forall>q \<in> set prepared. \<forall>tg \<in> set (pa_targets q).
       map_of existing (Key (t_Scope tg)) \<noteq> None \<or> map_of errs (Key (t_Scope tg)) \<noteq> None))"
    using read_targets_law [OF inv _ t1 [unfolded readScopes_def]] by (auto simp: lists_ok_def)
  show ?thesis
  proof (cases r1)
    case (Inl e)
    with run False prep t1 rd inv show ?thesis by (auto simp: IssueAcrossAll_def acrossAll_def io_run)
  next
    case (Inr ee)
    obtain existing errs where ee: "ee = (existing, errs)" by (cases ee) auto
    obtain r2 t2 where t2: "across_planned i ctx now (length items) check prepared refused existing errs s = (r2, t2)" by fastforce
    note pl = across_planned_law [OF inv fr t2]
    have rt: "(r, t) = (case r2 of Inl e \<Rightarrow> (Inl e, t2) | Inr out \<Rightarrow> writeAcross i out t2)"
      using run False prep t1 rd Inr ee t2 by (auto simp: IssueAcrossAll_def acrossAll_def io_run io_bind_def split: sum.splits)
    show ?thesis
    proof (cases r2)
      case (Inl e)
      with rt pl show ?thesis by auto
    next
      case (Inr out)
      with pl obtain plans where ref: "refused = []" and s2: "same s t2" and res: "list_all2 resolved prepared plans"
        and planned: "list_all2 (item_planned (labs s) existing prepared) plans out"
        and noerr: "\<forall>q \<in> set prepared. firstScopeErr (pa_targets q) errs = None" by blast
      have prep': "length prepared = length items" "\<forall>k < length items. prepareItem i now k (items ! k) = Inr (prepared ! k)"
        using p ref by auto
      note iss = planned_items [OF prep' res planned]
      have w: "write_items i (length out) [] out t2 = (r, t)" using rt Inr by (simp add: writeAcross_def)
      have ok: "\<forall>q \<in> set out. record_ok (pl_record q) \<and> (\<forall>cp \<in> set (pl_copies q). plan_ok (labs t2) cp)"
      proof
        fix q assume "q \<in> set out"
        then obtain it where "it \<in> set items" "item_issued (labs s) existing it q"
          using iss by (metis in_set_conv_nth list_all2_conv_all_nth)
        then show "record_ok (pl_record q) \<and> (\<forall>cp \<in> set (pl_copies q). plan_ok (labs t2) cp)"
          using items s2 by (auto simp: item_issued_def copy_planned_def Let_def list_all2_conv_all_nth in_set_conv_nth)
      qed
      have read: "\<forall>it \<in> set items. \<forall>tg \<in> set (a_Targets it). map_of existing (Key (t_Scope tg)) \<noteq> None"
      proof (intro ballI)
        fix it tg assume "it \<in> set items" "tg \<in> set (a_Targets it)"
        then obtain k where k: "k < length items" "items ! k = it" by (auto simp: in_set_conv_nth)
        then have "prepared ! k \<in> set prepared" "tg \<in> set (pa_targets (prepared ! k))"
          using prep' prepareItem_simps [OF prep'(2) [rule_format, OF k(1)]] \<open>tg \<in> set (a_Targets it)\<close> by auto
        with rd \<open>r1 = Inr ee\<close> ee noerr firstScopeErr_None show "map_of existing (Key (t_Scope tg)) \<noteq> None" by metis
      qed
      have "copies t2 (set (concat (map item_copies []))) {} t2" using s2 by (simp add: copies_def copies_inv_start)
      from write_items_law [OF this _ _ ok w] s2 iss read rd \<open>r1 = Inr ee\<close> ee show ?thesis
        by (cases r) (auto simp: copies_def dest: copies_inv_legal copies_inv_done)
    qed
  qed
qed

end

section \<open>When nothing fails\<close>

text \<open>Copies that may all be stored: their keys are free and distinct, and an mRID recurs only under the same id.\<close>

definition storable :: "'s copy list \<Rightarrow> DERControl map2 \<Rightarrow> LifecycleRecord map2 \<Rightarrow> bool" where
  "storable ws C L \<longleftrightarrow>
     distinct (map (\<lambda>(p, x). (plan_key p, x)) ws) \<and>
     (\<forall>(p, x) \<in> set ws. L (plan_key p) x = None \<and> C (plan_key p) x = None \<and>
        mrid_free C (d_MRID (cp_ctrl p)) (plan_key p) x \<and>
        (\<forall>(q, y) \<in> set ws. d_MRID (cp_ctrl q) = d_MRID (cp_ctrl p) \<longrightarrow> y = x))"

lemma storable_step:
  assumes st: "storable ((p, x) # ws) C L"
    and ok: "\<forall>c \<in> set (cp_candidates p). L (plan_key p) (sc_id c) \<noteq> None"
  shows "storable ws (copied_control p x C) (copied_lifecycle p x L)"
proof -
  have "copied_lifecycle p x L (plan_key q) y = None" if q: "(q, y) \<in> set ws" for q y
  proof -
    have "(plan_key q, y) \<noteq> (plan_key p, x)" and none: "L (plan_key q) y = None"
      using st q by (auto simp: storable_def image_iff)
    moreover have "\<not> (plan_key q = plan_key p \<and> y \<in> cand_ids p)" using ok none by auto
    ultimately show ?thesis by (auto simp: copied_lifecycle_def mark_all_other upd2_apply)
  qed
  moreover have "copied_control p x C (plan_key q) y = None \<and>
      mrid_free (copied_control p x C) (d_MRID (cp_ctrl q)) (plan_key q) y" if q: "(q, y) \<in> set ws" for q y
  proof -
    have "(plan_key q, y) \<noteq> (plan_key p, x)" "C (plan_key q) y = None" "mrid_free C (d_MRID (cp_ctrl q)) (plan_key q) y"
      "d_MRID (cp_ctrl p) = d_MRID (cp_ctrl q) \<Longrightarrow> x = y"
      using st q by (auto simp: storable_def image_iff)
    then show ?thesis by (auto simp: copied_control_def upd2_apply mrid_free_def split: if_splits)
  qed
  ultimately show ?thesis using st by (auto simp: storable_def)
qed

context writable_stores
begin

lemma writeCopies_total:
  assumes "copies s0 W Q s" and "healthy s" and "\<forall>p \<in> set ps. plan_ok (labs s0) p"
    and "storable (map (\<lambda>p. (p, x)) ps @ ws) (cabs s) (labs s)"
  shows "\<exists>vs t. writeCopies i ps x s = ((vs, None), t) \<and> healthy t \<and> storable ws (cabs t) (labs t)"
  using assms
proof (induction ps arbitrary: s W)
  case (Cons p ps)
  have s: "inv s" "copies_inv (cabs s0) (labs s0) W Q (cabs s) (labs s)" using Cons.prems(1) by (auto simp: copies_def)
  have ok: "plan_ok (labs s0) p" using Cons.prems(3) by simp
  then have p: "d_Interval (cp_ctrl p) \<noteq> None" "\<forall>c \<in> set (cp_candidates p). labs s (plan_key p) (sc_id c) \<noteq> None"
    using copies_inv_candidates_present [OF s(2) ok] by (auto simp: plan_ok_def)
  have "labs s (plan_key p) x = None" "cabs s (plan_key p) x = None"
    "mrid_free (cabs s) (d_MRID (cp_ctrl p)) (plan_key p) x" using Cons.prems(4) by (auto simp: storable_def)
  from write_copy_total [OF s(1) Cons.prems(2) p this]
  obtain w t where t: "write_copy i p x s = (Inr w, t)" "healthy t" by blast
  have t': "copies s0 (insert (p, x) W) Q t" "cabs t = copied_control p x (cabs s)" "labs t = copied_lifecycle p x (labs s)"
    using write_copy_copies [OF Cons.prems(1) ok t(1)] by auto
  have "storable (map (\<lambda>p. (p, x)) ps @ ws) (cabs t) (labs t)"
    using storable_step [where L = "labs s", OF _ p(2)] Cons.prems(4) t' by simp
  from Cons.IH [OF t'(1) t(2) _ this] Cons.prems(3) obtain vs u where
    "writeCopies i ps x t = ((vs, None), u)" "healthy u" "storable ws (cabs u) (labs u)" by auto
  with t(1) show ?case by auto
qed auto

lemma write_items_total:
  assumes "copies s0 W {} s" and "healthy s"
    and "\<forall>p \<in> set ps. record_ok (pl_record p) \<and> (\<forall>cp \<in> set (pl_copies p). plan_ok (labs s0) cp)"
    and "\<And>p x c u. p \<in> set ps \<Longrightarrow> inv u \<Longrightarrow> healthy u \<Longrightarrow> \<exists>undo v. pl_record p x c u = (Inr undo, v) \<and> healthy v"
    and "storable (planned_copies ps) (cabs s) (labs s)"
  shows "\<exists>rs t. write_items i n finished ps s = (Inr rs, t) \<and> healthy t"
  using assms
proof (induction ps arbitrary: finished s W)
  case (Cons p ps)
  let ?x = "pl_id p"
  have inv_s: "inv s" using Cons.prems(1) by (simp add: copies_def)
  obtain undo t where t: "pl_record p ?x (pl_ctrl p) s = (Inr undo, t)" "healthy t"
    using Cons.prems(2,4) inv_s by fastforce
  have rec: "inv t \<and> cabs t = cabs s \<and> labs t = labs s" using Cons.prems(3) t(1) inv_s by (fastforce simp: record_ok_def)
  have c: "copies s0 W {} t" using copies_frame [OF Cons.prems(1)] rec by blast
  have pc: "planned_copies (p # ps) = map (\<lambda>cp. (cp, ?x)) (pl_copies p) @ planned_copies ps" by (simp add: planned_copies_def)
  have plans: "\<forall>cp \<in> set (pl_copies p). plan_ok (labs s0) cp" using Cons.prems(3) by simp
  have "storable (map (\<lambda>cp. (cp, ?x)) (pl_copies p) @ planned_copies ps) (cabs t) (labs t)"
    using Cons.prems(5) rec pc by simp
  from writeCopies_total [OF c t(2) plans this]
  obtain vs u where u: "writeCopies i (pl_copies p) ?x t = ((vs, None), u)" "healthy u"
    "storable (planned_copies ps) (cabs u) (labs u)" by blast
  have "copies s0 (W \<union> copy_of ` set vs) {} u" using writeCopies_law [OF c plans u(1)] by simp
  from Cons.IH [OF this u(2) _ _ u(3), of "finished @ [\<lparr>wi_item = pl_item p, wi_written = vs,
      wi_record = \<lparr>ru_id = ?x, ru_undo = undo\<rparr>\<rparr>]"] Cons.prems(3,4)
  obtain rs v where "write_items i n (finished @ [\<lparr>wi_item = pl_item p, wi_written = vs,
      wi_record = \<lparr>ru_id = ?x, ru_undo = undo\<rparr>\<rparr>]) ps u = (Inr rs, v)" "healthy v" by auto
  with t(1) u(1) show ?case by (simp add: Let_def)
qed simp

end

end
