(* ===== verification/Replication.thy ===== *)
theory Replication
  imports AcrossCalls
begin

text \<open>
  \<open>Replicate\<close> of \<open>across.go\<close>. Each replica is planned from the stores as the ones before it
  left them, so the copies written form a stack: removing them newest first leads back through
  the states they were planned in.
\<close>

text \<open>A later state that keeps every control and is legal beside the earlier one.\<close>

definition grown ::
    "DERControl map2 \<Rightarrow> LifecycleRecord map2 \<Rightarrow> DERControl map2 \<Rightarrow> LifecycleRecord map2 \<Rightarrow> bool" where
  "grown C L C' L' \<longleftrightarrow> legal_rest C L C' L' \<and> (\<forall>k x c. C k x = Some c \<longrightarrow> C' k x = Some c)"

lemma grown_refl [simp]: "grown C L C L"
  by (simp add: grown_def)

lemma grown_trans:
  assumes "grown C L C1 L1" and "grown C1 L1 C2 L2"
  shows "grown C L C2 L2"
proof -
  have "\<exists>y c. C2 k y = Some c \<and> d_MRID c = lc_SupersededBy lc"
    if r: "L2 k x = Some lc" "L k x = Some old" "lc \<noteq> old" for k x lc old
  proof -
    have "L1 k x \<noteq> None" using assms(1) r(2) unfolding grown_def legal_rest_def by blast
    then obtain l where l: "L1 k x = Some l" by blast
    show ?thesis
    proof (cases "l = lc")
      case True
      with l r assms(1) obtain y c where "C1 k y = Some c" "d_MRID c = lc_SupersededBy lc"
        unfolding grown_def legal_rest_def by blast
      with assms(2) show ?thesis unfolding grown_def by blast
    next
      case False
      with l r assms(2) show ?thesis unfolding grown_def legal_rest_def by blast
    qed
  qed
  with assms show ?thesis unfolding grown_def legal_rest_def by meson
qed

lemma copies_inv_grown:
  assumes "copies_inv C0 L0 W Q C L"
  shows "grown C0 L0 C L"
proof -
  have "C k x = Some c" if "C0 k x = Some c" for k x c
  proof (cases "covered W k x")
    case True
    with that copies_inv_dest(1) [OF assms] show ?thesis by (auto simp: covered_def)
  qed (use that copies_inv_dest(4) [OF assms] in simp)
  with copies_inv_legal [OF assms] show ?thesis by (simp add: grown_def)
qed

section \<open>What a replica leaves in its scope\<close>

text \<open>
  The newer controls of the scope that supersede a control: same function set, overlapping
  interval, and a lifecycle record that is not cancelled.
\<close>

definition beats :: "(string \<Rightarrow> LifecycleRecord option) \<Rightarrow> DERControl \<Rightarrow> DERControl \<Rightarrow> bool" where
  "beats L c d \<longleftrightarrow>
     replacedBy d (functionSetKey (d_Base c)) (Start (the (d_Interval c))) (IntervalEnd (the (d_Interval c))) \<and>
     (\<exists>y lc. ControlID (d_Href d) = Some y \<and> L y = Some lc \<and> \<not> cancelled lc)"

definition rivals :: "(string \<Rightarrow> LifecycleRecord option) \<Rightarrow> DERControl set \<Rightarrow> DERControl \<Rightarrow> DERControl set" where
  "rivals L cs c = {d \<in> cs. d_CreationTime c < d_CreationTime d \<and> beats L c d}"

text \<open>A record marked by the rival that starts first, or by none when there is none.\<close>

definition first_mark :: "DERControl set \<Rightarrow> LifecycleRecord \<Rightarrow> LifecycleRecord \<Rightarrow> bool" where
  "first_mark R base lc \<longleftrightarrow>
     R = {} \<and> lc = base \<or>
     (\<exists>d \<in> R. (\<forall>e \<in> R. Start (the (d_Interval d)) \<le> Start (the (d_Interval e))) \<and>
        lc = base\<lparr>lc_SupersededAt := Some (Start (the (d_Interval d))), lc_SupersededBy := d_MRID d\<rparr>)"

lemma first_mark_step:
  assumes "first_mark R base lc" and "lc_SupersededAt base = None"
  shows "first_mark (if b then insert d R else R) base
    (if b \<and> (case lc_SupersededAt lc of None \<Rightarrow> True | Some t \<Rightarrow> Start (the (d_Interval d)) < t)
     then lc\<lparr>lc_SupersededAt := Some (Start (the (d_Interval d))), lc_SupersededBy := d_MRID d\<rparr> else lc)"
proof (cases "R = {}")
  case True
  then show ?thesis using assms by (auto simp: first_mark_def)
next
  case False
  with assms(1) obtain c where c: "c \<in> R" "\<forall>e \<in> R. Start (the (d_Interval c)) \<le> Start (the (d_Interval e))"
    "lc = base\<lparr>lc_SupersededAt := Some (Start (the (d_Interval c))), lc_SupersededBy := d_MRID c\<rparr>"
    by (auto simp: first_mark_def)
  show ?thesis
  proof (cases "b \<and> Start (the (d_Interval d)) < Start (the (d_Interval c))")
    case True
    then have "\<forall>e \<in> insert d R. Start (the (d_Interval d)) \<le> Start (the (d_Interval e))" using c(2) by auto
    with True c(3) show ?thesis by (auto simp: first_mark_def intro!: bexI [of _ d])
  next
    case False
    then have "\<forall>e \<in> (if b then insert d R else R). Start (the (d_Interval c)) \<le> Start (the (d_Interval e))"
      using c(2) by auto
    with False c(1,3) show ?thesis unfolding first_mark_def by (intro disjI2 bexI [of _ c]) auto
  qed
qed

definition replica_base :: "'s Replica \<Rightarrow> LifecycleRecord" where
  "replica_base r = zero_lifecycle\<lparr>lc_FleetKey := f_Key (t_Fleet (rp_Target r)), lc_Reach := f_Reach (t_Fleet (rp_Target r)),
     lc_Origin := rp_Origin r, lc_FleetTotal := rp_FleetTotal r\<rparr>"

definition replica_control :: "'s Replica \<Rightarrow> DERControl" where
  "replica_control r = copyOf (rp_Control r) (t_Scope (rp_Target r)) (rp_ID r)"

abbreviation replica_key :: "'s Replica \<Rightarrow> string" where
  "replica_key r \<equiv> Key (t_Scope (rp_Target r))"

definition replica_marks ::
    "(string \<Rightarrow> LifecycleRecord option) \<Rightarrow> DERControl list \<Rightarrow> DERControl \<Rightarrow> supersedeCandidate list" where
  "replica_marks L existing c =
     candidates L (filter (\<lambda>d. d_CreationTime d < d_CreationTime c) existing) (d_Base c)
       (Start (the (d_Interval c))) (IntervalEnd (the (d_Interval c)))"

text \<open>
  One replica written, with \<open>existing\<close> the controls its scope held: the copy under the replica's
  id, its record with the replica's link and the mark of the first rival, and the mark of the
  copy on every older control it supersedes. Nothing else changes.
\<close>

definition replica_stored ::
    "'s Replica \<Rightarrow> DERControl list \<Rightarrow> IssueResult \<Rightarrow> DERControl map2 \<Rightarrow> LifecycleRecord map2 \<Rightarrow>
     DERControl map2 \<Rightarrow> LifecycleRecord map2 \<Rightarrow> bool" where
  "replica_stored r existing res C L C' L' \<longleftrightarrow>
     (let k = replica_key r; x = rp_ID r; c = replica_control r
      in C k x = None \<and> L k x = None \<and> C' = upd2 C k x (Some c) \<and>
         (\<exists>link. first_mark (rivals (L k) (set existing) c) (replica_base r) link \<and>
            L' = mark_all k (Start (the (d_Interval c))) (d_MRID c) (replica_marks (L k) existing c)
                   (upd2 L k x (Some link))) \<and>
         res = \<lparr>res_Scope = t_Scope (rp_Target r), res_ID = x, res_Href = d_Href c, res_Control = c,
                res_Supersedes = map sc_mrid (replica_marks (L k) existing c)\<rparr>)"

text \<open>All replicas in order, each on the stores the earlier ones left; one that is there is skipped.\<close>

fun replicas_stored ::
    "'s Replica list \<Rightarrow> IssueResult list \<Rightarrow> DERControl map2 \<Rightarrow> LifecycleRecord map2 \<Rightarrow>
     DERControl map2 \<Rightarrow> LifecycleRecord map2 \<Rightarrow> bool" where
  "replicas_stored [] out C L C' L' \<longleftrightarrow> out = [] \<and> C' = C \<and> L' = L"
| "replicas_stored (r # rs) out C L C' L' \<longleftrightarrow>
     (if C (replica_key r) (rp_ID r) \<noteq> None then replicas_stored rs out C L C' L'
      else \<exists>existing res out' C1 L1. out = res # out' \<and>
        (card (dom (C (replica_key r))) < 2 ^ 32 \<longrightarrow> set existing = ran (C (replica_key r))) \<and>
        replica_stored r existing res C L C1 L1 \<and> replicas_stored rs out' C1 L1 C' L')"

lemma replicas_stored_keeps:
  "replicas_stored rs out C L C' L' \<Longrightarrow> C k x = Some c \<Longrightarrow> C' k x = Some c"
proof (induction rs arbitrary: out C L)
  case (Cons r rs)
  show ?case
  proof (cases "C (replica_key r) (rp_ID r) = None")
    case True
    with Cons.prems(1) obtain existing res out' C1 L1 where
      st: "replica_stored r existing res C L C1 L1" "replicas_stored rs out' C1 L1 C' L'" by auto
    then have "C1 k x = Some c" using Cons.prems(2) True by (auto simp: replica_stored_def Let_def upd2_apply)
    then show ?thesis by (rule Cons.IH [OF st(2)])
  qed (use Cons in auto)
qed simp

lemma replicas_stored_all:
  "replicas_stored rs out C L C' L' \<Longrightarrow> r \<in> set rs \<Longrightarrow> C' (replica_key r) (rp_ID r) \<noteq> None"
proof (induction rs arbitrary: out C L)
  case (Cons q rs)
  show ?case
  proof (cases "C (replica_key q) (rp_ID q) = None")
    case True
    with Cons.prems(1) obtain existing res out' C1 L1 where
      st: "replica_stored q existing res C L C1 L1" "replicas_stored rs out' C1 L1 C' L'" by auto
    then have "C1 (replica_key q) (rp_ID q) \<noteq> None" by (auto simp: replica_stored_def Let_def upd2_apply)
    then show ?thesis using replicas_stored_keeps [OF st(2)] Cons.IH [OF st(2)] Cons.prems(2) by (cases "r = q") auto
  next
    case False
    with Cons show ?thesis using replicas_stored_keeps [of rs out C L C' L'] by (cases "r = q") auto
  qed
qed simp

context issuer_stores
begin

abbreviation extends :: "'s \<Rightarrow> 's \<Rightarrow> bool" where
  "extends s t \<equiv> inv t \<and> oabs t = oabs s \<and> grown (cabs s) (labs s) (cabs t) (labs t)"

lemma extends_trans: "extends s t \<Longrightarrow> extends t u \<Longrightarrow> extends s u"
  using grown_trans by auto

text \<open>The copies written since \<open>s0\<close>, newest first.\<close>

fun stacked :: "'s \<Rightarrow> 's writtenCopy list \<Rightarrow> 's \<Rightarrow> bool" where
  "stacked s0 [] s \<longleftrightarrow> same s0 s"
| "stacked s0 (w # ws) s \<longleftrightarrow> (\<exists>u. stacked s0 ws u \<and> copies u {copy_of w} {} s \<and> oabs s = oabs u)"

lemma stacked_extends: "stacked s0 ws s \<Longrightarrow> extends s0 s"
proof (induction ws arbitrary: s)
  case (Cons w ws)
  obtain u where "stacked s0 ws u" "copies u {copy_of w} {} s" "oabs s = oabs u" using Cons.prems by auto
  moreover from this have "extends u s" by (auto simp: copies_def intro: copies_inv_grown)
  ultimately show ?case using extends_trans [OF Cons.IH] by blast
qed simp

lemma stacked_same: "stacked s0 ws s \<Longrightarrow> same s t \<Longrightarrow> stacked s0 ws t"
  by (cases ws) (auto simp: copies_def)

lemma remove_stacked:
  assumes "stacked s0 ws s" and "remove_copies i ws cause s = (r, t)"
  shows "case r of None \<Rightarrow> same s0 t | Some e \<Rightarrow> is_UndoError e \<and> extends s0 t"
  using assms
proof (induction ws arbitrary: s)
  case (Cons w ws)
  obtain u where u: "stacked s0 ws u" "copies u {copy_of w} {} s" "oabs s = oabs u" using Cons.prems(1) by auto
  obtain r1 t1 where t1: "removeCopy i w cause s = (r1, t1)" by fastforce
  note law = removeCopy_law [OF u(2) _ t1]
  show ?case
  proof (cases r1)
    case None
    with law have "copies u {} {} t1" "oabs t1 = oabs u" using u(3) by auto
    then have "same u t1" using copies_inv_done by (auto simp: copies_def)
    with Cons.IH [OF stacked_same [OF u(1)]] Cons.prems(2) t1 None show ?thesis by simp
  next
    case (Some e)
    with law u(3) have e: "is_UndoError e" and x: "extends u t1" using copies_inv_grown by (auto simp: copies_def)
    have "extends s0 t1" using extends_trans [OF stacked_extends [OF u(1)] x] .
    with e Cons.prems(2) t1 Some show ?thesis by auto
  qed
qed auto

lemma undoAcross_law:
  assumes st: "stacked s0 (rev ws) s" and run: "undoAcross i ws cause None s = (e, t)"
  shows "extends s0 t \<and> (\<not> as_undo e \<longrightarrow> same s0 t)"
proof (cases "as_undo cause")
  case True
  with run stacked_extends [OF st] show ?thesis by (auto simp: undoAcross_def)
next
  case False
  obtain r u where u: "remove_copies i (rev ws) cause s = (r, u)" by fastforce
  from remove_stacked [OF st u] run False u show ?thesis
    by (cases r) (auto simp: undoAcross_def removeWritten_def is_UndoError_as_undo)
qed

text \<open>The loop over the newer controls keeps the earliest mark so far.\<close>

lemma supersededByNewer_law:
  assumes "inv s" and "lc_SupersededAt base = None"
    and "first_mark {d \<in> set earlier. beats (labs s k) c d} base lc"
  shows "\<exists>lc'. supersededByNewer i k cs c lc s = (Inr lc', s) \<and>
    first_mark {d \<in> set (earlier @ cs). beats (labs s k) c d} base lc'"
  using assms(3)
proof (induction cs arbitrary: lc earlier)
  case Nil
  then show ?case by (simp add: io_simps)
next
  case (Cons d cs)
  let ?st = "Start (the (d_Interval d))"
  define lc1 where "lc1 = (if beats (labs s k) c d \<and> (case lc_SupersededAt lc of None \<Rightarrow> True | Some t \<Rightarrow> ?st < t)
     then lc\<lparr>lc_SupersededAt := Some ?st, lc_SupersededBy := d_MRID d\<rparr> else lc)"
  have step: "supersededByNewer i k (d # cs) c lc s = supersededByNewer i k cs c lc1 s"
    using lcs.get_law [OF assms(1)]
    by (auto simp: io_simps Let_def err_is_def lc1_def beats_def split: option.splits)
  have e: "{e \<in> set (earlier @ [d]). beats (labs s k) c e} =
      (if beats (labs s k) c d then insert d {e \<in> set earlier. beats (labs s k) c e} else {e \<in> set earlier. beats (labs s k) c e})"
    by auto
  have "first_mark {e \<in> set (earlier @ [d]). beats (labs s k) c e} base lc1"
    unfolding e lc1_def by (rule first_mark_step [OF Cons.prems assms(2)])
  from Cons.IH [OF this] show ?case by (simp add: step del: supersededByNewer.simps)
qed

lemma planReplica_law:
  assumes inv: "inv s" and fr: "fleet_reads (t_Fleet (rp_Target r))" and iv: "d_Interval (rp_Control r) = Some iv"
    and run: "planReplica i r s = (res, t)"
  shows "same s t \<and> (res = Inr None \<longrightarrow> cabs s (replica_key r) (rp_ID r) \<noteq> None) \<and>
    (\<forall>p. res = Inr (Some p) \<longrightarrow> cabs s (replica_key r) (rp_ID r) = None \<and> plan_ok (labs s) p \<and>
       (\<exists>existing link. (card (dom (cabs s (replica_key r))) < 2 ^ 32 \<longrightarrow> set existing = ran (cabs s (replica_key r))) \<and>
          first_mark (rivals (labs s (replica_key r)) (set existing) (replica_control r)) (replica_base r) link \<and>
          p = \<lparr>cp_target = rp_Target r, cp_ctrl = replica_control r,
               cp_candidates = replica_marks (labs s (replica_key r)) existing (replica_control r), cp_link = link\<rparr>))"
proof -
  define k where "k = replica_key r"
  obtain r1 t1 where t1: "checkProgram i (t_Scope (rp_Target r)) s = (r1, t1)" by fastforce
  note t1' = checkProgram_reads [OF inv t1]
  show ?thesis
  proof (cases "(\<exists>e. r1 = Inl e) \<or> cabs s k (rp_ID r) \<noteq> None")
    case True
    with run t1 t1' inv show ?thesis
      by (cases r1) (auto simp: planReplica_def io_run io_try_def io_return_def ctl.get_law [OF inv] k_def Let_def)
  next
    case False
    then obtain x where r1: "r1 = Inr x" and none: "cabs s k (rp_ID r) = None" by (cases r1) auto
    obtain l where l: "controls_List i k unbounded_options s = (Inr l, s)"
      and all: "card (dom (cabs s k)) < 2 ^ 32 \<longrightarrow> set (lr_Items l) = ran (cabs s k)" using list_law [OF inv] by blast
    let ?c = "replica_control r"
    let ?newer = "filter (\<lambda>d. d_CreationTime d > d_CreationTime ?c) (lr_Items l)"
    have iv': "d_Interval ?c = Some iv" using iv by (simp add: replica_control_def copyOf_def)
    obtain link where link: "supersededByNewer i k ?newer ?c (replica_base r) s = (Inr link, s)"
      and fm: "first_mark (rivals (labs s k) (set (lr_Items l)) ?c) (replica_base r) link"
      using supersededByNewer_law [OF inv, of "replica_base r" "[]" k ?c "replica_base r" ?newer]
      by (auto simp: first_mark_def [of "{}"] replica_base_def zero_lifecycle_def rivals_def)
    let ?cands = "replica_marks (labs s k) (lr_Items l) ?c"
    obtain r2 t2 where t2: "finishPlan (rp_Target r) ?c [] ?cands link s = (r2, t2)" by fastforce
    have "(res, t) = (map_sum id Some r2, t2)"
      using run t1 t1' r1 none l link iv' t2
      by (cases r2) (simp_all add: planReplica_def io_run io_try_def ctl.get_law [OF inv] k_def [symmetric] Let_def
          computeSupersedes_eq [OF inv] io_return_def replica_control_def [symmetric] replica_base_def [symmetric]
          replica_marks_def)
    with finishPlan_law [OF inv fr t2] none iv' fm all
      candidates_before [of _ "labs s k", folded replica_marks_def]
    show ?thesis by (cases r2) (auto simp: plan_ok_def k_def replica_marks_def dest: candidates_before)
  qed
qed

lemma replica_written:
  assumes "inv s" and "plan_ok (labs s) p" and "write_copy i p (rp_ID r) s = (Inr w, t)"
    and "first_mark (rivals (labs s (replica_key r)) (set existing) (replica_control r)) (replica_base r) link"
    and p: "p = \<lparr>cp_target = rp_Target r, cp_ctrl = replica_control r,
      cp_candidates = replica_marks (labs s (replica_key r)) existing (replica_control r), cp_link = link\<rparr>"
  shows "replica_stored r existing (copy_result (wc_id w) w) (cabs s) (labs s) (cabs t) (labs t)"
proof -
  have "w = \<lparr>wc_plan = p, wc_id = rp_ID r, wc_marked = map sc_mrid (cp_candidates p)\<rparr>"
    "labs s (plan_key p) (rp_ID r) = None" "cabs s (plan_key p) (rp_ID r) = None"
    "cabs t = copied_control p (rp_ID r) (cabs s)" "labs t = copied_lifecycle p (rp_ID r) (labs s)"
    using write_copy_law [OF assms(1-3)] by auto
  with assms(4) show ?thesis
    by (auto simp: replica_stored_def Let_def p copied_control_def copied_lifecycle_def copy_result_def plan_start_def)
qed

lemma replicate_all_law:
  assumes "stacked s0 (rev written) s" and "inv s0"
    and "\<forall>r \<in> set rs. fleet_reads (t_Fleet (rp_Target r)) \<and> d_Interval (rp_Control r) \<noteq> None"
    and "replicate_all i written rs s = (res, t)"
  shows "extends s0 t \<and>
    (case res of
       Inl e \<Rightarrow> \<not> as_undo e \<longrightarrow> same s0 t
     | Inr out \<Rightarrow> \<exists>out'. out = map (\<lambda>w. copy_result (wc_id w) w) written @ out' \<and>
         replicas_stored rs out' (cabs s) (labs s) (cabs t) (labs t))"
  using assms(1,3,4)
proof (induction rs arbitrary: written s)
  case Nil
  then show ?case using stacked_extends by auto
next
  case (Cons r rs)
  have inv: "inv s" using stacked_extends [OF Cons.prems(1)] by blast
  obtain iv where iv: "d_Interval (rp_Control r) = Some iv" and fr: "fleet_reads (t_Fleet (rp_Target r))"
    using Cons.prems(2) by auto
  obtain r1 t1 where t1: "planReplica i r s = (r1, t1)" by fastforce
  note pl = planReplica_law [OF inv fr iv t1]
  have same1: "same s t1" using pl by blast
  have st1: "stacked s0 (rev written) t1" by (rule stacked_same [OF Cons.prems(1) same1])
  consider (err) e where "r1 = Inl e" | (present) "r1 = Inr None" | (plan) p where "r1 = Inr (Some p)"
    by (cases r1) auto
  then show ?case
  proof cases
    case err
    then show ?thesis using undoAcross_law [OF st1] Cons.prems(3) t1 by (auto split: prod.splits)
  next
    case present
    then have run: "replicate_all i written rs t1 = (res, t)" using Cons.prems(3) t1 by simp
    with Cons.IH [OF st1 _ run] Cons.prems(2) present pl show ?thesis by (cases res) auto
  next
    case plan
    obtain existing link where ok: "plan_ok (labs t1) p" and none: "cabs s (replica_key r) (rp_ID r) = None"
      and ex: "card (dom (cabs s (replica_key r))) < 2 ^ 32 \<longrightarrow> set existing = ran (cabs s (replica_key r))"
      and fm: "first_mark (rivals (labs t1 (replica_key r)) (set existing) (replica_control r)) (replica_base r) link"
      and p: "p = \<lparr>cp_target = rp_Target r, cp_ctrl = replica_control r,
        cp_candidates = replica_marks (labs t1 (replica_key r)) existing (replica_control r), cp_link = link\<rparr>"
      using pl plan by auto
    obtain q t2 where t2: "write_copy i p (rp_ID r) t1 = (q, t2)" by fastforce
    have c1: "copies t1 {} {} t1" using same1 by (simp add: copies_def copies_inv_start)
    have w: "oabs t2 = oabs t1 \<and>
      (case q of
         Inr w \<Rightarrow> copies t1 {copy_of w} {} t2
       | Inl e \<Rightarrow> if is_UndoError e then \<exists>W' Q'. copies t1 W' Q' t2 else copies t1 {} {} t2)"
      using write_copy_copies [OF c1 ok t2] by (cases q) (auto simp: copy_of_def)
    show ?thesis
    proof (cases q)
      case (Inl e)
      have x: "extends t1 t2" using w Inl copies_inv_grown by (auto simp: copies_def split: if_splits)
      have run: "(res, t) = (case undoAcross i written e None t2 of (e', u) \<Rightarrow> (Inl e', u))"
        using Cons.prems(3) t1 plan t2 Inl by simp
      show ?thesis
      proof (cases "is_UndoError e")
        case True
        have "extends s0 t2" by (rule extends_trans [OF stacked_extends [OF st1] x])
        moreover have "res = Inl e" "t = t2" using run is_UndoError_as_undo [OF True] by (simp_all add: undoAcross_def)
        ultimately show ?thesis using is_UndoError_as_undo [OF True] by simp
      next
        case False
        with w Inl have "same t1 t2" using copies_inv_done by (auto simp: copies_def)
        from undoAcross_law [OF stacked_same [OF st1 this]] run show ?thesis by (auto split: prod.splits)
      qed
    next
      case (Inr v)
      have st2: "stacked s0 (rev (written @ [v])) t2" using st1 w Inr by auto
      have run: "replicate_all i (written @ [v]) rs t2 = (res, t)" using Cons.prems(3) t1 plan t2 Inr by simp
      have "replica_stored r existing (copy_result (wc_id v) v) (cabs s) (labs s) (cabs t2) (labs t2)"
        using replica_written [OF _ ok t2 [unfolded Inr] fm p] same1 by simp
      then have "replicas_stored (r # rs) (copy_result (wc_id v) v # out') (cabs s) (labs s) C' L'"
        if "replicas_stored rs out' (cabs t2) (labs t2) C' L'" for out' C' L'
        using that none ex by auto
      with Cons.IH [OF st2 _ run] Cons.prems(2) show ?thesis
        by (cases res) (auto simp del: replicas_stored.simps)
    qed
  qed
qed

lemma Replicate_law:
  assumes "inv s" and "\<forall>r \<in> set replicas. fleet_reads (t_Fleet (rp_Target r))"
    and "Replicate i replicas s = (res, t)"
  shows "extends s t \<and>
    (case res of
       Inl e \<Rightarrow> \<not> as_undo e \<longrightarrow> same s t
     | Inr out \<Rightarrow> replicas_stored replicas out (cabs s) (labs s) (cabs t) (labs t))"
proof (cases "List.map_filter replica_error replicas")
  case Nil
  then have "\<forall>r \<in> set replicas. replica_error r = None"
    using in_map_filter [of _ replica_error replicas] by (metis empty_iff empty_set option.exhaust)
  then have "\<forall>r \<in> set replicas. d_Interval (rp_Control r) \<noteq> None" by (auto simp: replica_error_def split: if_splits)
  moreover have "replicate_all i [] replicas s = (res, t)" using assms(3) Nil by (simp add: Replicate_def)
  ultimately show ?thesis using replicate_all_law [of s "[]" s replicas res t] assms(1,2)
    by (cases res) auto
next
  case (Cons e es)
  with assms(1,3) show ?thesis by (auto simp: Replicate_def)
qed

end

end
