(* ===== verification/Server.thy ===== *)
theory Server
  imports Replication
begin

text \<open>
  The issuer on the server's own stores: the programs, the control store with its mRID index,
  the lifecycle store and the randomness source, side by side in one state. The rest of the
  server's state is the record's extension. The interpretation discharges what the issuer
  relies on; the contracts of \<open>Issue\<close>, \<open>Cancel\<close>, \<open>Relink\<close> and \<open>Retire\<close> follow.
\<close>

record server =
  sv_programs :: "DERProgram pstore"
  sv_controls :: dercontrol_store
  sv_lifecycles :: "LifecycleRecord pstore"
  sv_entropy :: nat

definition on_controls :: "(err, dercontrol_store, 'a) io \<Rightarrow> (err, 'z server_scheme, 'a) io" where
  "on_controls f s = (case f (sv_controls s) of (r, c) \<Rightarrow> (r, s\<lparr>sv_controls := c\<rparr>))"

definition on_lifecycles :: "(err, LifecycleRecord pstore, 'a) io \<Rightarrow> (err, 'z server_scheme, 'a) io" where
  "on_lifecycles f s = (case f (sv_lifecycles s) of (r, l) \<Rightarrow> (r, s\<lparr>sv_lifecycles := l\<rparr>))"

definition on_programs :: "(err, DERProgram pstore, 'a) io \<Rightarrow> (err, 'z server_scheme, 'a) io" where
  "on_programs f s = (case f (sv_programs s) of (r, p) \<Rightarrow> (r, s\<lparr>sv_programs := p\<rparr>))"

text \<open>
  \<open>newMRID\<close> on a source that answers the \<open>k\<close>-th read of \<open>n\<close> bytes with \<open>src n k\<close>. A source
  that answers the reserved form for ever would hang the call, here a panic.
\<close>

definition newMRID :: "(nat \<Rightarrow> nat \<Rightarrow> err + 8 word list) \<Rightarrow> 32 word \<Rightarrow> (err, 'z server_scheme, string) io" where
  "newMRID src pen s =
     (case mrid_New (\<lambda>n k. (src n k, Suc k)) (Some pen) (sv_entropy s) of
        None \<Rightarrow> (Inl (Panic ''mrid: the source never leaves the reserved form''), s)
      | Some (r, k) \<Rightarrow> (r, s\<lparr>sv_entropy := k\<rparr>))"

definition server_issuer ::
    "(nat \<Rightarrow> nat \<Rightarrow> err + 8 word list) \<Rightarrow> Config \<Rightarrow> ('f CreateRequest \<Rightarrow> err + DERControlBase) \<Rightarrow>
     ('z server_scheme, 'f) Issuer" where
  "server_issuer src cfg build =
     \<lparr>programs_Get = (\<lambda>p x. on_programs (P_Get p x)),
      controls_Get = (\<lambda>p x. on_controls (D_Get p x)),
      controls_List = (\<lambda>p opts. on_controls (D_List p opts)),
      controls_Create = (\<lambda>p x c. on_controls (D_Create p x c)),
      controls_Delete = (\<lambda>p x. on_controls (D_Delete p x)),
      controls_rolls = True,
      lifecycles_Get = (\<lambda>p x. on_lifecycles (L_Get p x)),
      lifecycles_Create = (\<lambda>p x lc. on_lifecycles (L_Create p x lc)),
      lifecycles_Update = (\<lambda>p x lc. on_lifecycles (L_Update p x lc)),
      lifecycles_Delete = (\<lambda>p x. on_lifecycles (L_Delete p x)),
      lifecycles_rolls = True,
      i_cfg = cfg,
      i_newMRID = newMRID src,
      i_buildBase = build\<rparr>"

definition srv_inv :: "'z server_scheme \<Rightarrow> bool" where
  "srv_inv s \<longleftrightarrow> dinv (sv_controls s) \<and> pinv (sv_lifecycles s)"

definition srv_controls :: "'z server_scheme \<Rightarrow> DERControl map2" where
  "srv_controls s = pabs (sv_controls s)"

definition srv_lifecycles :: "'z server_scheme \<Rightarrow> LifecycleRecord map2" where
  "srv_lifecycles s = pabs (sv_lifecycles s)"

text \<open>Everything the issuer's stores do not hold.\<close>

definition srv_rest :: "'z server_scheme \<Rightarrow> DERProgram pstore \<times> 'z" where
  "srv_rest s = (sv_programs s, server.more s)"

lemmas srv_defs = srv_inv_def srv_controls_def srv_lifecycles_def srv_rest_def

lemma on_controls_eq: "on_controls f s = (r, t) \<longleftrightarrow> (\<exists>c. f (sv_controls s) = (r, c) \<and> t = s\<lparr>sv_controls := c\<rparr>)"
  by (auto simp: on_controls_def split: prod.splits)

lemma on_lifecycles_eq: "on_lifecycles f s = (r, t) \<longleftrightarrow> (\<exists>l. f (sv_lifecycles s) = (r, l) \<and> t = s\<lparr>sv_lifecycles := l\<rparr>)"
  by (auto simp: on_lifecycles_def split: prod.splits)

lemma Scoped_List_unbounded:
  assumes "wf_scoped i"
  shows "\<exists>l. Scoped_List i p unbounded_options = Inr l \<and>
    (card (dom (scoped_lookup i p)) < 2 ^ 32 \<longrightarrow> set (lr_Items l) = ran (scoped_lookup i p))"
proof (cases "stores i p")
  case None
  then have "scoped_lookup i p = Map.empty" by (simp add: scoped_lookup_def fun_eq_iff)
  with None show ?thesis
    by (auto simp: Scoped_List_def parentStore_def validateListOptions_def ListOptions_Validate_def)
next
  case (Some st)
  have wf: "wf_store st" using assms Some by (auto simp: wf_scoped_def ran_def)
  have lk: "scoped_lookup i p = data st" using Some by (simp add: scoped_lookup_def fun_eq_iff)
  have "\<exists>l. Store_List st unbounded_options = Inr l"
    by (auto simp: Store_List_def validateListOptions_def ListOptions_Validate_def Let_def)
  moreover have "set (map (\<lambda>k. the (data st k)) (keys st)) = ran (data st)"
    using wf by (force simp: wf_store_def ran_def image_def)
  ultimately show ?thesis
    using Store_List_unbounded [OF wf] Some by (auto simp: Scoped_List_def parentStore_def lk)
qed

lemma newMRID_frame:
  "newMRID src pen s = (r, t) \<Longrightarrow> \<exists>k. t = s\<lparr>sv_entropy := k\<rparr>"
  by (auto simp: newMRID_def split: option.splits prod.splits intro: exI [of _ "sv_entropy s"])

lemma on_programs_P_Get: "on_programs (P_Get p x) s = (fst (P_Get p x (sv_programs s)), s)"
  by (simp add: on_programs_def P_Get_def)

lemma server_scoped_controls:
  "scoped_store srv_controls srv_inv (\<lambda>p x. on_controls (D_Get p x)) (\<lambda>p x c. on_controls (D_Create p x c))
     (\<lambda>p x. on_controls (D_Delete p x))"
proof
  fix s t :: "'z server_scheme" and p x v r
  assume inv: "srv_inv s"
  show "on_controls (D_Get p x) s = (case srv_controls s p x of None \<Rightarrow> Inl ErrNotFound | Some v \<Rightarrow> Inr v, s)"
    using inv ds.get_law [of "sv_controls s" p x] by (simp add: on_controls_def srv_defs)
  show "srv_inv t \<and> (case r of Inr _ \<Rightarrow> srv_controls s p x = None \<and> srv_controls t = upd2 (srv_controls s) p x (Some v)
      | Inl e \<Rightarrow> srv_controls t = srv_controls s)" if "on_controls (D_Create p x v) s = (r, t)"
    using that inv by (cases r) (auto simp: on_controls_eq srv_defs dest: ds.create_ok ds.create_err)
  show "srv_inv t \<and> (case r of Inr _ \<Rightarrow> srv_controls s p x \<noteq> None \<and> srv_controls t = upd2 (srv_controls s) p x None
      | Inl e \<Rightarrow> srv_controls t = srv_controls s \<and> (err_is e ErrNotFound \<longleftrightarrow> srv_controls s p x = None))"
    if "on_controls (D_Delete p x) s = (r, t)"
    using that inv by (cases r) (auto simp: on_controls_eq srv_defs dest: ds.delete_ok ds.delete_err)
qed

lemma server_rollback_lifecycles:
  "rollback_store srv_lifecycles srv_inv (\<lambda>p x. on_lifecycles (L_Get p x)) (\<lambda>p x lc. on_lifecycles (L_Create p x lc))
     (\<lambda>p x. on_lifecycles (L_Delete p x)) (\<lambda>p x lc. on_lifecycles (L_Update p x lc))"
proof
  fix s t :: "'z server_scheme" and p x v r
  assume inv: "srv_inv s"
  show "on_lifecycles (L_Get p x) s = (case srv_lifecycles s p x of None \<Rightarrow> Inl ErrNotFound | Some v \<Rightarrow> Inr v, s)"
    using inv ls.get_law [of "sv_lifecycles s" p x] by (simp add: on_lifecycles_def srv_defs)
  show "srv_inv t \<and> (case r of Inr _ \<Rightarrow> srv_lifecycles s p x = None \<and> srv_lifecycles t = upd2 (srv_lifecycles s) p x (Some v)
      | Inl e \<Rightarrow> srv_lifecycles t = srv_lifecycles s)" if "on_lifecycles (L_Create p x v) s = (r, t)"
    using that inv by (cases r) (auto simp: on_lifecycles_eq srv_defs dest: ls.create_ok ls.create_err)
  show "srv_inv t \<and> (case r of Inr _ \<Rightarrow> srv_lifecycles s p x \<noteq> None \<and> srv_lifecycles t = upd2 (srv_lifecycles s) p x None
      | Inl e \<Rightarrow> srv_lifecycles t = srv_lifecycles s \<and> (err_is e ErrNotFound \<longleftrightarrow> srv_lifecycles s p x = None))"
    if "on_lifecycles (L_Delete p x) s = (r, t)"
    using that inv by (cases r) (auto simp: on_lifecycles_eq srv_defs dest: ls.delete_ok ls.delete_err)
  show "srv_inv t \<and> (case r of Inr _ \<Rightarrow> srv_lifecycles s p x \<noteq> None \<and> srv_lifecycles t = upd2 (srv_lifecycles s) p x (Some v)
      | Inl e \<Rightarrow> srv_lifecycles t = srv_lifecycles s \<and> (err_is e ErrNotFound \<longleftrightarrow> srv_lifecycles s p x = None))"
    if "on_lifecycles (L_Update p x v) s = (r, t)"
    using that inv by (cases r) (auto simp: on_lifecycles_eq srv_defs dest: ls.update_ok ls.update_err)
qed

interpretation sv: issuer_stores "server_issuer src cfg build" srv_controls srv_lifecycles srv_inv srv_rest
  for src cfg build
proof (intro issuer_stores.intro issuer_stores_axioms.intro)
  show "scoped_store srv_controls srv_inv (controls_Get (server_issuer src cfg build))
      (controls_Create (server_issuer src cfg build)) (controls_Delete (server_issuer src cfg build))"
    using server_scoped_controls by (simp add: server_issuer_def)
  show "rollback_store srv_lifecycles srv_inv (lifecycles_Get (server_issuer src cfg build))
      (lifecycles_Create (server_issuer src cfg build)) (lifecycles_Delete (server_issuer src cfg build))
      (lifecycles_Update (server_issuer src cfg build))"
    using server_rollback_lifecycles by (simp add: server_issuer_def)
  show "\<exists>l. controls_List (server_issuer src cfg build) p unbounded_options s = (Inr l, s) \<and>
      (card (dom (srv_controls s p)) < 2 ^ 32 \<longrightarrow> set (lr_Items l) = ran (srv_controls s p))"
    if "srv_inv s" for p and s :: "'c server_scheme"
    using Scoped_List_unbounded [of "inner (sv_controls s)" p] that
    by (auto simp: server_issuer_def on_controls_def D_List_def srv_defs dinv_def pinv_def indexed_def pabs_def)
qed (auto simp: server_issuer_def on_controls_eq on_lifecycles_eq on_programs_P_Get srv_defs
    dest!: newMRID_frame)

text \<open>No write of either store fails from here on.\<close>

definition healthy :: "'z server_scheme \<Rightarrow> bool" where
  "healthy s \<longleftrightarrow> True \<notin> set (faults (sv_controls s)) \<and> True \<notin> set (faults (sv_lifecycles s))"

lemma healthy_fails:
  assumes "True \<notin> set (faults s)"
  shows "\<not> fails s"
  using assms by (cases "faults s") auto

lemma tl_healthy: "True \<notin> set xs \<Longrightarrow> True \<notin> set (tl xs)"
  by (cases xs) auto

lemma mridConflict_free:
  assumes "mrid_ok M ix" and "mrid_free M m p x"
  shows "mridConflict ix m (p, x) = None"
proof (cases "m = []")
  case False
  with assms have "fst k \<noteq> p \<and> snd k = x" if "k \<in> set (mrid_keys ix m)" for k
    using that by (cases k) (force simp: mrid_ok_def mrid_free_def)
  with False show ?thesis by (auto simp: mridConflict_def find_None_iff)
qed (simp add: mridConflict_def)

lemma server_lifecycle_total:
  fixes s :: "'z server_scheme"
  assumes "srv_inv s" and "healthy s"
  shows "srv_lifecycles s p x = None \<Longrightarrow> \<exists>t. on_lifecycles (L_Create p x lc) s = (Inr (), t) \<and> healthy t"
    and "srv_lifecycles s p x \<noteq> None \<Longrightarrow> \<exists>t. on_lifecycles (L_Update p x lc) s = (Inr (), t) \<and> healthy t"
proof -
  have ix: "indexed (sv_lifecycles s)" and nf: "\<not> fails (sv_lifecycles s)"
    and h: "True \<notin> set (faults (sv_controls s))" "True \<notin> set (faults (sv_lifecycles s))"
    using assms healthy_fails by (auto simp: srv_inv_def pinv_def healthy_def)
  show "\<exists>t. on_lifecycles (L_Create p x lc) s = (Inr (), t) \<and> healthy t" if "srv_lifecycles s p x = None"
    using that L_Create_eq [OF ix, of p x lc] nf h tl_healthy
    by (auto simp: on_lifecycles_def srv_lifecycles_def pabs_def healthy_def flushed_def)
  show "\<exists>t. on_lifecycles (L_Update p x lc) s = (Inr (), t) \<and> healthy t" if "srv_lifecycles s p x \<noteq> None"
    using that L_Update_P [OF ix, of p x lc] P_Update_eq [OF ix, of p x lc] nf h tl_healthy
    by (auto simp: on_lifecycles_def srv_lifecycles_def pabs_def healthy_def flushed_def)
qed

lemma server_control_total:
  assumes "srv_inv s" and "healthy s" and "srv_controls s p x = None" and "mrid_free (srv_controls s) (d_MRID c) p x"
  shows "\<exists>t. on_controls (D_Create p x c) s = (Inr (), t) \<and> healthy t"
proof -
  have ix: "indexed (sv_controls s)" and nf: "\<not> fails (sv_controls s)"
    and h: "True \<notin> set (faults (sv_controls s))" "True \<notin> set (faults (sv_lifecycles s))"
    using assms healthy_fails by (auto simp: srv_inv_def dinv_def pinv_def healthy_def)
  have "mridConflict (mrid (sv_controls s)) (d_MRID c) (p, x) = None"
    using mridConflict_free assms(1,4) by (auto simp: srv_inv_def dinv_def srv_controls_def)
  with D_Create_eq [OF ix, of p x c] nf h assms(3) tl_healthy show ?thesis
    by (auto simp: on_controls_def srv_controls_def Let_def healthy_def flushed_def)
qed

interpretation svw: writable_stores "server_issuer src cfg build" srv_controls srv_lifecycles srv_inv srv_rest healthy
  for src cfg build
proof unfold_locales
  fix s t :: "'c server_scheme" and p x lc c pen rm
  assume s: "srv_inv s" "healthy s"
  show "\<exists>t. lifecycles_Create (server_issuer src cfg build) p x lc s = (Inr (), t) \<and> healthy t"
    if "srv_lifecycles s p x = None"
    using server_lifecycle_total(1) [OF s that] by (simp add: server_issuer_def)
  show "\<exists>t. lifecycles_Update (server_issuer src cfg build) p x lc s = (Inr (), t) \<and> healthy t"
    if "srv_lifecycles s p x \<noteq> None"
    using server_lifecycle_total(2) [OF s that] by (simp add: server_issuer_def)
  show "\<exists>t. controls_Create (server_issuer src cfg build) p x c s = (Inr (), t) \<and> healthy t"
    if "srv_controls s p x = None" "mrid_free (srv_controls s) (d_MRID c) p x"
    using server_control_total [OF s that] by (simp add: server_issuer_def)
  show "healthy t" if "i_newMRID (server_issuer src cfg build) pen s = (rm, t)"
    using that s by (auto simp: server_issuer_def healthy_def dest!: newMRID_frame)
qed

definition unchanged :: "'z server_scheme \<Rightarrow> 'z server_scheme \<Rightarrow> bool" where
  "unchanged s t \<longleftrightarrow> srv_inv t \<and> srv_controls t = srv_controls s \<and> srv_lifecycles t = srv_lifecycles s \<and> srv_rest t = srv_rest s"

text \<open>A commitment check that only reads, as the ledger's does.\<close>

definition check_reads :: "'z server_scheme Fleet \<Rightarrow> bool" where
  "check_reads fleet \<longleftrightarrow>
     (\<forall>chk q s r t. f_Check fleet = Some chk \<longrightarrow> srv_inv s \<longrightarrow> chk q s = (r, t) \<longrightarrow> unchanged s t)"

section \<open>A sample server\<close>

text \<open>
  One device with one program and one control in force; a source of distinct draws; a build
  that ignores the body of the request.
\<close>

definition sample_src :: "nat \<Rightarrow> nat \<Rightarrow> err + 8 word list" where
  "sample_src n k = Inr (replicate n (word_of_nat (k mod 255)))"

definition sample_cfg :: Config where
  "sample_cfg = withDefaults \<lparr>c_PEN = Some 40732, c_StartLead = 0, c_MinDuration = 0, c_MaxDuration = 0\<rparr>"

definition sample_base :: DERControlBase where
  "sample_base = \<lparr>b_OpModTargetW = None, b_FunctionNames = [''opModConnect'']\<rparr>"

definition sample_build :: "unit CreateRequest \<Rightarrow> err + DERControlBase" where
  "sample_build req = Inr sample_base"

abbreviation sample_issuer :: "(server, unit) Issuer" where
  "sample_issuer \<equiv> server_issuer sample_src sample_cfg sample_build"

definition sample_scope :: Scope where
  "sample_scope = \<lparr>EndDeviceID = ''7'', FSAID = ''2'', DERProgramID = ''1''\<rparr>"

definition sample_old :: DERControl where
  "sample_old = \<lparr>d_MRID = ''0A'', d_Description = [], d_CreationTime = 900,
     d_Interval = Some \<lparr>Start = 900, Duration = 3600\<rparr>, d_Href = ''/edev/7/fsa/2/derp/1/derc/9'',
     d_Base = Some sample_base, d_EventStatus = None\<rparr>"

definition sample_server :: server where
  "sample_server =
     \<lparr>sv_programs = snd (P_Create ''7'' ''1'' \<lparr>p_DERControlListLink = Some ''/edev/7/fsa/2/derp/1/derc''\<rparr> (empty_pstore [] [])),
      sv_controls = snd (D_Create (Key sample_scope) ''9'' sample_old (NewDERControlStore [] [])),
      sv_lifecycles = snd (L_Create (Key sample_scope) ''9'' zero_lifecycle (empty_pstore [] [])), sv_entropy = 1\<rparr>"

definition sample_request :: "int option \<Rightarrow> 32 word \<Rightarrow> unit CreateRequest" where
  "sample_request start d =
     \<lparr>r_DERProgramHref = ''/edev/7/fsa/2/derp/1'', r_Body = (), r_ExecutesGrant = [], r_Origin = [],
      r_Start = start, r_DurationSeconds = d, r_Description = []\<rparr>"

definition sample_mrid :: string where
  "sample_mrid = upper_hex_of (replicate 12 1) @ upper_hex_of (PutUint32 40732)"

lemma empty_stores_inv: "dinv (NewDERControlStore [] [])" "pinv (empty_pstore [] [] :: 'a pstore)"
  by (auto simp: dinv_def pinv_def indexed_def NewDERControlStore_def
      empty_pstore_def empty_index mrid_ok_def share_ok_def mrid_keys_def pabs_def)

lemma empty_lookup: "scoped_lookup NewScopedStore = (\<lambda>_ _. None)"
  by (simp add: empty_index fun_eq_iff)

lemma sample_controls:
  "dinv (sv_controls sample_server)" "faults (sv_controls sample_server) = []"
  "srv_controls sample_server = upd2 (\<lambda>_ _. None) (Key sample_scope) ''9'' (Some sample_old)"
proof -
  let ?s = "NewDERControlStore [] []"
  have "indexed ?s" using empty_stores_inv(1) by (simp add: dinv_def pinv_def)
  from D_Create_eq [OF this, of "Key sample_scope" "''9''" sample_old]
  have r: "fst (D_Create (Key sample_scope) ''9'' sample_old ?s) = Inr ()"
    and f: "faults (snd (D_Create (Key sample_scope) ''9'' sample_old ?s)) = []"
    by (simp_all add: NewDERControlStore_def mridConflict_def mrid_keys_def pabs_def empty_index empty_pstore_def flushed_def Let_def)
  from r have e: "D_Create (Key sample_scope) ''9'' sample_old ?s = (Inr (), sv_controls sample_server)"
    by (metis prod.collapse sample_server_def server.select_convs(2))
  from ds.create_ok [OF empty_stores_inv(1) e]
  show "dinv (sv_controls sample_server)"
    and "srv_controls sample_server = upd2 (\<lambda>_ _. None) (Key sample_scope) ''9'' (Some sample_old)"
    by (simp_all add: srv_controls_def NewDERControlStore_def pabs_def empty_pstore_def empty_lookup)
  show "faults (sv_controls sample_server) = []" using f by (simp add: sample_server_def)
qed

lemma sample_lifecycles:
  "pinv (sv_lifecycles sample_server)" "faults (sv_lifecycles sample_server) = []"
  "srv_lifecycles sample_server = upd2 (\<lambda>_ _. None) (Key sample_scope) ''9'' (Some zero_lifecycle)"
proof -
  let ?s = "empty_pstore [] [] :: LifecycleRecord pstore"
  have "indexed ?s" using empty_stores_inv(2) [where 'a = LifecycleRecord] by (simp add: pinv_def)
  from L_Create_eq [OF this, of "Key sample_scope" "''9''" zero_lifecycle]
  have r: "fst (L_Create (Key sample_scope) ''9'' zero_lifecycle ?s) = Inr ()"
    and f: "faults (snd (L_Create (Key sample_scope) ''9'' zero_lifecycle ?s)) = []"
    by (simp_all add: pabs_def empty_index empty_pstore_def flushed_def Let_def)
  from r have e: "L_Create (Key sample_scope) ''9'' zero_lifecycle ?s = (Inr (), sv_lifecycles sample_server)"
    by (metis prod.collapse sample_server_def server.select_convs(3))
  from ls.create_ok [OF empty_stores_inv(2) e]
  show "pinv (sv_lifecycles sample_server)"
    and "srv_lifecycles sample_server = upd2 (\<lambda>_ _. None) (Key sample_scope) ''9'' (Some zero_lifecycle)"
    by (simp_all add: srv_lifecycles_def pabs_def empty_pstore_def empty_lookup)
  show "faults (sv_lifecycles sample_server) = []" using f by (simp add: sample_server_def)
qed

lemma sample_inv: "srv_inv sample_server" "healthy sample_server"
  by (simp_all add: srv_inv_def healthy_def sample_controls sample_lifecycles)

lemma sample_program:
  "programs_Get sample_issuer ''7'' ''1'' sample_server =
     (Inr \<lparr>p_DERControlListLink = Some ''/edev/7/fsa/2/derp/1/derc''\<rparr>, sample_server)"
proof -
  let ?s = "empty_pstore [] [] :: DERProgram pstore" and ?p = "\<lparr>p_DERControlListLink = Some ''/edev/7/fsa/2/derp/1/derc''\<rparr>"
  have "indexed ?s" using empty_stores_inv(2) [where 'a = DERProgram] by (simp add: pinv_def)
  from P_Create_eq [OF this, of "''7''" "''1''" ?p]
  have "inner (sv_programs sample_server) = created NewScopedStore ''7'' ''1'' ?p"
    by (simp add: sample_server_def empty_pstore_def empty_lookup flushed_def)
  then show ?thesis
    by (simp add: server_issuer_def on_programs_P_Get P_Get_def Scoped_Get_lookup lookup_created empty_lookup)
qed

lemma sample_hrefs:
  "Program ''/edev/7/fsa/2/derp/1'' = Some (''7'', ''2'', ''1'')"
  "ControlList ''/edev/7/fsa/2/derp/1/derc'' = Some (''7'', ''2'', ''1'')"
  "ControlID ''/edev/7/fsa/2/derp/1/derc/9'' = Some ''9''"
  by code_simp+

lemma sample_reads:
  "resolveScope sample_issuer ''7'' ''1'' sample_server = (Inr sample_scope, sample_server)"
  "Program (r_DERProgramHref (sample_request start d)) = Some (''7'', ''2'', ''1'')"
  "StoredOrigin (r_Origin (sample_request start d)) = Inr []"
  "validate sample_issuer (sample_request None 600) 1000 = Inr sample_base"
proof -
  show "resolveScope sample_issuer ''7'' ''1'' sample_server = (Inr sample_scope, sample_server)"
    by (simp add: resolveScope_def loadProgram_def io_run sample_program sample_hrefs io_return_def sample_scope_def)
  show "Program (r_DERProgramHref (sample_request start d)) = Some (''7'', ''2'', ''1'')"
    by (simp add: sample_request_def sample_hrefs)
  show "StoredOrigin (r_Origin (sample_request start d)) = Inr []"
    by (simp add: sample_request_def StoredOrigin_def)
  show "validate sample_issuer (sample_request None 600) 1000 = Inr sample_base"
    by (simp add: validate_def server_issuer_def sample_request_def sample_hrefs sample_build_def sample_cfg_def
        withDefaults_def quo_def)
qed

lemma sample_mints: "\<exists>t. newMRID sample_src 40732 sample_server = (Inr sample_mrid, t)"
proof -
  have "draw (\<lambda>n k. (sample_src n k, Suc k)) 12 1 = Some (Inr (replicate 12 1), 2)"
    by (subst draw.simps) (simp add: sample_src_def IsAllFF_def list_all_iff)
  then show ?thesis
    by (simp add: newMRID_def mrid_New_draw drawn_def sample_server_def sample_mrid_def)
qed

lemma sample_new_id:
  "upd2 (\<lambda>_ _. None) k ''9'' v k' (issue_id now req existing sample_mrid) = None"
proof -
  have "32 \<le> length (issue_id now req existing sample_mrid)"
    by (simp add: issue_id_def sortableID_def Let_def invertHex_def sample_mrid_def PutUint32_def)
  then have "issue_id now req existing sample_mrid \<noteq> ''9''" by auto
  then show ?thesis by (simp add: upd2_apply)
qed

lemma sample_mrid_new:
  "srv_controls sample_server q y = Some d \<Longrightarrow> d_MRID d \<noteq> sample_mrid"
proof
  assume "srv_controls sample_server q y = Some d" "d_MRID d = sample_mrid"
  then have "''0A'' = sample_mrid" by (auto simp: sample_controls upd2_apply sample_old_def split: if_splits)
  then have "length sample_mrid = 2" by (metis One_nat_def Suc_1 length_Cons list.size(3))
  then show False by (simp add: sample_mrid_def PutUint32_def)
qed

lemma sample_dom: "card (dom (srv_controls sample_server k)) < 2 ^ 32"
proof -
  have "dom (srv_controls sample_server k) \<subseteq> {''9''}" by (auto simp: sample_controls upd2_apply split: if_splits)
  then have "card (dom (srv_controls sample_server k)) \<le> card {''9''}" by (intro card_mono) auto
  then show ?thesis by simp
qed

abbreviation sample_call :: "(err + IssueResult) \<times> server" where
  "sample_call \<equiv> issue sample_issuer (\<lambda>_. None) 1000 (sample_request None 600) no_fleet sample_server"

lemma sample_call_succeeds:
  "\<exists>res t existing. sample_call = (Inr res, t) \<and> res_Scope res = sample_scope \<and>
     set existing = {sample_old} \<and>
     res_Control res = issue_control 1000 (sample_request None 600) sample_base sample_scope existing sample_mrid"
proof -
  obtain t where t: "i_newMRID sample_issuer (the (c_PEN (i_cfg sample_issuer))) sample_server = (Inr sample_mrid, t)"
    using sample_mints by (auto simp: server_issuer_def sample_cfg_def withDefaults_def)
  have "ran (srv_controls sample_server (Key sample_scope)) = {sample_old}"
    by (auto simp: sample_controls ran_def upd2_apply)
  moreover have "\<exists>res t existing. sample_call = (Inr res, t) \<and> healthy t \<and> res_Scope res = sample_scope \<and>
     (card (dom (srv_controls sample_server (Key sample_scope))) < 2 ^ 32 \<longrightarrow>
        set existing = ran (srv_controls sample_server (Key sample_scope))) \<and>
     res_Control res = issue_control 1000 (sample_request None 600) sample_base sample_scope existing sample_mrid"
    by (rule svw.issue_total [OF sample_inv _ _ sample_reads(3) sample_reads(4) sample_reads(2,1) t sample_mrid_new])
      (simp_all add: no_fleet_def sample_controls sample_lifecycles sample_new_id)
  ultimately show ?thesis using sample_dom by metis
qed

lemma no_fleet_reads: "check_reads no_fleet"
  by (simp add: check_reads_def no_fleet_def)

section \<open>Properties\<close>

text \<open>
  C1: the contract of issuing a control. On success exactly one control and its lifecycle
  record are new and the controls it replaces are marked. An error that is not an
  \<open>UndoError\<close> leaves both stores, and everything else, as they were. What an \<open>UndoError\<close>
  leaves is legal: every stored control keeps its lifecycle record, no record is lost, and
  every changed record names a control that is stored.
\<close>

theorem issue_all_or_nothing:
  assumes "srv_inv s" and "check_reads fleet"
    and "issue (server_issuer src cfg build) ctx now req fleet s = (r, t)"
  shows "srv_inv t \<and> srv_rest t = srv_rest s \<and>
    (case r of
       Inr res \<Rightarrow> \<exists>existing.
         (card (dom (srv_controls s (Key (res_Scope res)))) < 2 ^ 32 \<longrightarrow>
            set existing = ran (srv_controls s (Key (res_Scope res)))) \<and>
         issued now (r_ExecutesGrant req) fleet existing res
           (srv_controls s) (srv_lifecycles s) (srv_controls t) (srv_lifecycles t)
     | Inl e \<Rightarrow>
         (\<not> is_UndoError e \<longrightarrow> unchanged s t) \<and>
         legal_rest (srv_controls s) (srv_lifecycles s) (srv_controls t) (srv_lifecycles t))"
proof -
  have "sv.fleet_reads fleet" using assms(2) by (simp add: check_reads_def unchanged_def)
  from sv.issue_law [OF assms(1) this assms(3)] show ?thesis
    by (cases r) (auto simp: unchanged_def dest: remainder_legal)
qed

theorem issue_all_or_nothing_witness:
  "\<exists>res t existing. sample_call = (Inr res, t) \<and> set existing = {sample_old} \<and>
     issued 1000 [] (no_fleet :: server Fleet) existing res
       (srv_controls sample_server) (srv_lifecycles sample_server) (srv_controls t) (srv_lifecycles t)"
proof -
  obtain res t where c: "sample_call = (Inr res, t)" "res_Scope res = sample_scope"
    using sample_call_succeeds by blast
  have "ran (srv_controls sample_server (Key sample_scope)) = {sample_old}"
    by (auto simp: sample_controls ran_def upd2_apply)
  with issue_all_or_nothing [OF sample_inv(1) no_fleet_reads c(1)] sample_dom c show ?thesis
    by (auto simp: sample_request_def)
qed

text \<open>
  C6: superseding. Once a control is issued into a scope, every other control of the scope that
  carries the same function set, overlaps its interval and has a lifecycle record is retired
  from the new control's start on, so the two never act together from then. A control with no
  lifecycle record, one this server did not issue, is left as it is: it stays stored, gets no
  record, and its state is at every time what it was, so it may go on acting beside the new one.
\<close>

theorem issue_retires_what_it_replaces:
  assumes "srv_inv s" and "check_reads fleet"
    and "issue (server_issuer src cfg build) ctx now req fleet s = (Inr res, t)"
    and "card (dom (srv_controls s (Key (res_Scope res)))) < 2 ^ 32"
    and "srv_controls s (Key (res_Scope res)) x = Some d"
    and "ControlID (d_Href d) = Some y"
    and "replacedBy d (functionSetKey (d_Base (res_Control res)))
          (Start (the (d_Interval (res_Control res)))) (IntervalEnd (the (d_Interval (res_Control res))))"
  shows "srv_controls t (Key (res_Scope res)) x = Some d \<and>
    (if srv_lifecycles s (Key (res_Scope res)) y \<noteq> None
     then \<forall>later \<ge> Start (the (d_Interval (res_Control res))).
            live_state (srv_lifecycles t (Key (res_Scope res))) d later = Retired
     else y \<noteq> res_ID res \<longrightarrow> srv_lifecycles t (Key (res_Scope res)) y = None \<and>
          (\<forall>any. live_state (srv_lifecycles t (Key (res_Scope res))) d any
                 = live_state (srv_lifecycles s (Key (res_Scope res))) d any))"
proof -
  have "sv.fleet_reads fleet" using assms(2) by (simp add: check_reads_def unchanged_def)
  from sv.issue_law [OF assms(1) this assms(3)] assms(4)
  obtain existing where ex: "set existing = ran (srv_controls s (Key (res_Scope res)))"
    and iss: "issued now (r_ExecutesGrant req) fleet existing res
      (srv_controls s) (srv_lifecycles s) (srv_controls t) (srv_lifecycles t)" by auto
  then have d: "d \<in> set existing" using assms(5) by (auto simp: ran_def)
  have "srv_controls t (Key (res_Scope res)) x = Some d"
    using iss assms(5) by (auto simp: issued_def Let_def upd2_apply)
  moreover have "live_state (srv_lifecycles t (Key (res_Scope res))) d later = Retired"
    if "srv_lifecycles s (Key (res_Scope res)) y \<noteq> None" "Start (the (d_Interval (res_Control res))) \<le> later" for later
    by (rule issued_retires [OF iss d assms(6) that(1) assms(7) that(2)])
  moreover have "srv_lifecycles t (Key (res_Scope res)) y = None"
    if "srv_lifecycles s (Key (res_Scope res)) y = None" "y \<noteq> res_ID res"
    using issued_leaves_recordless [OF iss that] .
  ultimately show ?thesis using assms(6) by (simp add: live_state_def controlIDOf_def)
qed

theorem issue_retires_what_it_replaces_witness:
  "\<exists>res t. sample_call = (Inr res, t) \<and> replacedBy sample_old (functionSetKey (Some sample_base)) 1000 1600 \<and>
     live_state (srv_lifecycles sample_server (Key sample_scope)) sample_old 1200 = InForce \<and>
     live_state (srv_lifecycles t (Key sample_scope)) sample_old 1200 = Retired"
proof -
  obtain res t existing where c: "sample_call = (Inr res, t)" "res_Scope res = sample_scope" and ex: "set existing = {sample_old}"
    and ctl: "res_Control res = issue_control 1000 (sample_request None 600) sample_base sample_scope existing sample_mrid"
    using sample_call_succeeds by blast
  have fold: "foldl (\<lambda>t c. if t \<le> d_CreationTime c then wrap64 (d_CreationTime c + 1) else t) 1000 xs = 1000"
    if "set xs \<subseteq> {sample_old}" for xs
    using that by (induction xs) (auto simp: sample_old_def)
  have now: "nextCreationTime 1000 [existing] = 1000"
    using fold [of existing] ex by (simp add: nextCreationTime_def)
  have rep: "replacedBy sample_old (functionSetKey (Some sample_base)) 1000 1600" by code_simp
  have st: "d_Interval (res_Control res) = Some \<lparr>Start = 1000, Duration = 600\<rparr>" "d_Base (res_Control res) = Some sample_base"
    using now by (simp_all add: ctl issue_control_def newControl_def sample_request_def Let_def)
  have "srv_controls sample_server (Key (res_Scope res)) ''9'' = Some sample_old"
    "srv_lifecycles sample_server (Key (res_Scope res)) ''9'' \<noteq> None"
    by (simp_all add: sample_controls sample_lifecycles upd2_apply c)
  moreover have "ControlID (d_Href sample_old) = Some ''9''" by (simp add: sample_old_def sample_hrefs)
  moreover have "IntervalEnd \<lparr>Start = 1000, Duration = 600\<rparr> = 1600" by code_simp
  ultimately have "live_state (srv_lifecycles t (Key (res_Scope res))) sample_old 1200 = Retired"
    using issue_retires_what_it_replaces [OF sample_inv(1) no_fleet_reads c(1) sample_dom, of "''9''" sample_old "''9''"]
      st rep by simp
  moreover have "live_state (srv_lifecycles sample_server (Key sample_scope)) sample_old 1200 = InForce"
    by (simp add: live_state_def sample_lifecycles upd2_apply controlIDOf_def sample_old_def sample_hrefs) code_simp
  ultimately show ?thesis using c rep by auto
qed

text \<open>
  C8: cancelling. A control that is unknown, already cancelled, superseded as of now or past
  its interval is refused with its own code; otherwise the cancellation is stored and nothing
  else changes, or the record is exactly what it was. No outcome is uncertain.
\<close>

theorem Cancel_contract:
  assumes "srv_inv s" and "Cancel (server_issuer src cfg build) ctx now scope x reason s = ((lc, e), t)"
  shows "srv_inv t \<and> srv_controls t = srv_controls s \<and> srv_rest t = srv_rest s \<and>
    (case (srv_controls s (Key scope) x, srv_lifecycles s (Key scope) x) of
       (Some c, Some before) \<Rightarrow>
         if cancelled before then e = Some (RefusalError RefusalAlreadyCancelled) \<and> srv_lifecycles t = srv_lifecycles s
         else if supersededAsOf before now
         then e = Some (RefusalError RefusalAlreadySuperseded) \<and> srv_lifecycles t = srv_lifecycles s
         else if d_Interval c = None then e \<noteq> None \<and> srv_lifecycles t = srv_lifecycles s
         else if over c now then e = Some (RefusalError RefusalEnded) \<and> srv_lifecycles t = srv_lifecycles s
         else e = None \<and> lc = before\<lparr>lc_CancelledAt := Some now, lc_CancelReason := reason\<rparr> \<and>
                srv_lifecycles t = upd2 (srv_lifecycles s) (Key scope) x (Some lc) \<or>
              e \<noteq> None \<and> lc = before \<and> srv_lifecycles t = srv_lifecycles s
     | _ \<Rightarrow> e = Some (RefusalError RefusalControlNotFound) \<and> srv_lifecycles t = srv_lifecycles s)"
  by (rule sv.Cancel_law [OF assms])

theorem Cancel_contract_witness:
  "\<exists>t. Cancel sample_issuer (\<lambda>_. None) 1000 sample_scope ''8'' ''operator'' sample_server =
      ((zero_lifecycle, Some (RefusalError RefusalControlNotFound)), t) \<and>
      srv_controls sample_server (Key sample_scope) ''8'' = None \<and> srv_lifecycles t = srv_lifecycles sample_server"
proof -
  have none: "srv_controls sample_server (Key sample_scope) ''8'' = None" by (simp add: sample_controls upd2_apply)
  then have run: "Cancel sample_issuer (\<lambda>_. None) 1000 sample_scope ''8'' ''operator'' sample_server =
      ((zero_lifecycle, Some (RefusalError RefusalControlNotFound)), sample_server)"
    by (simp add: Cancel_def sv.load_pair_eq [OF sample_inv(1)])
  from Cancel_contract [OF sample_inv(1) run] none run show ?thesis by auto
qed

text \<open>
  C25: relinking moves an execution to another grant and changes no other field of its record;
  it never gives a plain dispatch a link, and a failed call leaves the record as it was.
\<close>

theorem Relink_contract:
  assumes "srv_inv s" and "Relink (server_issuer src cfg build) ctx scope x grant s = ((lc, e), t)"
  shows "srv_inv t \<and> srv_controls t = srv_controls s \<and> srv_rest t = srv_rest s \<and>
    (case (srv_controls s (Key scope) x, srv_lifecycles s (Key scope) x) of
       (Some c, Some before) \<Rightarrow>
         if lc_GrantMRID before = [] \<or> grant = []
         then e = Some ErrNotExecution \<and> lc = before \<and> srv_lifecycles t = srv_lifecycles s
         else e = None \<and> lc = before\<lparr>lc_GrantMRID := grant\<rparr> \<and>
                srv_lifecycles t = upd2 (srv_lifecycles s) (Key scope) x (Some lc) \<or>
              e \<noteq> None \<and> lc = before \<and> srv_lifecycles t = srv_lifecycles s
     | _ \<Rightarrow> e = Some (RefusalError RefusalControlNotFound) \<and> srv_lifecycles t = srv_lifecycles s)"
  by (rule sv.Relink_law [OF assms])

theorem Relink_contract_witness:
  "\<exists>t. Relink sample_issuer (\<lambda>_. None) sample_scope ''9'' ''B0'' sample_server = ((zero_lifecycle, Some ErrNotExecution), t) \<and>
      srv_lifecycles sample_server (Key sample_scope) ''9'' = Some zero_lifecycle \<and>
      srv_lifecycles t = srv_lifecycles sample_server"
proof -
  have here: "srv_controls sample_server (Key sample_scope) ''9'' = Some sample_old"
    "srv_lifecycles sample_server (Key sample_scope) ''9'' = Some zero_lifecycle"
    by (simp_all add: sample_controls sample_lifecycles upd2_apply)
  then have run: "Relink sample_issuer (\<lambda>_. None) sample_scope ''9'' ''B0'' sample_server =
      ((zero_lifecycle, Some ErrNotExecution), sample_server)"
    by (simp add: Relink_def sv.load_pair_eq [OF sample_inv(1)] zero_lifecycle_def)
  from Relink_contract [OF sample_inv(1) run] here run show ?thesis by (auto simp: zero_lifecycle_def)
qed

text \<open>
  C9: retiring scopes runs the removal exactly when none of them holds a live control, and
  otherwise refuses, changing nothing, with the hrefs of exactly the live ones.
\<close>

theorem Retire_guards_removal:
  assumes "srv_inv s" and "\<forall>sc \<in> set scopes. card (dom (srv_controls s (Key sc))) < 2 ^ 32"
  shows "\<exists>hrefs. sorted hrefs \<and> set hrefs = live_hrefs (srv_controls s) (srv_lifecycles s) (Key ` set scopes) now \<and>
    Retire (server_issuer src cfg build) now scopes remove s =
      (if hrefs = [] then remove s else (Inl (LiveControlsError hrefs), s))"
proof (intro exI conjI)
  let ?hrefs = "the_live (server_issuer src cfg build) now scopes s"
  note law = sv.Retire_law [OF assms, where now = now]
  show "sorted ?hrefs" by (simp add: the_live_def split: sum.splits)
  show "set ?hrefs = live_hrefs (srv_controls s) (srv_lifecycles s) (Key ` set scopes) now" by (rule law(2))
  then have "?hrefs = [] \<longleftrightarrow> live_hrefs (srv_controls s) (srv_lifecycles s) (Key ` set scopes) now = {}"
    by (metis set_empty)
  then show "Retire (server_issuer src cfg build) now scopes remove s =
      (if ?hrefs = [] then remove s else (Inl (LiveControlsError ?hrefs), s))"
    by (simp add: law(1))
qed

theorem Retire_guards_removal_witness:
  "\<exists>hrefs. set hrefs = {d_Href sample_old} \<and>
     Retire sample_issuer 1000 [sample_scope] (\<lambda>s. (Inr (), s)) sample_server = (Inl (LiveControlsError hrefs), sample_server)"
proof -
  have "live_state (srv_lifecycles sample_server (Key sample_scope)) sample_old 1000 = InForce"
    by (simp add: live_state_def sample_lifecycles upd2_apply controlIDOf_def sample_old_def sample_hrefs) code_simp
  moreover have "ran (srv_controls sample_server (Key sample_scope)) = {sample_old}"
    by (auto simp: sample_controls ran_def upd2_apply)
  ultimately have "live_hrefs (srv_controls sample_server) (srv_lifecycles sample_server) (Key ` set [sample_scope]) 1000
      = {d_Href sample_old}"
    by (auto simp: live_hrefs_def control_live_def)
  with Retire_guards_removal [OF sample_inv(1), of "[sample_scope]" 1000 sample_src sample_cfg sample_build "\<lambda>s. (Inr (), s)"]
    sample_dom show ?thesis by (auto split: if_splits)
qed

end
