(* ===== verification/Fanout.thy ===== *)
theory Fanout
  imports Server
begin

text \<open>
  The fan-out and the replication on the server's own stores: what \<open>IssueAcrossAll\<close> and
  \<open>Replicate\<close> leave behind on every outcome, and which mark a control carries that several
  items of one call replace.
\<close>

section \<open>Record writers\<close>

text \<open>
  What the call relies on of a record writer: it touches neither store, a failed write leaves
  no record, and its undo takes the record away again when nothing was recorded since.
\<close>

definition record_writes :: "'z server_scheme RecordWriter \<Rightarrow> bool" where
  "record_writes rw \<longleftrightarrow> (\<forall>x c s r t. srv_inv s \<longrightarrow> rw x c s = (r, t) \<longrightarrow>
     srv_inv t \<and> srv_controls t = srv_controls s \<and> srv_lifecycles t = srv_lifecycles s \<and>
     (case r of
        Inl _ \<Rightarrow> srv_rest t = srv_rest s
      | Inr undo \<Rightarrow> \<forall>u q v. srv_inv u \<longrightarrow> undo u = (q, v) \<longrightarrow>
          srv_inv v \<and> srv_controls v = srv_controls u \<and> srv_lifecycles v = srv_lifecycles u \<and>
          (srv_rest u = srv_rest t \<and> q = Inr () \<longrightarrow> srv_rest v = srv_rest s)))"

lemma record_writes_ok: "record_writes rw \<Longrightarrow> sv.record_ok rw"
  unfolding record_writes_def sv.record_ok_def sv.undo_ok_def by (simp cong: sum.case_cong)

definition items_ok :: "('z server_scheme, 'f) Across list \<Rightarrow> bool" where
  "items_ok items \<longleftrightarrow> (\<forall>it \<in> set items. record_writes (a_Record it) \<and> (\<forall>tg \<in> set (a_Targets it). check_reads (t_Fleet tg)))"

lemma items_ok_law:
  "items_ok items \<Longrightarrow> \<forall>it \<in> set items. sv.record_ok (a_Record it) \<and> (\<forall>tg \<in> set (a_Targets it). sv.fleet_reads (t_Fleet tg))"
  by (auto simp: items_ok_def check_reads_def unchanged_def record_writes_ok)

section \<open>The last mark\<close>

text \<open>A control that several copies of a call replace carries the mark of the last of them.\<close>

lemma all_lifecycles_other:
  "\<forall>(q, z) \<in> set ws. \<not> (plan_key q = k \<and> (y = z \<or> y \<in> cand_ids q)) \<Longrightarrow> all_lifecycles ws L k y = L k y"
proof (induction ws arbitrary: L)
  case (Cons w ws)
  obtain p x where w: "w = (p, x)" by fastforce
  with Cons have "all_lifecycles ws (copied_lifecycle p x L) k y = copied_lifecycle p x L k y" by simp
  moreover have "copied_lifecycle p x L k y = L k y"
    using Cons.prems w by (auto simp: copied_lifecycle_def mark_all_other upd2_apply)
  ultimately show ?case by (simp add: all_lifecycles_def w)
qed (simp add: all_lifecycles_def)

lemma all_lifecycles_last:
  assumes "y \<in> cand_ids p" and "\<forall>(q, z) \<in> set ws'. \<not> (plan_key q = plan_key p \<and> (y = z \<or> y \<in> cand_ids q))"
  shows "\<exists>c \<in> set (cp_candidates p). sc_id c = y \<and>
    all_lifecycles (ws @ (p, x) # ws') L (plan_key p) y = Some (marked_record c (plan_start p) (d_MRID (cp_ctrl p)))"
proof -
  have "all_lifecycles (ws @ (p, x) # ws') L = all_lifecycles ws' (copied_lifecycle p x (all_lifecycles ws L))"
    by (simp add: all_lifecycles_def)
  moreover have "\<exists>c \<in> set (cp_candidates p). sc_id c = y \<and>
      copied_lifecycle p x (all_lifecycles ws L) (plan_key p) y = Some (marked_record c (plan_start p) (d_MRID (cp_ctrl p)))"
    using mark_all_marked [OF assms(1)] by (simp add: copied_lifecycle_def)
  ultimately show ?thesis using all_lifecycles_other [OF assms(2)] by simp
qed

lemma planned_copy:
  assumes "list_all2 (item_issued L existing) items planned" and "(p, x) \<in> set (planned_copies planned)"
  shows "\<exists>cs base stop. cp_candidates p = candidates (L (plan_key p)) cs base (plan_start p) stop"
proof -
  from assms(2) obtain q where q: "q \<in> set planned" "p \<in> set (pl_copies q)" by (auto simp: planned_copies_def)
  from q(1) obtain n where n: "n < length planned" "planned ! n = q" by (auto simp: in_set_conv_nth)
  define it where "it = items ! n"
  have "item_issued L existing it q" using list_all2_nthD2 [OF assms(1) n(1)] n(2) by (simp add: it_def)
  then obtain origin where al: "list_all2 (copy_planned L existing q origin (a_FleetTotal it))
      (sort_key (\<lambda>t. Key (t_Scope t)) (a_Targets it)) (pl_copies q)" by (auto simp: item_issued_def)
  from q(2) obtain m where m: "m < length (pl_copies q)" "pl_copies q ! m = p" by (auto simp: in_set_conv_nth)
  from list_all2_nthD2 [OF al m(1)] m(2) show ?thesis by (auto simp: copy_planned_def Let_def plan_start_def copyOf_def)
qed

text \<open>A record marked by a candidate that was eligible: as before until the mark is due.\<close>

lemma marked_until_due:
  assumes "supersedeEligible (sc_before c) start"
  shows "ControlState d (marked_record c start m) True now =
    (if now < start then ControlState d (sc_before c) True now else Retired)"
  using assms
  by (auto simp: ControlState_lc marked_record_def supersedeEligible_def supersededAsOf_def cancelled_def
      split: if_splits option.splits)

lemma last_mark_state:
  assumes "list_all2 (item_issued L existing) items planned" and "planned_copies planned = ws @ (p, x) # ws'"
    and "y \<in> cand_ids p" and "\<forall>(q, z) \<in> set ws'. \<not> (plan_key q = plan_key p \<and> (y = z \<or> y \<in> cand_ids q))"
    and "ControlID (d_Href d) = Some y"
  shows "live_state (all_lifecycles (planned_copies planned) L (plan_key p)) d now =
    (if now < plan_start p then live_state (L (plan_key p)) d now else Retired)"
proof -
  obtain c where c: "c \<in> set (cp_candidates p)" "sc_id c = y"
    and mark: "all_lifecycles (planned_copies planned) L (plan_key p) y =
      Some (marked_record c (plan_start p) (d_MRID (cp_ctrl p)))"
    using all_lifecycles_last [OF assms(3,4), of ws x L] assms(2) by auto
  have "(p, x) \<in> set (planned_copies planned)" using assms(2) by simp
  from planned_copy [OF assms(1) this] obtain cs base stop where
    "cp_candidates p = candidates (L (plan_key p)) cs base (plan_start p) stop" by blast
  with c obtain e where "candidate_of (L (plan_key p)) (functionSetKey base) (plan_start p) stop e = Some c"
    by (auto simp: candidates_def in_map_filter)
  from candidate_of_Some [OF this] c(2) have "L (plan_key p) y = Some (sc_before c)" "supersedeEligible (sc_before c) (plan_start p)"
    by auto
  with mark assms(5) show ?thesis by (simp add: live_state_def controlIDOf_def marked_until_due)
qed

section \<open>A sample call\<close>

text \<open>Two controls that follow each other, ten minutes each, in the scope of the sample server.\<close>

definition sample_record :: "server RecordWriter" where
  "sample_record x c s = (Inr (\<lambda>u. (Inr (), u)), s)"

definition sample_target :: "server Target" where
  "sample_target = \<lparr>t_Scope = sample_scope,
     t_Fleet = \<lparr>f_Key = ''f'', f_Reach = 1, f_Check = Some (\<lambda>q s. (Inr (), s))\<rparr>\<rparr>"

definition sample_item :: "int \<Rightarrow> (server, unit) Across" where
  "sample_item off = \<lparr>a_Req = sample_request None 600, a_Targets = [sample_target], a_Record = sample_record,
     a_StartOffset = off, a_FleetTotal = False\<rparr>"

definition sample_prepared :: "nat \<Rightarrow> int \<Rightarrow> (server, unit) preparedAcross" where
  "sample_prepared n off = \<lparr>pa_item = n,
     pa_req = (sample_request None 600)\<lparr>r_DERProgramHref := UnscopedProgramHref\<rparr>, pa_origin = [],
     pa_targets = [sample_target], pa_base = sample_base, pa_record = sample_record, pa_offset = off, pa_total = False\<rparr>"

definition nth_mrid :: "nat \<Rightarrow> string" where
  "nth_mrid k = upper_hex_of (replicate 12 (word_of_nat k)) @ upper_hex_of (PutUint32 40732)"

definition sample_ctrl :: "nat \<Rightarrow> int \<Rightarrow> DERControl" where
  "sample_ctrl n off = newControl sample_base (nth_mrid (Suc n)) [] (1000 + int n) (1000 + off) 600"

definition sample_id :: "nat \<Rightarrow> int \<Rightarrow> string" where
  "sample_id n off = sortableID (1000 + off) (1000 + int n) (nth_mrid (Suc n))"

lemma sample_prepareItem:
  assumes "0 \<le> off"
  shows "prepareItem sample_issuer 1000 n (sample_item off) = Inr (sample_prepared n off)"
proof -
  have "Program UnscopedProgramHref = Some (''0'', ''0'', ''0'')" by code_simp
  then have "validate sample_issuer ((sample_request None 600)\<lparr>r_DERProgramHref := UnscopedProgramHref\<rparr>) 1000 = Inr sample_base"
    by (simp add: validate_def server_issuer_def sample_request_def sample_build_def sample_cfg_def withDefaults_def quo_def)
  with assms show ?thesis
    by (simp add: prepareItem_def sample_item_def sample_prepared_def sample_reads sortTargets_def sample_target_def
        bounded_fleet_def Let_def) (simp add: sample_request_def)
qed

lemma sample_newMRID:
  fixes s :: server
  assumes "sv_entropy s = k" and "0 < k" and "k < 255"
  shows "newMRID sample_src 40732 s = (Inr (nth_mrid k), s\<lparr>sv_entropy := Suc k\<rparr>)"
proof -
  have "word_of_nat k \<noteq> (0xFF :: 8 word)"
  proof
    assume "word_of_nat k = (0xFF :: 8 word)"
    then have "unat (word_of_nat k :: 8 word) = 255" by simp
    with assms(3) show False by (simp add: unat_of_nat)
  qed
  then have "draw (\<lambda>n k. (sample_src n k, Suc k)) 12 k = Some (Inr (replicate 12 (word_of_nat k)), Suc k)"
    using assms(3) by (subst draw.simps) (simp add: sample_src_def IsAllFF_def list_all_iff)
  with assms(1) show ?thesis
    by (simp add: newMRID_def mrid_New_draw drawn_def nth_mrid_def)
qed

lemma sample_list:
  "\<exists>l. controls_List sample_issuer (Key sample_scope) unbounded_options sample_server = (Inr l, sample_server) \<and>
     set (lr_Items l) = {sample_old}"
proof -
  have "ran (srv_controls sample_server (Key sample_scope)) = {sample_old}"
    by (auto simp: sample_controls ran_def upd2_apply)
  then show ?thesis using sv.list_law [OF sample_inv(1)] sample_dom by metis
qed

lemma sample_readScopes:
  "\<exists>cs. readScopes sample_issuer [sample_prepared 0 0, sample_prepared 1 600] sample_server =
     (Inr ([(Key sample_scope, cs)], []), sample_server) \<and> set cs = {sample_old}"
proof -
  have "checkProgram sample_issuer sample_scope sample_server = (Inr (), sample_server)"
    using sample_reads(1) by (simp add: checkProgram_def io_run sample_scope_def io_return_def)
  with sample_list show ?thesis
    by (auto simp: readScopes_def sample_prepared_def sample_target_def io_try_def io_run io_return_def Let_def)
qed

definition sample_plan :: "nat \<Rightarrow> int \<Rightarrow> server plannedAcross" where
  "sample_plan n off = \<lparr>pl_item = n, pl_id = sample_id n off, pl_ctrl = sample_ctrl n off, pl_record = sample_record, pl_copies = []\<rparr>"

definition sample_copy :: "nat \<Rightarrow> int \<Rightarrow> DERControl list \<Rightarrow> server copyPlan" where
  "sample_copy n off cs = \<lparr>cp_target = sample_target,
     cp_ctrl = copyOf (sample_ctrl n off) sample_scope (sample_id n off),
     cp_candidates = candidates (srv_lifecycles sample_server (Key sample_scope)) cs (Some sample_base) (1000 + off) (1600 + off),
     cp_link = zero_lifecycle\<lparr>lc_FleetKey := ''f'', lc_Reach := 1\<rparr>\<rparr>"

lemma sample_resolve:
  "resolveAcross sample_issuer 1000 1000 0 [sample_prepared 0 0, sample_prepared 1 600] sample_server =
     (([sample_plan 0 0, sample_plan 1 600], []), sample_server\<lparr>sv_entropy := 3\<rparr>)"
proof -
  have "i_newMRID sample_issuer 40732 sample_server = (Inr (nth_mrid 1), sample_server\<lparr>sv_entropy := 2\<rparr>)"
    using sample_newMRID [of sample_server 1] by (simp add: server_issuer_def sample_server_def)
  moreover have "i_newMRID sample_issuer 40732 (sample_server\<lparr>sv_entropy := 2\<rparr>) =
      (Inr (nth_mrid 2), sample_server\<lparr>sv_entropy := 3\<rparr>)"
    using sample_newMRID [of "sample_server\<lparr>sv_entropy := 2\<rparr>" 2] by (simp add: server_issuer_def)
  moreover have "i_cfg sample_issuer = sample_cfg" by (simp add: server_issuer_def)
  ultimately show ?thesis
    by (simp add: sample_prepared_def sample_plan_def sample_id_def sample_ctrl_def sample_request_def sample_cfg_def
        withDefaults_def quo_def Let_def numeral_2_eq_2 wrap64_def)
qed

lemma sample_ctrl_simps [simp]:
  "d_Interval (sample_ctrl n off) = Some \<lparr>Start = 1000 + off, Duration = 600\<rparr>"
  "d_Base (sample_ctrl n off) = Some sample_base" "d_MRID (sample_ctrl n off) = nth_mrid (Suc n)"
  by (simp_all add: sample_ctrl_def newControl_def)

lemma sample_planCopy:
  assumes "srv_inv s" and "srv_lifecycles s = srv_lifecycles sample_server" and "0 \<le> off" and "off < 1000"
  shows "planCopy sample_issuer sample_target (copyOf (sample_ctrl n off) sample_scope (sample_id n off)) cs [] s =
    (Inr (sample_copy n off cs), s)"
proof -
  have "IntervalEnd \<lparr>Start = 1000 + off, Duration = 600\<rparr> = 1600 + off"
    using assms(3,4) by (simp add: IntervalEnd_def End_def wrap64_def)
  then show ?thesis
    using assms(2)
    by (simp add: planCopy_def copyOf_def sv.computeSupersedes_eq [OF assms(1)] io_run finishPlan_def
        sample_target_def io_return_def sample_copy_def zero_lifecycle_def)
qed

lemma sample_planAcross:
  assumes "srv_inv s" and "srv_lifecycles s = srv_lifecycles sample_server"
  shows "planAcross sample_issuer [sample_prepared 0 0, sample_prepared 1 600] [(Key sample_scope, cs)] (\<lambda>_. [])
      [sample_plan 0 0, sample_plan 1 600] s =
    (([(sample_plan 0 0)\<lparr>pl_copies := [sample_copy 0 0 cs]\<rparr>, (sample_plan 1 600)\<lparr>pl_copies := [sample_copy 1 600 cs]\<rparr>], []), s)"
proof -
  note pc = sample_planCopy [OF assms]
  have o0: "\<not> overlaps_in_call (\<lambda>_. []) k c" for k c by (simp add: overlaps_in_call_def)
  have "\<not> Overlaps 1000 (IntervalEnd \<lparr>Start = 1000, Duration = 600\<rparr>) 1600 (IntervalEnd \<lparr>Start = 1600, Duration = 600\<rparr>)"
    by code_simp
  then have o1: "\<not> overlaps_in_call ((\<lambda>_. [])(Key sample_scope := [sample_ctrl 0 0])) (Key sample_scope) (sample_ctrl 1 600)"
    by (simp add: overlaps_in_call_def)
  have link: "(sample_copy n off cs)\<lparr>cp_link := (cp_link (sample_copy n off cs))\<lparr>lc_Origin := [], lc_FleetTotal := False\<rparr>\<rparr> =
      sample_copy n off cs" for n off
    by (simp add: sample_copy_def zero_lifecycle_def)
  have item: "planItemCopies sample_issuer (sample_plan n off) (sample_prepared n off) [(Key sample_scope, cs)] ic s =
      (Inr ((sample_plan n off)\<lparr>pl_copies := [sample_copy n off cs]\<rparr>,
            ic(Key sample_scope := ic (Key sample_scope) @ [sample_ctrl n off])), s)"
    if "\<not> overlaps_in_call ic (Key sample_scope) (sample_ctrl n off)" "0 \<le> off" "off < 1000" for n off ic
    using that pc [OF that(2,3), of n cs] link
    by (simp add: planItemCopies_def sample_prepared_def sample_plan_def io_run io_return_def sample_target_def Let_def)
  show ?thesis
    using item [of "\<lambda>_. []" 0 0] item [OF o1] o0
    by (simp add: sample_plan_def [of 0] sample_plan_def [of "Suc 0"] sample_prepared_def [of 0] sample_prepared_def [of "Suc 0"])
qed

abbreviation sample_fanout :: "(err + AcrossResult list) \<times> server" where
  "sample_fanout \<equiv> IssueAcrossAll sample_issuer (\<lambda>_. None) 1000 [sample_item 0, sample_item 600] None sample_server"

lemma sample_candidates:
  assumes "set cs = {sample_old}" and "0 \<le> off" and "off < 1000"
  shows "set (cp_candidates (sample_copy n off cs)) = {\<lparr>sc_id = ''9'', sc_mrid = ''0A'', sc_before = zero_lifecycle\<rparr>}"
proof -
  have st: "supersedeEligible zero_lifecycle (1000 + off)" by (simp add: supersedeEligible_def zero_lifecycle_def cancelled_def)
  have "replacedBy sample_old (functionSetKey (Some sample_base)) (1000 + off) (1600 + off)"
    using assms(2,3) by (simp add: replacedBy_def sample_old_def Overlaps_def IntervalEnd_def End_def wrap64_def)
  with st have "candidate_of (srv_lifecycles sample_server (Key sample_scope)) (functionSetKey (Some sample_base)) (1000 + off) (1600 + off) sample_old =
      Some \<lparr>sc_id = ''9'', sc_mrid = ''0A'', sc_before = zero_lifecycle\<rparr>"
    by (simp add: candidate_of_def sample_lifecycles upd2_apply sample_old_def sample_hrefs)
  with assms(1) show ?thesis by (auto simp: sample_copy_def candidates_def in_map_filter)
qed

lemma sample_keys:
  "sample_id 0 0 \<noteq> sample_id 1 600" "sample_id n off \<noteq> ''9''" "nth_mrid 1 \<noteq> nth_mrid 2" "nth_mrid k \<noteq> ''0A''"
proof -
  have len: "length (nth_mrid k) = 32" for k by (simp add: nth_mrid_def PutUint32_def)
  have "length (sample_id n off) \<ge> 32" by (simp add: sample_id_def sortableID_def invertHex_def len)
  then show "sample_id n off \<noteq> ''9''" by auto
  show "nth_mrid k \<noteq> ''0A''" using len [of k] by auto
  show "nth_mrid 1 \<noteq> nth_mrid 2"
  proof
    assume "nth_mrid 1 = nth_mrid 2"
    then have "replicate 12 (word_of_nat 1 :: 8 word) = replicate 12 (word_of_nat 2)"
      by (intro upper_hex_of_inj) (simp add: nth_mrid_def)
    then show False by (simp add: replicate_eq_replicate)
  qed
  have prefix: "take 11 (sample_id n off) = take 11 (fmt_d11 (1000 + off))" if "0 \<le> off" "off < 1000" for n off
    using that fmt_d11_in_range [of "1000 + off"] by (simp add: sample_id_def sortableID_def idBase_def)
  have "take 11 (fmt_d11 1000) \<noteq> take 11 (fmt_d11 1600)" by code_simp
  then show "sample_id 0 0 \<noteq> sample_id 1 600" using prefix [of 0 0] prefix [of 600 1] by auto
qed

lemma sample_storable:
  assumes "set cs = {sample_old}"
  shows "storable [(sample_copy 0 0 cs, sample_id 0 0), (sample_copy 1 600 cs, sample_id 1 600)]
    (srv_controls sample_server) (srv_lifecycles sample_server)"
proof -
  have "d_MRID sample_old = ''0A''" by (simp add: sample_old_def)
  with sample_keys sample_keys(3) [symmetric] sample_keys(2) [symmetric] sample_keys(4) [symmetric] show ?thesis
    by (auto simp: storable_def sample_copy_def sample_target_def sample_controls sample_lifecycles upd2_apply
        mrid_free_def copyOf_def numeral_2_eq_2 split: if_splits)
qed

lemma sample_items_ok: "items_ok [sample_item 0, sample_item 600]"
  by (auto simp: items_ok_def record_writes_def check_reads_def unchanged_def sample_item_def sample_record_def sample_target_def)

lemma sample_fanout_succeeds:
  "\<exists>rs t cs. sample_fanout = (Inr rs, t) \<and> set cs = {sample_old} \<and>
     map ar_Control rs = [sample_ctrl 0 0, sample_ctrl 1 600] \<and>
     srv_controls t = all_controls [(sample_copy 0 0 cs, sample_id 0 0), (sample_copy 1 600 cs, sample_id 1 600)]
       (srv_controls sample_server) \<and>
     srv_lifecycles t = all_lifecycles [(sample_copy 0 0 cs, sample_id 0 0), (sample_copy 1 600 cs, sample_id 1 600)]
       (srv_lifecycles sample_server)"
proof -
  obtain cs where rd: "readScopes sample_issuer [sample_prepared 0 0, sample_prepared 1 600] sample_server =
      (Inr ([(Key sample_scope, cs)], []), sample_server)" and cs: "set cs = {sample_old}"
    using sample_readScopes by blast
  define ps where "ps = [(sample_plan 0 0)\<lparr>pl_copies := [sample_copy 0 0 cs]\<rparr>, (sample_plan 1 600)\<lparr>pl_copies := [sample_copy 1 600 cs]\<rparr>]"
  let ?s = "sample_server\<lparr>sv_entropy := 3\<rparr>"
  have same: "srv_inv ?s" "healthy ?s" "srv_controls ?s = srv_controls sample_server" "srv_lifecycles ?s = srv_lifecycles sample_server"
    using sample_inv by (simp_all add: srv_inv_def healthy_def srv_controls_def srv_lifecycles_def)
  have prep: "prepareAcross sample_issuer 1000 0 [sample_item 0, sample_item 600] = ([sample_prepared 0 0, sample_prepared 1 600], [])"
    by (simp add: sample_prepareItem)
  have fold: "foldl (\<lambda>t c. if t \<le> d_CreationTime c then wrap64 (d_CreationTime c + 1) else t) 1000 xs = 1000"
    if "set xs \<subseteq> {sample_old}" for xs
    using that by (induction xs) (auto simp: sample_old_def)
  have first: "nextCreationTime 1000 [cs] = 1000" using fold [of cs] cs by (simp add: nextCreationTime_def)
  have "across_planned sample_issuer (\<lambda>_. None) 1000 2 None [sample_prepared 0 0, sample_prepared 1 600] []
      [(Key sample_scope, cs)] [] sample_server = (Inr ps, ?s)"
    using sample_resolve sample_planAcross [OF same(1,4), of cs] first
    by (simp add: across_planned_def sample_prepared_def [of 0] sample_prepared_def [of "Suc 0"]
        with_errors_def refusal_of_plan_def ps_def)
  then have run: "sample_fanout = writeAcross sample_issuer ps ?s"
    using prep rd by (simp add: IssueAcrossAll_def acrossAll_def io_run numeral_2_eq_2)
  have plan: "plan_ok (srv_lifecycles ?s) (sample_copy n off cs)" for n off
    using candidates_before by (fastforce simp: plan_ok_def same sample_copy_def copyOf_def sample_target_def)
  have recs: "record_writes (pl_record p)" if "p \<in> set ps" for p
    using that by (auto simp: ps_def sample_plan_def record_writes_def sample_record_def)
  have ok: "\<forall>p \<in> set ps. sv.record_ok (pl_record p) \<and> (\<forall>cp \<in> set (pl_copies p). plan_ok (srv_lifecycles ?s) cp)"
  proof (intro ballI conjI)
    show "sv.record_ok (pl_record p)" if "p \<in> set ps" for p using record_writes_ok [OF recs [OF that]] .
    show "plan_ok (srv_lifecycles ?s) cp" if "p \<in> set ps" "cp \<in> set (pl_copies p)" for p cp
      using that plan by (auto simp: ps_def)
  qed
  have pc: "planned_copies ps = [(sample_copy 0 0 cs, sample_id 0 0), (sample_copy 1 600 cs, sample_id 1 600)]"
    by (simp add: planned_copies_def ps_def sample_plan_def)
  have st: "storable (planned_copies ps) (srv_controls ?s) (srv_lifecycles ?s)"
    using sample_storable [OF cs] by (simp add: pc same)
  have c0: "sv.copies ?s {} {} ?s" using same(1) by (simp add: sv.copies_def copies_inv_start)
  have "\<exists>rs t. write_items sample_issuer 2 [] ps ?s = (Inr rs, t) \<and> healthy t"
    by (rule svw.write_items_total [OF c0 same(2) ok _ st])
      (auto simp: ps_def sample_plan_def sample_record_def)
  then obtain rs t where w: "write_items sample_issuer 2 [] ps ?s = (Inr rs, t)" by blast
  have law: "rs = map item_result ps" "srv_controls t = all_controls (planned_copies ps) (srv_controls ?s)"
      "srv_lifecycles t = all_lifecycles (planned_copies ps) (srv_lifecycles ?s)"
    using sv.write_items_law [OF _ _ _ ok w] c0 by simp_all
  have ctl: "map ar_Control rs = [sample_ctrl 0 0, sample_ctrl 1 600]"
    unfolding law(1) by (simp add: ps_def item_result_def sample_plan_def)
  have "sample_fanout = (Inr rs, t)" using run w by (simp add: writeAcross_def ps_def numeral_2_eq_2)
  then show ?thesis
    by (intro exI [of _ rs] exI [of _ t] exI [of _ cs] conjI cs ctl law(2,3) [unfolded pc same(3,4)])
qed

section \<open>Properties\<close>

text \<open>
  C4: the contract of a fan-out. On success there is one planned control per item, each with a
  copy in every one of its scopes, and the stores are exactly the earlier ones with every copy
  written in order. A plain error leaves both stores and everything else as they were. An
  error that says something may remain leaves a legal state: every stored control keeps its
  lifecycle record, no record is lost, and every changed record names a stored control.
\<close>

theorem IssueAcrossAll_all_or_nothing:
  assumes "srv_inv s" and "items_ok items"
    and "IssueAcrossAll (server_issuer src cfg build) ctx now items check s = (r, t)"
  shows "srv_inv t \<and>
    (case r of
       Inl e \<Rightarrow>
         legal_rest (srv_controls s) (srv_lifecycles s) (srv_controls t) (srv_lifecycles t) \<and>
         (\<not> may_remain e \<longrightarrow> unchanged s t)
     | Inr rs \<Rightarrow> \<exists>existing planned. rs = map item_result planned \<and>
         list_all2 (item_issued (srv_lifecycles s) existing) items planned \<and>
         (\<forall>it \<in> set items. \<forall>tg \<in> set (a_Targets it).
            card (dom (srv_controls s (Key (t_Scope tg)))) < 2 ^ 32 \<longrightarrow>
            (\<exists>cs. map_of existing (Key (t_Scope tg)) = Some cs \<and> set cs = ran (srv_controls s (Key (t_Scope tg))))) \<and>
         srv_controls t = all_controls (planned_copies planned) (srv_controls s) \<and>
         srv_lifecycles t = all_lifecycles (planned_copies planned) (srv_lifecycles s))"
  using sv.IssueAcrossAll_law [OF assms(1) items_ok_law [OF assms(2)] assms(3)]
  by (cases r) (fastforce simp: unchanged_def sv.lists_ok_def)+

theorem IssueAcrossAll_all_or_nothing_witness:
  "\<exists>rs t existing planned. sample_fanout = (Inr rs, t) \<and> rs = map item_result planned \<and>
     list_all2 (item_issued (srv_lifecycles sample_server) existing) [sample_item 0, sample_item 600] planned"
proof -
  obtain rs t where run: "sample_fanout = (Inr rs, t)" using sample_fanout_succeeds by blast
  from IssueAcrossAll_all_or_nothing [OF sample_inv(1) sample_items_ok run] run show ?thesis by auto
qed

text \<open>
  C26: replicating. On success the stores are the earlier ones with each replica that its scope
  did not hold written in order: the copy under the replica's id, its lifecycle record with the
  replica's link and the mark of the first newer control that supersedes it, and its own mark on
  the older controls it supersedes; a replica that is there is skipped, and the results list the
  copies written. On an error that is no \<open>UndoError\<close> nothing changed. After an \<open>UndoError\<close> some
  of the copies may remain; what remains is legal: every stored control keeps its lifecycle
  record, no record is lost, and every changed record names a stored control. On every outcome
  the controls that were stored stay as they were.
\<close>

theorem Replicate_contract:
  assumes "srv_inv s" and "\<forall>r \<in> set replicas. check_reads (t_Fleet (rp_Target r))"
    and "Replicate (server_issuer src cfg build) replicas s = (res, t)"
  shows "srv_inv t \<and> srv_rest t = srv_rest s \<and>
    (\<forall>k x c. srv_controls s k x = Some c \<longrightarrow> srv_controls t k x = Some c) \<and>
    legal_rest (srv_controls s) (srv_lifecycles s) (srv_controls t) (srv_lifecycles t) \<and>
    (case res of
       Inl e \<Rightarrow> \<not> as_undo e \<longrightarrow> unchanged s t
     | Inr out \<Rightarrow>
         replicas_stored replicas out (srv_controls s) (srv_lifecycles s) (srv_controls t) (srv_lifecycles t) \<and>
         (\<forall>r \<in> set replicas. srv_controls t (Key (t_Scope (rp_Target r))) (rp_ID r) \<noteq> None))"
proof -
  have "\<forall>r \<in> set replicas. sv.fleet_reads (t_Fleet (rp_Target r))"
    using assms(2) by (auto simp: check_reads_def unchanged_def)
  from sv.Replicate_law [OF assms(1) this assms(3)] show ?thesis
    by (cases res) (auto simp: grown_def unchanged_def dest: replicas_stored_all)
qed

text \<open>A control recorded after the one of the sample scope, to be replicated beside it.\<close>

definition sample_later :: DERControl where
  "sample_later = newControl sample_base ''0B'' [] 950 1000 600"

definition sample_replica :: "server Replica" where
  "sample_replica = \<lparr>rp_Target = sample_target, rp_ID = ''8'', rp_Control = sample_later, rp_Origin = [], rp_FleetTotal = True\<rparr>"

lemma sample_replica_written:
  "\<exists>out t. Replicate sample_issuer [sample_replica] sample_server = (Inr out, t)"
proof -
  let ?s = sample_server and ?k = "Key sample_scope"
  obtain l where l: "controls_List sample_issuer ?k unbounded_options ?s = (Inr l, ?s)" "set (lr_Items l) = {sample_old}"
    using sample_list by blast
  have prog: "checkProgram sample_issuer sample_scope ?s = (Inr (), ?s)"
    using sample_reads(1) by (simp add: checkProgram_def io_run sample_scope_def io_return_def)
  have none: "srv_controls ?s ?k ''8'' = None" "srv_lifecycles ?s ?k ''8'' = None"
    by (simp_all add: sample_controls sample_lifecycles upd2_apply)
  define c where "c = copyOf sample_later sample_scope ''8''"
  have c: "d_CreationTime c = 950" "d_Interval c = Some \<lparr>Start = 1000, Duration = 600\<rparr>" "d_MRID c = ''0B''"
    by (simp_all add: c_def copyOf_def sample_later_def newControl_def)
  have newer: "filter (\<lambda>d. 950 < d_CreationTime d) (lr_Items l) = []"
    using l(2) by (auto simp: filter_empty_conv sample_old_def)
  obtain p where plan: "planReplica sample_issuer sample_replica ?s = (Inr (Some p), ?s)"
    and p: "cp_target p = sample_target" "cp_ctrl p = c"
      "\<exists>cs. cp_candidates p = candidates (srv_lifecycles ?s ?k) cs (d_Base c) 1000 (IntervalEnd \<lparr>Start = 1000, Duration = 600\<rparr>)"
    using prog l(1) newer c none sv.ctl.get_law [OF sample_inv(1), of sample_src sample_cfg sample_build ?k "''8''"]
    by (auto simp: planReplica_def sample_replica_def sample_target_def io_run io_try_def io_return_def Let_def c_def [symmetric]
        sv.computeSupersedes_eq [OF sample_inv(1)] finishPlan_def)
  have "\<exists>w t. write_copy sample_issuer p ''8'' ?s = (Inr w, t) \<and> healthy t"
  proof (rule svw.write_copy_total [OF sample_inv])
    show "d_Interval (cp_ctrl p) \<noteq> None" by (simp add: p c)
    show "\<forall>cd \<in> set (cp_candidates p). srv_lifecycles ?s (plan_key p) (sc_id cd) \<noteq> None"
      using p(1,3) candidates_before by (fastforce simp: sample_target_def)
    show "mrid_free (srv_controls ?s) (d_MRID (cp_ctrl p)) (plan_key p) ''8''"
      by (auto simp: mrid_free_def p c sample_controls upd2_apply sample_old_def split: if_splits)
  qed (use none p in \<open>simp_all add: sample_target_def\<close>)
  then obtain w t where "write_copy sample_issuer p ''8'' ?s = (Inr w, t)" by blast
  then show ?thesis
    using plan by (simp add: Replicate_def List.map_filter_simps replica_error_def sample_replica_def sample_target_def
        bounded_fleet_def sample_later_def newControl_def)
qed

theorem Replicate_contract_witness:
  "\<exists>out t. Replicate sample_issuer [sample_replica] sample_server = (Inr out, t) \<and>
     srv_controls t (Key sample_scope) ''8'' = Some (copyOf sample_later sample_scope ''8'') \<and>
     srv_controls t (Key sample_scope) ''9'' = Some sample_old"
proof -
  obtain out t where run: "Replicate sample_issuer [sample_replica] sample_server = (Inr out, t)"
    using sample_replica_written by blast
  have "check_reads (t_Fleet sample_target)" by (auto simp: check_reads_def unchanged_def sample_target_def)
  then have "\<forall>r \<in> set [sample_replica]. check_reads (t_Fleet (rp_Target r))" by (simp add: sample_replica_def)
  from Replicate_contract [OF sample_inv(1) this run] run show ?thesis
    by (auto simp: replica_stored_def Let_def upd2_apply replica_control_def sample_replica_def sample_target_def
        sample_controls)
qed

text \<open>
  C27: the mark of the last copy wins. Take a successful call, a control that a planned copy
  replaces in its scope, and let no later copy of the call there replace it too. Whatever earlier
  copies of the call replace the control, its record carries the mark of that last one: until
  the last copy's start its state is what it was before the call, and from then on it is
  retired. So when an earlier item replaces the same control from an earlier start, the
  control stays in force beside that item's copy until the last one starts.
\<close>

theorem last_copy_marks:
  assumes "srv_inv s" and "items_ok items"
    and "IssueAcrossAll (server_issuer src cfg build) ctx now items check s = (Inr rs, t)"
  shows "\<exists>existing planned. rs = map item_result planned \<and>
    list_all2 (item_issued (srv_lifecycles s) existing) items planned \<and>
    (\<forall>it \<in> set items. \<forall>tg \<in> set (a_Targets it).
       card (dom (srv_controls s (Key (t_Scope tg)))) < 2 ^ 32 \<longrightarrow>
       (\<exists>cs. map_of existing (Key (t_Scope tg)) = Some cs \<and> set cs = ran (srv_controls s (Key (t_Scope tg))))) \<and>
    (\<forall>ws p x ws' y d any. planned_copies planned = ws @ (p, x) # ws' \<and> y \<in> cand_ids p \<and>
        (\<forall>(q, z) \<in> set ws'. \<not> (plan_key q = plan_key p \<and> (y = z \<or> y \<in> cand_ids q))) \<and>
        ControlID (d_Href d) = Some y \<longrightarrow>
      live_state (srv_lifecycles t (plan_key p)) d any =
        (if any < plan_start p then live_state (srv_lifecycles s (plan_key p)) d any else Retired))"
proof -
  from sv.IssueAcrossAll_law [OF assms(1) items_ok_law [OF assms(2)] assms(3)]
  obtain existing planned where rs: "rs = map item_result planned"
    and it: "list_all2 (item_issued (srv_lifecycles s) existing) items planned"
    and L: "srv_lifecycles t = all_lifecycles (planned_copies planned) (srv_lifecycles s)"
    and ex: "\<forall>it \<in> set items. \<forall>tg \<in> set (a_Targets it).
       card (dom (srv_controls s (Key (t_Scope tg)))) < 2 ^ 32 \<longrightarrow>
       (\<exists>cs. map_of existing (Key (t_Scope tg)) = Some cs \<and> set cs = ran (srv_controls s (Key (t_Scope tg))))"
    by (fastforce simp: sv.lists_ok_def)
  show ?thesis
  proof (rule exI [of _ existing], rule exI [of _ planned], intro conjI allI impI, rule rs, rule it, rule ex, elim conjE)
    fix ws p x ws' y any and d :: DERControl
    assume "planned_copies planned = ws @ (p, x) # ws'" "y \<in> cand_ids p"
      "\<forall>(q, z) \<in> set ws'. \<not> (plan_key q = plan_key p \<and> (y = z \<or> y \<in> cand_ids q))" "ControlID (d_Href d) = Some y"
    then show "live_state (srv_lifecycles t (plan_key p)) d any =
        (if any < plan_start p then live_state (srv_lifecycles s (plan_key p)) d any else Retired)"
      unfolding L by (rule last_mark_state [OF it])
  qed
qed

lemma sample_item_copy:
  assumes "item_issued (srv_lifecycles sample_server) existing (sample_item off) q" and "pl_ctrl q = sample_ctrl n off"
    and "map_of existing (Key sample_scope) = Some cs" and "set cs = {sample_old}" and "0 \<le> off" and "off < 1000"
  obtains p where "pl_copies q = [p]" and "plan_key p = Key sample_scope" and "plan_start p = 1000 + off" and "cand_ids p = {''9''}"
proof -
  from assms(1) obtain origin p where p: "pl_copies q = [p]"
    and cp: "copy_planned (srv_lifecycles sample_server) existing q origin False sample_target p"
    by (auto simp: item_issued_def sample_item_def list_all2_Cons1)
  have "IntervalEnd \<lparr>Start = 1000 + off, Duration = 600\<rparr> = 1600 + off"
    using assms(5,6) by (simp add: IntervalEnd_def End_def wrap64_def)
  then have "cp_candidates p = cp_candidates (sample_copy n off cs)"
    using cp assms(2,3) by (simp add: copy_planned_def Let_def sample_target_def sample_copy_def)
  with sample_candidates [OF assms(4-6), of n] have "cand_ids p = {''9''}" by simp
  with p cp assms(2) that show thesis
    by (simp add: copy_planned_def Let_def sample_target_def plan_start_def copyOf_def)
qed

theorem last_copy_marks_witness:
  "\<exists>rs t. sample_fanout = (Inr rs, t) \<and>
     live_state (srv_lifecycles sample_server (Key sample_scope)) sample_old 1200 = InForce \<and>
     live_state (srv_lifecycles t (Key sample_scope)) sample_old 1200 = InForce \<and>
     live_state (srv_lifecycles t (Key sample_scope)) sample_old 1700 = Retired"
proof -
  obtain rs t where run: "sample_fanout = (Inr rs, t)"
    and rs: "map ar_Control rs = [sample_ctrl 0 0, sample_ctrl 1 600]"
    using sample_fanout_succeeds by (elim exE conjE) (rule that)
  from last_copy_marks [OF sample_inv(1) sample_items_ok run]
  obtain existing planned where r: "rs = map item_result planned"
    and it: "list_all2 (item_issued (srv_lifecycles sample_server) existing) [sample_item 0, sample_item 600] planned"
    and ex: "\<forall>it \<in> set [sample_item 0, sample_item 600]. \<forall>tg \<in> set (a_Targets it).
       card (dom (srv_controls sample_server (Key (t_Scope tg)))) < 2 ^ 32 \<longrightarrow>
       (\<exists>cs. map_of existing (Key (t_Scope tg)) = Some cs \<and> set cs = ran (srv_controls sample_server (Key (t_Scope tg))))"
    and marks: "\<forall>ws p x ws' y d any. planned_copies planned = ws @ (p, x) # ws' \<and> y \<in> cand_ids p \<and>
        (\<forall>(q, z) \<in> set ws'. \<not> (plan_key q = plan_key p \<and> (y = z \<or> y \<in> cand_ids q))) \<and>
        ControlID (d_Href d) = Some y \<longrightarrow>
      live_state (srv_lifecycles t (plan_key p)) d any =
        (if any < plan_start p then live_state (srv_lifecycles sample_server (plan_key p)) d any else Retired)"
    by (elim exE conjE) (rule that)
  have "ran (srv_controls sample_server (Key sample_scope)) = {sample_old}"
    by (auto simp: sample_controls ran_def upd2_apply)
  with ex sample_dom obtain cs where cs: "map_of existing (Key sample_scope) = Some cs" "set cs = {sample_old}"
    by (auto simp: sample_item_def sample_target_def)
  from it obtain q0 q1 where q: "planned = [q0, q1]"
      "item_issued (srv_lifecycles sample_server) existing (sample_item 0) q0"
      "item_issued (srv_lifecycles sample_server) existing (sample_item 600) q1"
    by (auto simp: list_all2_Cons1)
  with rs r have ctl: "pl_ctrl q0 = sample_ctrl 0 0" "pl_ctrl q1 = sample_ctrl 1 600" by (simp_all add: item_result_def)
  obtain p0 where p0: "pl_copies q0 = [p0]" using sample_item_copy [OF q(2) ctl(1) cs] by auto
  obtain p1 where p1: "pl_copies q1 = [p1]" "plan_key p1 = Key sample_scope" "plan_start p1 = 1600" "cand_ids p1 = {''9''}"
    using sample_item_copy [OF q(3) ctl(2) cs] by auto
  have "planned_copies planned = [(p0, pl_id q0)] @ (p1, pl_id q1) # []" by (simp add: q(1) planned_copies_def p0 p1(1))
  from marks [rule_format, of "[(p0, pl_id q0)]" p1 "pl_id q1" "[]" "''9''" sample_old] this p1(2-4)
  have st: "live_state (srv_lifecycles t (Key sample_scope)) sample_old any =
      (if any < 1600 then live_state (srv_lifecycles sample_server (Key sample_scope)) sample_old any else Retired)" for any
    by (simp add: sample_old_def sample_hrefs)
  have "live_state (srv_lifecycles sample_server (Key sample_scope)) sample_old 1200 = InForce"
    by (simp add: live_state_def sample_lifecycles upd2_apply controlIDOf_def sample_old_def sample_hrefs) code_simp
  with st run show ?thesis by simp
qed

end
