(* ===== verification/Management.thy ===== *)
theory Management
  imports Errors
begin

text \<open>
  \<open>pkg/sep2srv/lfdi\<close> and the store of management pairs, \<open>pkg/store/memory/enddevicemanagement.go\<close>
  with its persistence: which LFDI manages which EndDevice. The store keeps the pairs twice, as
  \<open>managerOf\<close> and as its inverse \<open>managedBy\<close>, and writes the snapshot of the coming state
  before it applies the change. The file and the script of failing writes are modelled as for
  the other snapshot stores. A call holds \<open>persistMu\<close> throughout, so it is one atomic step.
\<close>

section \<open>LFDIs\<close>

definition isHexDigit :: "char \<Rightarrow> bool" where
  "isHexDigit c \<longleftrightarrow>
     CHR ''0'' \<le> c \<and> c \<le> CHR ''9'' \<or> CHR ''a'' \<le> c \<and> c \<le> CHR ''f'' \<or> CHR ''A'' \<le> c \<and> c \<le> CHR ''F''"

definition allHex :: "string \<Rightarrow> bool" where
  "allHex s = list_all isHexDigit s"

definition IsHex40 :: "string \<Rightarrow> bool" where
  "IsHex40 s \<longleftrightarrow> length s = 40 \<and> allHex s"

text \<open>\<open>strings.ToUpper\<close> and \<open>strings.ToLower\<close> on ASCII text, which every LFDI is.\<close>

definition upper_char :: "char \<Rightarrow> char" where
  "upper_char c = (if CHR ''a'' \<le> c \<and> c \<le> CHR ''z'' then char_of (of_char c - 32 :: nat) else c)"

definition lower_char :: "char \<Rightarrow> char" where
  "lower_char c = (if CHR ''A'' \<le> c \<and> c \<le> CHR ''Z'' then char_of (of_char c + 32 :: nat) else c)"

definition ToUpper :: "string \<Rightarrow> string" where
  "ToUpper s = map upper_char s"

definition ToLower :: "string \<Rightarrow> string" where
  "ToLower s = map lower_char s"

definition IsCanonical :: "string \<Rightarrow> bool" where
  "IsCanonical s \<longleftrightarrow> IsHex40 s \<and> s = ToUpper s"

text \<open>\<open>strings.Trim(s, " \t\r\n")\<close>\<close>

definition trim_hexBinary :: "string \<Rightarrow> string" where
  "trim_hexBinary s =
     (let sp = (\<lambda>c. c \<in> set [CHR '' '', CHR 0x09, CHR 0x0D, CHR 0x0A])
      in rev (dropWhile sp (rev (dropWhile sp s))))"

definition Canonical :: "string \<Rightarrow> string option" where
  "Canonical s =
     (let t = trim_hexBinary s in if \<not> IsHex40 t then None else Some (ToUpper t))"

section \<open>The store\<close>

record managementPairRecord =
  ManagerLFDI :: string
  ManagedLFDI :: string

record mgmt_store =
  managerOf :: "string \<rightharpoonup> string"
  managedBy :: "string \<rightharpoonup> string set"
  m_persistPath :: string
  m_disk :: "managementPairRecord list"
  m_faults :: "bool list"

definition NewEndDeviceManagementStore :: mgmt_store where
  "NewEndDeviceManagementStore =
     \<lparr>managerOf = Map.empty, managedBy = Map.empty, m_persistPath = [], m_disk = [], m_faults = []\<rparr>"

definition Mgmt_ManagerOf :: "mgmt_store \<Rightarrow> string \<Rightarrow> err + string" where
  "Mgmt_ManagerOf s managed =
     (case managerOf s managed of None \<Rightarrow> Inl ErrNotFound | Some m \<Rightarrow> Inr m)"

text \<open>\<open>s.managedBy[m]\<close>: a missing entry reads as the nil map, which is empty.\<close>

definition managed_set :: "mgmt_store \<Rightarrow> string \<Rightarrow> string set" where
  "managed_set s m = (case managedBy s m of None \<Rightarrow> {} | Some S \<Rightarrow> S)"

definition Mgmt_ManagedBy :: "mgmt_store \<Rightarrow> string \<Rightarrow> string list" where
  "Mgmt_ManagedBy s m = sorted_list_of_set (managed_set s m)"

definition Managers :: "mgmt_store \<Rightarrow> string list" where
  "Managers s = sorted_list_of_set (dom (managedBy s))"

definition recordsLocked :: "mgmt_store \<Rightarrow> managementPairRecord list" where
  "recordsLocked s =
     map (\<lambda>d. \<lparr>ManagerLFDI = the (managerOf s d), ManagedLFDI = d\<rparr>)
       (sorted_list_of_set (dom (managerOf s)))"

definition persistRecords :: "managementPairRecord list \<Rightarrow> (err, mgmt_store, unit) io" where
  "persistRecords records s =
     (if m_persistPath s = [] then (Inr (), s)
      else let sorted_records = sort_key ManagedLFDI records
           in case m_faults s of
                [] \<Rightarrow> (Inr (), s\<lparr>m_disk := sorted_records\<rparr>)
              | False # fs \<Rightarrow> (Inr (), s\<lparr>m_disk := sorted_records, m_faults := fs\<rparr>)
              | True # fs \<Rightarrow>
                  (Inl (Errorf ''enddevice management persistence'' [Errorf ''atomicfile'' []]),
                   s\<lparr>m_faults := fs\<rparr>))"

text \<open>
  \<open>mutate\<close>: \<open>build\<close> returns an error, or the candidate snapshot and the step that makes it
  live, both nil for a call with nothing to do. The step can only panic.
\<close>

type_synonym mgmt_build =
  "mgmt_store \<Rightarrow> err + managementPairRecord list option \<times> (err, mgmt_store, unit) io option"

definition mutate :: "mgmt_build \<Rightarrow> (err, mgmt_store, unit) io" where
  "mutate build s =
     (case build s of
        Inl e \<Rightarrow> (Inl e, s)
      | Inr (None, None) \<Rightarrow> (Inr (), s)
      | Inr (Some _, None) \<Rightarrow>
          (Inl (Errorf ''enddevice management: build returned records with no apply'' []), s)
      | Inr (None, Some _) \<Rightarrow>
          (Inl (Errorf ''enddevice management: build returned apply with no records'' []), s)
      | Inr (Some records, Some apply_step) \<Rightarrow>
          io_bind (persistRecords records) (\<lambda>_. apply_step) s)"

definition checkCanonicalLFDI :: "string \<Rightarrow> err option" where
  "checkCanonicalLFDI lfdi =
     (if \<not> IsCanonical lfdi
      then Some (Errorf ''enddevice management: not in canonical form'' [ErrInvalidManagementPair])
      else None)"

abbreviation manages_itself :: err where
  "manages_itself \<equiv> Errorf ''enddevice management: cannot manage itself'' [ErrInvalidManagementPair]"

abbreviation has_manager :: err where
  "has_manager \<equiv> Errorf ''enddevice management: already has a manager'' [ErrAlreadyExists]"

section \<open>The operations that write\<close>

definition assign_apply :: "string \<Rightarrow> string \<Rightarrow> (err, mgmt_store, unit) io" where
  "assign_apply manager managed s =
     (Inr (), s\<lparr>managerOf := (managerOf s)(managed \<mapsto> manager),
               managedBy := (managedBy s)(manager \<mapsto> insert managed (managed_set s manager))\<rparr>)"

definition assign_build :: "string \<Rightarrow> string \<Rightarrow> mgmt_build" where
  "assign_build manager managed s =
     (case managerOf s managed of
        Some current \<Rightarrow> if current = manager then Inr (None, None) else Inl has_manager
      | None \<Rightarrow>
          Inr (Some (recordsLocked s @ [\<lparr>ManagerLFDI = manager, ManagedLFDI = managed\<rparr>]),
               Some (assign_apply manager managed)))"

definition Assign :: "string \<Rightarrow> string \<Rightarrow> (err, mgmt_store, unit) io" where
  "Assign manager managed =
     io_bind (io_check (checkCanonicalLFDI manager)) (\<lambda>_.
     io_bind (io_check (checkCanonicalLFDI managed)) (\<lambda>_.
     if manager = managed then io_fail manages_itself
     else mutate (assign_build manager managed)))"

definition remove_apply :: "string \<Rightarrow> string \<Rightarrow> (err, mgmt_store, unit) io" where
  "remove_apply manager managed s =
     (let left = managed_set s manager - {managed}
      in (Inr (), s\<lparr>managerOf := (managerOf s)(managed := None),
                    managedBy := (if left = {} then (managedBy s)(manager := None)
                                  else (managedBy s)(manager \<mapsto> left))\<rparr>))"

definition remove_build :: "string \<Rightarrow> string \<Rightarrow> mgmt_build" where
  "remove_build managed onlyManager s =
     (case managerOf s managed of
        None \<Rightarrow> Inl ErrNotFound
      | Some manager \<Rightarrow>
          if onlyManager \<noteq> [] \<and> manager \<noteq> onlyManager then Inl ErrNotFound
          else Inr (Some (filter (\<lambda>r. ManagedLFDI r \<noteq> managed) (recordsLocked s)),
                    Some (remove_apply manager managed)))"

definition Mgmt_remove :: "string \<Rightarrow> string \<Rightarrow> (err, mgmt_store, unit) io" where
  "Mgmt_remove managed onlyManager = mutate (remove_build managed onlyManager)"

definition Unassign :: "string \<Rightarrow> (err, mgmt_store, unit) io" where
  "Unassign managed = Mgmt_remove managed []"

definition Release :: "string \<Rightarrow> string \<Rightarrow> (err, mgmt_store, unit) io" where
  "Release manager managed =
     (if manager = [] then io_fail ErrNotFound else Mgmt_remove managed manager)"

definition rekeyManager_apply :: "string set \<Rightarrow> string \<Rightarrow> string \<Rightarrow> (err, mgmt_store, unit) io" where
  "rekeyManager_apply managed old new s =
     (Inr (), s\<lparr>managerOf := (\<lambda>d. if d \<in> managed then Some new else managerOf s d),
               managedBy := ((managedBy s)(new \<mapsto> managed))(old := None)\<rparr>)"

definition rekeyManager_build :: "string \<Rightarrow> string \<Rightarrow> mgmt_build" where
  "rekeyManager_build old new s =
     (let managed = managed_set s old
      in if managed = {} then Inl ErrNotFound
         else if old = new then Inr (None, None)
         else if new \<in> managed
         then Inl (Errorf ''enddevice management: rekey would manage itself'' [ErrInvalidManagementPair])
         else if managed_set s new \<noteq> {}
         then Inl (Errorf ''enddevice management: already manages other devices'' [ErrAlreadyExists])
         else Inr (Some (map (\<lambda>r. if ManagerLFDI r = old then r\<lparr>ManagerLFDI := new\<rparr> else r) (recordsLocked s)),
                   Some (rekeyManager_apply managed old new)))"

definition RekeyManager :: "string \<Rightarrow> string \<Rightarrow> (err, mgmt_store, unit) io" where
  "RekeyManager old new =
     io_bind (io_check (checkCanonicalLFDI old)) (\<lambda>_.
     io_bind (io_check (checkCanonicalLFDI new)) (\<lambda>_.
     mutate (rekeyManager_build old new)))"

text \<open>A write into a manager's missing set is a write to a nil map, which panics.\<close>

definition rekeyManaged_apply :: "string \<Rightarrow> string \<Rightarrow> string \<Rightarrow> (err, mgmt_store, unit) io" where
  "rekeyManaged_apply manager old new s =
     (let s' = s\<lparr>managerOf := ((managerOf s)(old := None))(new \<mapsto> manager)\<rparr>
      in case managedBy s manager of
           None \<Rightarrow> (Inl (Panic ''assignment to entry in nil map''), s')
         | Some S \<Rightarrow> (Inr (), s'\<lparr>managedBy := (managedBy s)(manager \<mapsto> insert new (S - {old}))\<rparr>))"

definition rekeyManaged_build :: "string \<Rightarrow> string \<Rightarrow> mgmt_build" where
  "rekeyManaged_build old new s =
     (case managerOf s old of
        None \<Rightarrow> Inl ErrNotFound
      | Some manager \<Rightarrow>
          if old = new then Inr (None, None)
          else if new = manager then Inl manages_itself
          else if managerOf s new \<noteq> None then Inl has_manager
          else Inr (Some (map (\<lambda>r. if ManagedLFDI r = old then r\<lparr>ManagedLFDI := new\<rparr> else r) (recordsLocked s)),
                    Some (rekeyManaged_apply manager old new)))"

definition RekeyManaged :: "string \<Rightarrow> string \<Rightarrow> (err, mgmt_store, unit) io" where
  "RekeyManaged old new =
     io_bind (io_check (checkCanonicalLFDI old)) (\<lambda>_.
     io_bind (io_check (checkCanonicalLFDI new)) (\<lambda>_.
     mutate (rekeyManaged_build old new)))"

section \<open>Loading the file\<close>

text \<open>
  The loop of \<open>loadFromFile\<close>, from the maps built so far; the maps are swapped in only when
  every record passed.
\<close>

fun load_pairs :: "managementPairRecord list \<Rightarrow> (string \<rightharpoonup> string) \<Rightarrow> (string \<rightharpoonup> string set) \<Rightarrow>
    err + (string \<rightharpoonup> string) \<times> (string \<rightharpoonup> string set)" where
  "load_pairs [] mo mb = Inr (mo, mb)"
| "load_pairs (r # rs) mo mb =
     (case checkCanonicalLFDI (ManagerLFDI r) of Some e \<Rightarrow> Inl (Errorf ''record'' [e]) | None \<Rightarrow>
     (case checkCanonicalLFDI (ManagedLFDI r) of Some e \<Rightarrow> Inl (Errorf ''record'' [e]) | None \<Rightarrow>
     if ManagerLFDI r = ManagedLFDI r then Inl (Errorf ''record: cannot manage itself'' [])
     else if mo (ManagedLFDI r) \<noteq> None
     then Inl (Errorf ''record: more than one manager on disk'' [])
     else load_pairs rs (mo(ManagedLFDI r \<mapsto> ManagerLFDI r))
            (mb(ManagerLFDI r \<mapsto>
               insert (ManagedLFDI r) (case mb (ManagerLFDI r) of None \<Rightarrow> {} | Some S \<Rightarrow> S)))))"

text \<open>\<open>file\<close> is what reading and decoding the snapshot gave: an error, or its records (none
  for a missing file).\<close>

definition Mgmt_loadFromFile :: "err + managementPairRecord list \<Rightarrow> (err, mgmt_store, unit) io" where
  "Mgmt_loadFromFile file s =
     (case file of
        Inl e \<Rightarrow> (Inl e, s)
      | Inr records \<Rightarrow>
          if records = [] then (Inr (), s)
          else (case load_pairs records Map.empty Map.empty of
                  Inl e \<Rightarrow> (Inl e, s)
                | Inr (mo, mb) \<Rightarrow> (Inr (), s\<lparr>managerOf := mo, managedBy := mb\<rparr>)))"

definition NewEndDeviceManagementStoreWithPersistence ::
    "string \<Rightarrow> err + managementPairRecord list \<Rightarrow> bool list \<Rightarrow> err + mgmt_store" where
  "NewEndDeviceManagementStoreWithPersistence path file faulty =
     (if path = [] then Inr NewEndDeviceManagementStore
      else (case Mgmt_loadFromFile file NewEndDeviceManagementStore of
              (Inl e, _) \<Rightarrow> Inl (Errorf ''enddevice management persistence: load'' [e])
            | (Inr _, s) \<Rightarrow>
                Inr (s\<lparr>m_persistPath := path, m_disk := (case file of Inl _ \<Rightarrow> [] | Inr rs \<Rightarrow> rs),
                       m_faults := faulty\<rparr>)))"

end
