(* ===== verification/Devices.thy ===== *)
theory Devices
  imports MemStore Management
begin

text \<open>
  The EndDevice store, \<open>pkg/store/memory/enddevice.go\<close> with its persistence: the records by id
  and two indexes, SFDI and LFDI to id. Then who may act for a device
  (\<open>pkg/sep2srv/handlers/enddevice/owner.go\<close>) and which fleet it belongs to
  (\<open>internal/commitment/resolver.go\<close>). Of \<open>sep2.EndDevice\<close> the record has the fields this code
  reads; a client of the record extends it. The locks of the store cover its map and its
  indexes separately; a call is modelled as one step.
\<close>

record EndDevice =
  ed_Href :: string
  ed_SFDI :: string
  ed_LFDI :: string

type_synonym id_index = "string \<rightharpoonup> string"

record edev_store =
  ed_store :: "EndDevice Store"
  sfdiIndex :: id_index
  lfdiIndex :: id_index
  ed_persistPath :: string
  ed_disk :: "(string \<times> EndDevice) list"
  ed_faults :: "bool list"

definition NewEndDeviceStore :: edev_store where
  "NewEndDeviceStore = \<lparr>ed_store = NewStore, sfdiIndex = Map.empty, lfdiIndex = Map.empty,
     ed_persistPath = [], ed_disk = [], ed_faults = []\<rparr>"

section \<open>The indexes\<close>

text \<open>Reading a Go map at a missing key gives the empty string.\<close>

definition index_at :: "id_index \<Rightarrow> string \<Rightarrow> string" where
  "index_at m k = (case m k of None \<Rightarrow> [] | Some v \<Rightarrow> v)"

text \<open>The three methods below treat the SFDI and the LFDI entry alike.\<close>

definition index_put :: "id_index \<Rightarrow> string \<Rightarrow> string \<Rightarrow> id_index" where
  "index_put ix k rid = (if k \<noteq> [] then ix(k \<mapsto> rid) else ix)"

definition index_reset :: "id_index \<Rightarrow> string \<Rightarrow> string \<Rightarrow> string option \<Rightarrow> id_index" where
  "index_reset ix k rid owner = (if index_at ix k = rid then ix(k := owner) else ix)"

definition indexDevice :: "string \<Rightarrow> EndDevice \<Rightarrow> edev_store \<Rightarrow> edev_store" where
  "indexDevice rid d s = s\<lparr>sfdiIndex := index_put (sfdiIndex s) (ed_SFDI d) rid,
     lfdiIndex := index_put (lfdiIndex s) (ed_LFDI d) rid\<rparr>"

definition removeIndex :: "string \<Rightarrow> EndDevice \<Rightarrow> edev_store \<Rightarrow> edev_store" where
  "removeIndex rid d s = s\<lparr>sfdiIndex := index_reset (sfdiIndex s) (ed_SFDI d) rid None,
     lfdiIndex := index_reset (lfdiIndex s) (ed_LFDI d) rid None\<rparr>"

text \<open>\<open>indexSnapshot\<close>: the owners of the two keys, \<open>None\<close> for no owner.\<close>

type_synonym indexSnapshot = "string option \<times> string option"

definition snapshotIndex :: "edev_store \<Rightarrow> EndDevice \<Rightarrow> indexSnapshot" where
  "snapshotIndex s d = (sfdiIndex s (ed_SFDI d), lfdiIndex s (ed_LFDI d))"

definition restoreIndex :: "string \<Rightarrow> EndDevice \<Rightarrow> indexSnapshot \<Rightarrow> edev_store \<Rightarrow> edev_store" where
  "restoreIndex rid d snap s = s\<lparr>sfdiIndex := index_reset (sfdiIndex s) (ed_SFDI d) rid (fst snap),
     lfdiIndex := index_reset (lfdiIndex s) (ed_LFDI d) rid (snd snap)\<rparr>"

section \<open>The operations\<close>

definition snapshotEndDevices :: "edev_store \<Rightarrow> (string \<times> EndDevice) list" where
  "snapshotEndDevices s = map (\<lambda>k. (k, the (data (ed_store s) k))) (keys (ed_store s))"

definition persistEndDeviceSnapshot :: "(err, edev_store, unit) io" where
  "persistEndDeviceSnapshot s =
     (if ed_persistPath s = [] then (Inr (), s)
      else (case ed_faults s of
              [] \<Rightarrow> (Inr (), s\<lparr>ed_disk := snapshotEndDevices s\<rparr>)
            | False # fs \<Rightarrow> (Inr (), s\<lparr>ed_disk := snapshotEndDevices s, ed_faults := fs\<rparr>)
            | True # fs \<Rightarrow>
                (Inl (Errorf ''enddevice persistence'' [Errorf ''atomicfile'' []]), s\<lparr>ed_faults := fs\<rparr>)))"

definition on_store :: "(err, EndDevice Store, 'a) io \<Rightarrow> (err, edev_store, 'a) io" where
  "on_store f s = (case f (ed_store s) of (r, st) \<Rightarrow> (r, s\<lparr>ed_store := st\<rparr>))"

definition E_Get :: "string \<Rightarrow> (err, edev_store, EndDevice) io" where
  "E_Get rid s = (Store_Get (ed_store s) rid, s)"

definition E_Create :: "string \<Rightarrow> EndDevice \<Rightarrow> (err, edev_store, unit) io" where
  "E_Create rid d s =
     (case on_store (Store_Create rid d) s of
        (Inl e, t) \<Rightarrow> (Inl e, t)
      | (Inr _, t) \<Rightarrow>
          (let snap = snapshotIndex t d
           in case persistEndDeviceSnapshot (indexDevice rid d t) of
                (Inr _, u) \<Rightarrow> (Inr (), u)
              | (Inl e, u) \<Rightarrow>
                  (Inl e, snd (on_store (Store_Delete rid) (restoreIndex rid d snap u)))))"

definition E_Update :: "string \<Rightarrow> EndDevice \<Rightarrow> (err, edev_store, unit) io" where
  "E_Update rid d s =
     (case Store_Get (ed_store s) rid of
        Inl e \<Rightarrow> (Inl e, s)
      | Inr old \<Rightarrow>
          (case on_store (Store_Update rid d) (removeIndex rid old s) of
             (Inl e, t) \<Rightarrow> (Inl e, t)
           | (Inr _, t) \<Rightarrow> persistEndDeviceSnapshot (indexDevice rid d t)))"

definition E_Delete :: "string \<Rightarrow> (err, edev_store, unit) io" where
  "E_Delete rid s =
     (case Store_Get (ed_store s) rid of
        Inl e \<Rightarrow> (Inl e, s)
      | Inr old \<Rightarrow>
          (case on_store (Store_Delete rid) (removeIndex rid old s) of
             (Inl e, t) \<Rightarrow> (Inl e, t)
           | (Inr _, t) \<Rightarrow> persistEndDeviceSnapshot t))"

definition GetBySFDI :: "string \<Rightarrow> (err, edev_store, EndDevice) io" where
  "GetBySFDI sfdi s =
     (case sfdiIndex s sfdi of None \<Rightarrow> (Inl ErrNotFound, s) | Some rid \<Rightarrow> E_Get rid s)"

definition GetByLFDI :: "string \<Rightarrow> (err, edev_store, EndDevice) io" where
  "GetByLFDI lfdi s =
     (case lfdiIndex s lfdi of None \<Rightarrow> (Inl ErrNotFound, s) | Some rid \<Rightarrow> E_Get rid s)"

section \<open>Loading the file\<close>

fun load_devices :: "(string \<times> EndDevice) list \<Rightarrow> (err, edev_store, unit) io" where
  "load_devices [] s = (Inr (), s)"
| "load_devices ((rid, d) # rs) s =
     (case on_store (Store_Create rid d) s of
        (Inl e, t) \<Rightarrow> (Inl (Errorf ''rehydrate'' [e]), t)
      | (Inr _, t) \<Rightarrow> load_devices rs (indexDevice rid d t))"

definition NewEndDeviceStoreWithPersistence ::
    "string \<Rightarrow> err + (string \<times> EndDevice) list \<Rightarrow> bool list \<Rightarrow> err + edev_store" where
  "NewEndDeviceStoreWithPersistence path file faulty =
     (if path = [] then Inr NewEndDeviceStore
      else (case file of
              Inl e \<Rightarrow> Inl (Errorf ''enddevice persistence: load'' [e])
            | Inr rs \<Rightarrow>
                (case load_devices rs NewEndDeviceStore of
                   (Inl e, _) \<Rightarrow> Inl (Errorf ''enddevice persistence: load'' [e])
                 | (Inr _, s) \<Rightarrow> Inr (s\<lparr>ed_persistPath := path, ed_disk := rs, ed_faults := faulty\<rparr>))))"

section \<open>Owners and fleets\<close>

text \<open>The two readers the code asks, as operations on a state.\<close>

record 's managers_reader =
  mr_ManagerOf :: "string \<Rightarrow> (err, 's, string) io"
  mr_ManagedBy :: "string \<Rightarrow> (err, 's, string list) io"

definition OwnedBy :: "string \<Rightarrow> string \<Rightarrow> bool" where
  "OwnedBy storedLFDI callerLFDI \<longleftrightarrow> storedLFDI \<noteq> [] \<and> callerLFDI \<noteq> [] \<and> storedLFDI = callerLFDI"

text \<open>\<open>(manager, managed, err)\<close>: \<open>Inr None\<close> is an unmanaged device.\<close>

definition ManagerOf :: "'s managers_reader \<Rightarrow> string \<Rightarrow> (err, 's, string option) io" where
  "ManagerOf managers lfdi =
     io_try (mr_ManagerOf managers lfdi) (\<lambda>r.
       case r of
         Inl e \<Rightarrow> if err_is e ErrNotFound then io_return None else io_fail e
       | Inr m \<Rightarrow> io_return (Some m))"

definition CurrentManagerOwns :: "'s managers_reader \<Rightarrow> string \<Rightarrow> string \<Rightarrow> (err, 's, bool) io" where
  "CurrentManagerOwns managers device caller =
     io_bind (ManagerOf managers device) (\<lambda>m.
       case m of None \<Rightarrow> io_return False | Some manager \<Rightarrow> io_return (OwnedBy manager caller))"

definition CurrentManagerOwnsLFDI :: "'s managers_reader \<Rightarrow> string \<Rightarrow> string \<Rightarrow> (err, 's, bool) io" where
  "CurrentManagerOwnsLFDI managers device caller =
     (case Canonical device of
        None \<Rightarrow> io_return False
      | Some dev \<Rightarrow>
          (case Canonical caller of
             None \<Rightarrow> io_return False
           | Some who \<Rightarrow> CurrentManagerOwns managers dev who))"

datatype RecordState = RecordMissing | RecordPresent EndDevice | RecordMismatched EndDevice

definition RecordFor ::
    "(string \<Rightarrow> (err, 's, EndDevice) io) \<Rightarrow> string \<Rightarrow> (err, 's, RecordState) io" where
  "RecordFor getByLFDI lfdi =
     io_try (getByLFDI lfdi) (\<lambda>r.
       case r of
         Inl e \<Rightarrow> if err_is e ErrNotFound then io_return RecordMissing
                  else io_fail (Errorf ''look up an EndDevice by LFDI'' [e])
       | Inr dev \<Rightarrow> if \<not> OwnedBy (ed_LFDI dev) lfdi then io_return (RecordMismatched dev)
                    else io_return (RecordPresent dev))"

definition FleetOf ::
    "(string \<Rightarrow> (err, 's, EndDevice) io) \<Rightarrow> 's managers_reader \<Rightarrow> string \<Rightarrow> (err, 's, string) io" where
  "FleetOf devices_Get managers endDeviceID =
     io_bind (io_map_err (\<lambda>e. Errorf ''commitment: resolving fleet of EndDevice'' [e]) (devices_Get endDeviceID))
       (\<lambda>dev.
         if ed_LFDI dev = [] then io_fail (Errorf ''EndDevice'' [ErrNoLFDI])
         else let lfdi = ToUpper (ed_LFDI dev)
              in io_bind (io_map_err (\<lambda>e. Errorf ''commitment: looking up the manager'' [e])
                            (ManagerOf managers lfdi))
                   (\<lambda>m. case m of None \<Rightarrow> io_return lfdi | Some manager \<Rightarrow> io_return (ToUpper manager)))"

text \<open>The loop of \<open>Fleets.Known\<close> over the two spellings of the key.\<close>

fun known_spelling ::
    "(string \<Rightarrow> (err, 's, EndDevice) io) \<Rightarrow> 's managers_reader \<Rightarrow> string \<Rightarrow> string list \<Rightarrow> (err, 's, bool) io" where
  "known_spelling getByLFDI managers fleetKey [] = io_return False"
| "known_spelling getByLFDI managers fleetKey (lfdi # rest) =
     io_try (getByLFDI lfdi) (\<lambda>r.
       case r of
         Inl e \<Rightarrow> if err_is e ErrNotFound then known_spelling getByLFDI managers fleetKey rest
                  else io_fail (Errorf ''commitment: EndDevice with LFDI'' [e])
       | Inr _ \<Rightarrow>
           io_bind (io_map_err (\<lambda>e. Errorf ''commitment: manager of'' [e]) (ManagerOf managers fleetKey))
             (\<lambda>m. io_return (m = None)))"

definition Known ::
    "(string \<Rightarrow> (err, 's, EndDevice) io) \<Rightarrow> 's managers_reader \<Rightarrow> string \<Rightarrow> (err, 's, bool) io" where
  "Known getByLFDI managers fleetKey =
     io_bind (io_map_err (\<lambda>e. Errorf ''commitment: devices managed by'' [e]) (mr_ManagedBy managers fleetKey))
       (\<lambda>managed.
         if managed \<noteq> [] then io_return True
         else known_spelling getByLFDI managers fleetKey [fleetKey, ToLower fleetKey])"

section \<open>The indexes stay right\<close>

definition index_ok :: "(EndDevice \<Rightarrow> string) \<Rightarrow> EndDevice Store \<Rightarrow> id_index \<Rightarrow> bool" where
  "index_ok f st ix \<longleftrightarrow> (\<forall>k rid. ix k = Some rid \<longrightarrow> k \<noteq> [] \<and> (\<exists>d. data st rid = Some d \<and> f d = k))"

definition edev_inv :: "edev_store \<Rightarrow> bool" where
  "edev_inv s \<longleftrightarrow> wf_store (ed_store s) \<and> index_ok ed_SFDI (ed_store s) (sfdiIndex s) \<and>
     index_ok ed_LFDI (ed_store s) (lfdiIndex s)"

abbreviation (input) ed_fails :: "edev_store \<Rightarrow> bool" where
  "ed_fails s \<equiv> ed_persistPath s \<noteq> [] \<and> ed_faults s \<noteq> [] \<and> hd (ed_faults s)"

lemma persist_cases:
  assumes "persistEndDeviceSnapshot s = (r, t)"
  shows "ed_store t = ed_store s" "sfdiIndex t = sfdiIndex s" "lfdiIndex t = lfdiIndex s"
    and "ed_persistPath t = ed_persistPath s"
    and "\<And>e. r = Inl e \<Longrightarrow> ed_fails s \<and> t = s\<lparr>ed_faults := tl (ed_faults s)\<rparr>"
  using assms by (auto simp: persistEndDeviceSnapshot_def split: if_splits list.splits bool.splits)

lemma index_ok_add:
  assumes "index_ok f st ix" and "data st' = (data st)(rid \<mapsto> d)"
    and "\<And>k. ix k = Some rid \<Longrightarrow> f d = k"
  shows "index_ok f st' (index_put ix (f d) rid)"
  using assms by (fastforce simp: index_ok_def index_put_def)

lemma index_okD:
  "index_ok f st ix \<Longrightarrow> ix k = Some rid \<Longrightarrow> data st rid = Some d \<Longrightarrow> f d = k"
  "index_ok f st ix \<Longrightarrow> data st rid = None \<Longrightarrow> ix k \<noteq> Some rid"
  unfolding index_ok_def by fastforce+

lemma index_at_Some: "ix k = Some rid \<Longrightarrow> index_at ix k = rid"
  by (simp add: index_at_def)

text \<open>After \<open>removeIndex\<close> no entry names the record.\<close>

lemma index_ok_drop:
  assumes "index_ok f st ix" and "data st rid = Some d" and "ix' = index_reset ix (f d) rid None"
  shows "ix' k \<noteq> Some rid" and "\<And>j v. ix' j = Some v \<Longrightarrow> ix j = Some v"
proof -
  have "ix k = Some rid \<Longrightarrow> f d = k" using index_okD(1) [OF assms(1) _ assms(2)] by blast
  then show "ix' k \<noteq> Some rid"
    using assms(3) index_at_Some [of ix k rid] by (cases "ix k = Some rid") (auto simp: index_reset_def)
qed (use assms(3) in \<open>auto simp: index_reset_def split: if_splits\<close>)

lemma restore_index: "index_reset (index_put ix k rid) k rid (ix k) = ix"
  by (auto simp: index_at_def index_put_def index_reset_def fun_eq_iff)

lemma E_Create_eq:
  assumes inv: "edev_inv s"
  shows "E_Create rid d s =
     (if data (ed_store s) rid \<noteq> None then (Inl ErrAlreadyExists, s)
      else let t = indexDevice rid d (s\<lparr>ed_store := snd (Store_Create rid d (ed_store s))\<rparr>)
           in if ed_fails s then (Inl (Errorf ''enddevice persistence'' [Errorf ''atomicfile'' []]),
                                  s\<lparr>ed_faults := tl (ed_faults s)\<rparr>)
              else (Inr (), snd (persistEndDeviceSnapshot t)))"
proof (cases "data (ed_store s) rid")
  case (Some v)
  then show ?thesis by (simp add: E_Create_def on_store_def Store_Create_def)
next
  case None
  let ?t = "s\<lparr>ed_store := snd (Store_Create rid d (ed_store s))\<rparr>"
  let ?u = "indexDevice rid d ?t"
  have wf: "wf_store (ed_store s)" using inv by (simp add: edev_inv_def)
  have c: "on_store (Store_Create rid d) s = (Inr (), ?t)"
    using None by (simp add: on_store_def Store_Create_def)
  show ?thesis
  proof (cases "ed_fails s")
    case True
    let ?v = "?u\<lparr>ed_faults := tl (ed_faults s)\<rparr>"
    have p: "persistEndDeviceSnapshot ?u = (Inl (Errorf ''enddevice persistence'' [Errorf ''atomicfile'' []]), ?v)"
      using True by (cases "ed_faults s") (auto simp: persistEndDeviceSnapshot_def indexDevice_def)
    have "restoreIndex rid d (snapshotIndex ?t d) ?v = ?t\<lparr>ed_faults := tl (ed_faults s)\<rparr>"
      by (simp add: restoreIndex_def snapshotIndex_def indexDevice_def restore_index)
    then have "on_store (Store_Delete rid) (restoreIndex rid d (snapshotIndex ?t d) ?v)
        = (Inr (), s\<lparr>ed_faults := tl (ed_faults s)\<rparr>)"
      using Store_Delete_Create [OF wf None, of d] by (simp add: on_store_def)
    then show ?thesis using c p None True by (simp add: E_Create_def)
  next
    case False
    then have "fst (persistEndDeviceSnapshot ?u) = Inr ()"
      by (auto simp: persistEndDeviceSnapshot_def indexDevice_def split: list.splits bool.splits)
    then show ?thesis using c None False
      by (cases "persistEndDeviceSnapshot ?u") (auto simp: E_Create_def Let_def)
  qed
qed

lemma edev_inv_cong:
  "ed_store t = ed_store s \<Longrightarrow> sfdiIndex t = sfdiIndex s \<Longrightarrow> lfdiIndex t = lfdiIndex s \<Longrightarrow>
   edev_inv t = edev_inv s"
  by (simp add: edev_inv_def)

lemma edev_inv_indexed:
  assumes "wf_store st" and "data st = (data (ed_store s))(rid \<mapsto> d)"
    and "index_ok ed_SFDI (ed_store s) (sfdiIndex s)" "index_ok ed_LFDI (ed_store s) (lfdiIndex s)"
    and "\<And>k. sfdiIndex s k = Some rid \<Longrightarrow> ed_SFDI d = k" "\<And>k. lfdiIndex s k = Some rid \<Longrightarrow> ed_LFDI d = k"
  shows "edev_inv (indexDevice rid d (s\<lparr>ed_store := st\<rparr>))"
  using assms(1) index_ok_add [OF assms(3,2,5)] index_ok_add [OF assms(4,2,6)]
  by (simp add: edev_inv_def indexDevice_def)

lemma edev_inv_created:
  assumes "edev_inv s" and none: "data (ed_store s) rid = None"
  shows "edev_inv (indexDevice rid d (s\<lparr>ed_store := snd (Store_Create rid d (ed_store s))\<rparr>))"
proof (rule edev_inv_indexed)
  have io: "index_ok ed_SFDI (ed_store s) (sfdiIndex s)" "index_ok ed_LFDI (ed_store s) (lfdiIndex s)"
    and wf: "wf_store (ed_store s)" using assms(1) by (simp_all add: edev_inv_def)
  show "wf_store (snd (Store_Create rid d (ed_store s)))" using wf by (rule Store_Create_wf)
  show "data (snd (Store_Create rid d (ed_store s))) = (data (ed_store s))(rid \<mapsto> d)"
    using none by (simp add: Store_Create_def)
  show "sfdiIndex s k = Some rid \<Longrightarrow> ed_SFDI d = k" "lfdiIndex s k = Some rid \<Longrightarrow> ed_LFDI d = k" for k
    using index_okD(2) [OF io(1) none] index_okD(2) [OF io(2) none] by blast+
qed (use assms(1) in \<open>simp_all add: edev_inv_def\<close>)

lemma persisted_inv: "edev_inv s \<Longrightarrow> persistEndDeviceSnapshot s = (r, t) \<Longrightarrow> edev_inv t"
  using persist_cases(1-3) edev_inv_cong by metis

lemma E_Create_inv:
  assumes inv: "edev_inv s" and run: "E_Create rid d s = (r, t)"
  shows "edev_inv t"
proof (cases "data (ed_store s) rid = None \<and> \<not> ed_fails s")
  case True
  let ?u = "indexDevice rid d (s\<lparr>ed_store := snd (Store_Create rid d (ed_store s))\<rparr>)"
  have "edev_inv ?u" using inv True by (blast intro: edev_inv_created)
  moreover have "t = snd (persistEndDeviceSnapshot ?u)"
    using run True by (auto simp: E_Create_eq [OF inv] Let_def)
  ultimately show ?thesis using persisted_inv by (metis prod.collapse)
next
  case False
  then have "t = s \<or> t = s\<lparr>ed_faults := tl (ed_faults s)\<rparr>"
    using run by (auto simp: E_Create_eq [OF inv] Let_def split: if_splits)
  with inv show ?thesis by (auto simp: edev_inv_def)
qed

lemma removeIndex_ok:
  assumes inv: "edev_inv s" and d: "data (ed_store s) rid = Some d"
  shows "index_ok ed_SFDI (ed_store s) (sfdiIndex (removeIndex rid d s))"
    "index_ok ed_LFDI (ed_store s) (lfdiIndex (removeIndex rid d s))"
    "sfdiIndex (removeIndex rid d s) k \<noteq> Some rid" "lfdiIndex (removeIndex rid d s) k \<noteq> Some rid"
proof -
  have io: "index_ok ed_SFDI (ed_store s) (sfdiIndex s)" "index_ok ed_LFDI (ed_store s) (lfdiIndex s)"
    using inv by (simp_all add: edev_inv_def)
  have e: "sfdiIndex (removeIndex rid d s) = index_reset (sfdiIndex s) (ed_SFDI d) rid None"
    "lfdiIndex (removeIndex rid d s) = index_reset (lfdiIndex s) (ed_LFDI d) rid None"
    by (simp_all add: removeIndex_def)
  show "sfdiIndex (removeIndex rid d s) k \<noteq> Some rid" "lfdiIndex (removeIndex rid d s) k \<noteq> Some rid"
    using index_ok_drop(1) [OF io(1) d e(1)] index_ok_drop(1) [OF io(2) d e(2)] .
  show "index_ok ed_SFDI (ed_store s) (sfdiIndex (removeIndex rid d s))"
    "index_ok ed_LFDI (ed_store s) (lfdiIndex (removeIndex rid d s))"
    using io index_ok_drop(2) [OF io(1) d e(1)] index_ok_drop(2) [OF io(2) d e(2)]
    unfolding index_ok_def by blast+
qed

lemma E_Update_inv:
  assumes inv: "edev_inv s" and run: "E_Update rid d s = (r, t)"
  shows "edev_inv t"
proof (cases "data (ed_store s) rid")
  case None
  with inv run show ?thesis by (simp add: E_Update_def Store_Get_def)
next
  case (Some old)
  let ?v = "removeIndex rid old s"
  have st: "ed_store ?v = ed_store s" by (simp add: removeIndex_def)
  let ?u = "indexDevice rid d (?v\<lparr>ed_store := snd (Store_Update rid d (ed_store s))\<rparr>)"
  have "on_store (Store_Update rid d) ?v = (Inr (), ?v\<lparr>ed_store := snd (Store_Update rid d (ed_store s))\<rparr>)"
    using Some by (simp add: on_store_def Store_Update_def st)
  then have "persistEndDeviceSnapshot ?u = (r, t)"
    using run Some by (simp add: E_Update_def Store_Get_def)
  moreover have "edev_inv ?u"
    using inv Some Store_Update_wf [of "ed_store s" rid d] removeIndex_ok [OF inv Some]
    by (intro edev_inv_indexed) (simp_all add: edev_inv_def Store_Update_def st)
  ultimately show ?thesis using persisted_inv by blast
qed

lemma E_Delete_inv:
  assumes inv: "edev_inv s" and run: "E_Delete rid s = (r, t)"
  shows "edev_inv t"
proof (cases "data (ed_store s) rid")
  case None
  with inv run show ?thesis by (simp add: E_Delete_def Store_Get_def)
next
  case (Some old)
  have wf: "wf_store (ed_store s)" using inv by (simp add: edev_inv_def)
  let ?v = "removeIndex rid old s"
  let ?st = "snd (Store_Delete rid (ed_store s))"
  have st: "ed_store ?v = ed_store s" by (simp add: removeIndex_def)
  have d: "data ?st = (data (ed_store s))(rid := None)" "Store_Delete rid (ed_store s) = (Inr (), ?st)"
    by (simp_all add: Store_Delete_eq [OF wf Some])
  have "on_store (Store_Delete rid) ?v = (Inr (), ?v\<lparr>ed_store := ?st\<rparr>)"
    unfolding on_store_def st by (subst d(2)) simp
  then have "persistEndDeviceSnapshot (?v\<lparr>ed_store := ?st\<rparr>) = (r, t)"
    using run Some by (simp add: E_Delete_def Store_Get_def)
  moreover have "edev_inv (?v\<lparr>ed_store := ?st\<rparr>)"
    using Store_Delete_wf [OF wf, of rid] removeIndex_ok [OF inv Some]
    by (auto simp: edev_inv_def index_ok_def d(1))
  ultimately show ?thesis using persisted_inv by blast
qed

lemma E_Delete_effect:
  assumes inv: "edev_inv s" and old: "data (ed_store s) rid = Some old" and run: "E_Delete rid s = (r, t)"
  shows "data (ed_store t) = (data (ed_store s))(rid := None)"
    and "lfdiIndex t = index_reset (lfdiIndex s) (ed_LFDI old) rid None"
proof -
  have wf: "wf_store (ed_store s)" using inv by (simp add: edev_inv_def)
  let ?st = "snd (Store_Delete rid (ed_store s))"
  have d: "data ?st = (data (ed_store s))(rid := None)" "Store_Delete rid (ed_store s) = (Inr (), ?st)"
    by (simp_all add: Store_Delete_eq [OF wf old])
  have "on_store (Store_Delete rid) (removeIndex rid old s) = (Inr (), (removeIndex rid old s)\<lparr>ed_store := ?st\<rparr>)"
    unfolding on_store_def removeIndex_def by (simp, subst d(2), simp)
  then have p: "persistEndDeviceSnapshot ((removeIndex rid old s)\<lparr>ed_store := ?st\<rparr>) = (r, t)"
    using run old by (simp add: E_Delete_def Store_Get_def)
  show "data (ed_store t) = (data (ed_store s))(rid := None)" using persist_cases(1) [OF p] d(1) by simp
  show "lfdiIndex t = index_reset (lfdiIndex s) (ed_LFDI old) rid None"
    using persist_cases(3) [OF p] by (simp add: removeIndex_def)
qed

lemma E_Create_effect:
  assumes inv: "edev_inv s" and run: "E_Create rid d s = (Inr (), t)"
  shows "data (ed_store s) rid = None" and "data (ed_store t) = (data (ed_store s))(rid \<mapsto> d)"
    and "lfdiIndex t = index_put (lfdiIndex s) (ed_LFDI d) rid"
proof -
  show none: "data (ed_store s) rid = None" using run by (auto simp: E_Create_eq [OF inv] split: if_splits)
  let ?u = "indexDevice rid d (s\<lparr>ed_store := snd (Store_Create rid d (ed_store s))\<rparr>)"
  have "persistEndDeviceSnapshot ?u = (fst (persistEndDeviceSnapshot ?u), t)"
    using run none by (auto simp: E_Create_eq [OF inv] Let_def split: if_splits)
  from persist_cases(1,3) [OF this] none
  show "data (ed_store t) = (data (ed_store s))(rid \<mapsto> d)" "lfdiIndex t = index_put (lfdiIndex s) (ed_LFDI d) rid"
    by (simp_all add: indexDevice_def Store_Create_def)
qed

lemma load_devices_inv: "edev_inv s \<Longrightarrow> load_devices rs s = (r, t) \<Longrightarrow> edev_inv t"
proof (induction rs arbitrary: s)
  case (Cons x rs)
  obtain rid d where x: "x = (rid, d)" by fastforce
  show ?case
  proof (cases "data (ed_store s) rid")
    case (Some v)
    with Cons.prems x show ?thesis by (simp add: on_store_def Store_Create_def)
  next
    case None
    let ?st = "snd (Store_Create rid d (ed_store s))"
    have "edev_inv (indexDevice rid d (s\<lparr>ed_store := ?st\<rparr>))"
      using Cons.prems(1) None by (rule edev_inv_created)
    moreover have "load_devices rs (indexDevice rid d (s\<lparr>ed_store := ?st\<rparr>)) = (r, t)"
      using Cons.prems(2) None x by (simp add: on_store_def Store_Create_def)
    ultimately show ?thesis by (rule Cons.IH)
  qed
qed simp

lemma NewEndDeviceStore_inv: "edev_inv NewEndDeviceStore"
  by (simp add: edev_inv_def NewEndDeviceStore_def index_ok_def)

section \<open>Any sequence of calls\<close>

datatype edev_op = EOpCreate string EndDevice | EOpUpdate string EndDevice | EOpDelete string

fun E_step :: "edev_op \<Rightarrow> (err, edev_store, unit) io" where
  "E_step (EOpCreate i d) = E_Create i d"
| "E_step (EOpUpdate i d) = E_Update i d"
| "E_step (EOpDelete i) = E_Delete i"

fun E_run :: "edev_op list \<Rightarrow> edev_store \<Rightarrow> edev_store" where
  "E_run [] s = s"
| "E_run (op # ops) s = E_run ops (snd (E_step op s))"

lemma E_step_inv: "edev_inv s \<Longrightarrow> edev_inv (snd (E_step op s))"
  using E_Create_inv E_Update_inv E_Delete_inv by (cases op) (metis E_step.simps prod.collapse)+

lemma E_run_inv: "edev_inv s \<Longrightarrow> edev_inv (E_run ops s)"
  by (induction ops arbitrary: s) (auto dest: E_step_inv)

lemma New_edev_inv:
  assumes "NewEndDeviceStoreWithPersistence path file faulty = Inr s"
  shows "edev_inv s"
proof (cases "path = []")
  case True
  with assms NewEndDeviceStore_inv show ?thesis by (simp add: NewEndDeviceStoreWithPersistence_def)
next
  case False
  with assms obtain rs t u where ld: "load_devices rs NewEndDeviceStore = (Inr u, t)"
    and s: "s = t\<lparr>ed_persistPath := path, ed_disk := rs, ed_faults := faulty\<rparr>"
    by (auto simp: NewEndDeviceStoreWithPersistence_def split: sum.splits prod.splits)
  from load_devices_inv [OF NewEndDeviceStore_inv ld] show ?thesis by (simp add: s edev_inv_def)
qed

lemma GetByLFDI_holds:
  assumes "edev_inv s" and "GetByLFDI lfdi s = (Inr dev, t)"
  shows "ed_LFDI dev = lfdi" and "lfdi \<noteq> []" and "t = s"
proof -
  obtain rid where rid: "lfdiIndex s lfdi = Some rid"
    using assms(2) by (cases "lfdiIndex s lfdi") (simp_all add: GetByLFDI_def)
  then have "data (ed_store s) rid = Some dev \<and> t = s"
    using assms(2) by (cases "data (ed_store s) rid") (simp_all add: GetByLFDI_def E_Get_def Store_Get_def)
  then have ix: "lfdiIndex s lfdi = Some rid" "data (ed_store s) rid = Some dev" and t: "t = s"
    using rid by simp_all
  have ok: "index_ok ed_LFDI (ed_store s) (lfdiIndex s)" using assms(1) by (simp add: edev_inv_def)
  show "ed_LFDI dev = lfdi" using index_okD(1) [OF ok ix] .
  show "lfdi \<noteq> []" using ok ix unfolding index_ok_def by blast
  show "t = s" by (rule t)
qed

section \<open>Properties\<close>

definition sample_device :: "string \<Rightarrow> EndDevice" where
  "sample_device lfdi = \<lparr>ed_Href = ''/edev/7'', ed_SFDI = ''111'', ed_LFDI = lfdi\<rparr>"

definition sample_devices :: edev_store where
  "sample_devices = \<lparr>ed_store = \<lparr>data = [''7'' \<mapsto> sample_device ''AB''], keys = [''7'']\<rparr>,
     sfdiIndex = [''111'' \<mapsto> ''7''], lfdiIndex = [''AB'' \<mapsto> ''7''], ed_persistPath = ''edev.json'',
     ed_disk = [(''7'', sample_device ''AB'')], ed_faults = [True]\<rparr>"

lemma sample_devices_load:
  "NewEndDeviceStoreWithPersistence ''edev.json'' (Inr [(''7'', sample_device ''AB'')]) [True]
     = Inr sample_devices"
  by (simp add: NewEndDeviceStoreWithPersistence_def NewEndDeviceStore_def NewStore_def on_store_def
      Store_Create_def indexDevice_def index_put_def sample_device_def sample_devices_def slice_insert_def
      BinarySearch_def search_loop.simps)

text \<open>
  C31: an EndDevice create that fails, on a taken id or on the snapshot write, leaves every record
  and both indexes exactly as they were: a device whose SFDI or LFDI the new one reused is
  still found by it.
\<close>

theorem edev_create_all_or_nothing:
  assumes "edev_inv s" and "E_Create rid d s = (r, t)"
  shows "(case r of
      Inr _ \<Rightarrow> data (ed_store s) rid = None \<and> data (ed_store t) = (data (ed_store s))(rid \<mapsto> d) \<and>
        (ed_LFDI d \<noteq> [] \<longrightarrow> GetByLFDI (ed_LFDI d) t = (Inr d, t)) \<and>
        (ed_SFDI d \<noteq> [] \<longrightarrow> GetBySFDI (ed_SFDI d) t = (Inr d, t))
    | Inl e \<Rightarrow> ed_store t = ed_store s \<and> sfdiIndex t = sfdiIndex s \<and> lfdiIndex t = lfdiIndex s \<and> ed_disk t = ed_disk s)"
proof (cases "data (ed_store s) rid = None \<and> \<not> ed_fails s")
  case True
  let ?u = "indexDevice rid d (s\<lparr>ed_store := snd (Store_Create rid d (ed_store s))\<rparr>)"
  have r: "r = Inr ()" and t: "persistEndDeviceSnapshot ?u = (fst (persistEndDeviceSnapshot ?u), t)"
    using assms(2) True by (auto simp: E_Create_eq [OF assms(1)] Let_def)
  have "data (ed_store t) = (data (ed_store s))(rid \<mapsto> d)"
    "sfdiIndex t = index_put (sfdiIndex s) (ed_SFDI d) rid" "lfdiIndex t = index_put (lfdiIndex s) (ed_LFDI d) rid"
    using persist_cases(1-3) [OF t] True by (simp_all add: indexDevice_def Store_Create_def)
  with r True show ?thesis
    by (simp add: GetByLFDI_def GetBySFDI_def E_Get_def Store_Get_def index_put_def)
next
  case False
  then have "(\<exists>e. r = Inl e) \<and> (t = s \<or> t = s\<lparr>ed_faults := tl (ed_faults s)\<rparr>)"
    using assms(2) by (auto simp: E_Create_eq [OF assms(1)] Let_def split: if_splits)
  then show ?thesis by auto
qed

theorem edev_create_all_or_nothing_witness:
  "\<exists>e t. E_Create ''8'' (sample_device ''AB'') sample_devices = (Inl e, t) \<and> lfdiIndex t = lfdiIndex sample_devices"
proof -
  have "\<exists>e t. E_Create ''8'' (sample_device ''AB'') sample_devices = (Inl e, t)"
    using E_Create_eq [OF New_edev_inv [OF sample_devices_load], of "''8''" "sample_device ''AB''"]
    by (simp add: sample_devices_def)
  then show ?thesis
    using edev_create_all_or_nothing [OF New_edev_inv [OF sample_devices_load]] by fastforce
qed

text \<open>
  C32: whatever calls follow the load of the device file, a lookup by LFDI that answers a record
  answers one that stores exactly this LFDI, so the ownership check built on it never meets a
  record of another device (\<open>RecordMismatched\<close>) and grants exactly the LFDIs stored.
\<close>

theorem record_never_mismatched:
  assumes "NewEndDeviceStoreWithPersistence path file faulty = Inr s"
    and "RecordFor GetByLFDI lfdi (E_run ops s) = (Inr st, t)"
  shows "(\<forall>dev. st \<noteq> RecordMismatched dev) \<and> (\<forall>dev. st = RecordPresent dev \<longrightarrow> OwnedBy (ed_LFDI dev) lfdi)"
proof -
  have inv: "edev_inv (E_run ops s)" using New_edev_inv [OF assms(1)] by (rule E_run_inv)
  obtain r u where g: "GetByLFDI lfdi (E_run ops s) = (r, u)" by fastforce
  show ?thesis
  proof (cases r)
    case (Inl e)
    with g assms(2) show ?thesis by (auto simp: RecordFor_def io_try_def split: if_splits)
  next
    case (Inr dev)
    with GetByLFDI_holds [OF inv, of lfdi dev u] g have "OwnedBy (ed_LFDI dev) lfdi"
      by (simp add: OwnedBy_def)
    with Inr g assms(2) show ?thesis by (auto simp: RecordFor_def io_try_def)
  qed
qed

theorem record_never_mismatched_witness:
  "RecordFor GetByLFDI ''AB'' (E_run [] sample_devices) = (Inr (RecordPresent (sample_device ''AB'')), sample_devices)
    \<and> OwnedBy (ed_LFDI (sample_device ''AB'')) ''AB''"
proof -
  have "RecordFor GetByLFDI ''AB'' (E_run [] sample_devices)
      = (Inr (RecordPresent (sample_device ''AB'')), sample_devices)"
    by (simp add: RecordFor_def io_try_def GetByLFDI_def E_Get_def Store_Get_def sample_devices_def
        sample_device_def OwnedBy_def io_return_def)
  with record_never_mismatched [OF sample_devices_load this] show ?thesis by blast
qed

text \<open>
  C33: two devices may be stored under one LFDI, the later owning the index entry. In every store
  that calls can reach from the load of the file: create a device with the LFDI of a stored one,
  under a free id, and delete it again, both calls succeeding. The earlier device is still stored,
  but the lookup by its LFDI answers not-found.
\<close>

theorem delete_hides_earlier_duplicate:
  assumes "NewEndDeviceStoreWithPersistence path file faulty = Inr s0"
    and "E_Get a (E_run ops s0) = (Inr earlier, E_run ops s0)"
    and "ed_LFDI later = ed_LFDI earlier" and "ed_LFDI earlier \<noteq> []"
    and "E_Create b later (E_run ops s0) = (Inr (), t)" and "E_Delete b t = (Inr (), u)"
  shows "E_Get a u = (Inr earlier, u) \<and> GetByLFDI (ed_LFDI earlier) u = (Inl ErrNotFound, u)"
proof -
  have inv: "edev_inv (E_run ops s0)" using New_edev_inv [OF assms(1)] by (rule E_run_inv)
  note c = E_Create_effect [OF inv assms(5)]
  have a: "data (ed_store (E_run ops s0)) a = Some earlier"
    using assms(2) by (auto simp: E_Get_def Store_Get_def split: option.splits)
  then have "a \<noteq> b" using c(1) by auto
  have "data (ed_store t) b = Some later" using c(2) by simp
  note d = E_Delete_effect [OF E_Create_inv [OF inv assms(5)] this assms(6)]
  have "data (ed_store u) a = Some earlier" using a c(2) d(1) \<open>a \<noteq> b\<close> by simp
  moreover have "lfdiIndex u (ed_LFDI earlier) = None"
    using assms(3,4) by (simp add: d(2) c(3) index_put_def index_reset_def index_at_def)
  ultimately show ?thesis by (simp add: E_Get_def Store_Get_def GetByLFDI_def)
qed

theorem delete_hides_earlier_duplicate_witness:
  "\<exists>t u. E_Create ''8'' (sample_device ''AB'') (E_run [] (sample_devices\<lparr>ed_faults := []\<rparr>)) = (Inr (), t) \<and>
     E_Delete ''8'' t = (Inr (), u) \<and> E_Get ''7'' u = (Inr (sample_device ''AB''), u) \<and>
     GetByLFDI ''AB'' u = (Inl ErrNotFound, u)"
proof -
  let ?s = "sample_devices\<lparr>ed_faults := []\<rparr>"
  have load: "NewEndDeviceStoreWithPersistence ''edev.json'' (Inr [(''7'', sample_device ''AB'')]) [] = Inr ?s"
    by (simp add: NewEndDeviceStoreWithPersistence_def NewEndDeviceStore_def NewStore_def on_store_def
        Store_Create_def indexDevice_def index_put_def sample_device_def sample_devices_def slice_insert_def
        BinarySearch_def search_loop.simps)
  have get: "E_Get ''7'' (E_run [] ?s) = (Inr (sample_device ''AB''), E_run [] ?s)"
    by (simp add: E_Get_def Store_Get_def sample_devices_def)
  obtain t u where run: "E_Create ''8'' (sample_device ''AB'') (E_run [] ?s) = (Inr (), t)" "E_Delete ''8'' t = (Inr (), u)"
    by (simp add: E_Create_def E_Delete_def on_store_def Store_Create_def Store_Get_def
        Store_Delete_def persistEndDeviceSnapshot_def indexDevice_def removeIndex_def index_put_def
        index_reset_def index_at_def sample_devices_def sample_device_def snapshotIndex_def Let_def
        BinarySearch_def search_loop.simps slice_insert_def slice_delete_def)
  from delete_hides_earlier_duplicate [OF load get refl _ run] run show ?thesis by (auto simp: sample_device_def)
qed

end
