(* ===== verification/LockOrder.thy ===== *)
theory LockOrder
  imports Ledger
begin

text \<open>
  The fleet locks of the ledger and the scope locks of the issuer. Every call is the sequence of
  what it locks, reads, writes and releases; calls run interleaved, and any of them may return
  early. The theory shows that the calls never deadlock, and that between the check of a fleet or
  scope and the write it allows no other call writes there.

  The mutexes inside the stores are left out: a store takes its own for one operation and calls
  nothing while it holds it. So are the two mutexes that guard the maps of locks, for the same
  reason.
\<close>

section \<open>The locks\<close>

datatype mutex = FleetLock string | ScopeLock string

text \<open>No call takes a fleet lock while it holds a scope lock.\<close>

instantiation mutex :: linorder
begin

definition less_eq_mutex :: "mutex \<Rightarrow> mutex \<Rightarrow> bool" where
  "less_eq_mutex a b =
     (case a of
        FleetLock x \<Rightarrow> (case b of FleetLock y \<Rightarrow> x \<le> y | ScopeLock _ \<Rightarrow> True)
      | ScopeLock x \<Rightarrow> (case b of FleetLock _ \<Rightarrow> False | ScopeLock y \<Rightarrow> x \<le> y))"

definition less_mutex :: "mutex \<Rightarrow> mutex \<Rightarrow> bool" where
  "less_mutex a b = (a \<le> b \<and> \<not> b \<le> a)"

instance
  by standard (auto simp: less_eq_mutex_def less_mutex_def split: mutex.splits)

end

lemma mutex_less_simps [simp]:
  "FleetLock x < FleetLock y \<longleftrightarrow> x < y" "ScopeLock x < ScopeLock y \<longleftrightarrow> x < y" "FleetLock x < ScopeLock y"
  by (auto simp: less_mutex_def less_eq_mutex_def)

text \<open>
  Beside its locks an action is a check, which reads what a fleet or a scope holds, or a commit,
  a store write that adds to it or changes it. A resource is named by the lock that guards it.
\<close>

datatype action = Lock mutex | Unlock mutex | Check mutex | Write mutex

text \<open>
  The loop that locks each key and defers its unlock: the deferred calls run in reverse order
  after the body.
\<close>

definition under :: "mutex list \<Rightarrow> action list \<Rightarrow> action list" where
  "under ks body = map Lock ks @ body @ map Unlock (rev ks)"

definition Within_actions :: "string list \<Rightarrow> action list \<Rightarrow> action list" where
  "Within_actions fleetKeys body =
     (let keys = lock_order fleetKeys
      in if keys = [] \<or> hd keys = [] then [] else under (map FleetLock keys) body)"

definition lockScopes_actions :: "string list \<Rightarrow> action list \<Rightarrow> action list" where
  "lockScopes_actions scopeKeys body = under (map ScopeLock (lock_order scopeKeys)) body"

section \<open>The calls\<close>

text \<open>
  A control issued: its scope is listed, the ledger checks the fleet, and the store write adds to
  the scope and to the fleet. A cancel loads and marks one record of the scope; it takes load off
  the fleet, which no check needs to see first.
\<close>

definition issue_actions :: "string \<Rightarrow> string \<Rightarrow> action list" where
  "issue_actions fleetKey scopeKey =
     [Check (ScopeLock scopeKey), Check (FleetLock fleetKey), Write (ScopeLock scopeKey), Write (FleetLock fleetKey)]"

definition update_actions :: "string \<Rightarrow> action list" where
  "update_actions scopeKey = [Check (ScopeLock scopeKey), Write (ScopeLock scopeKey)]"

definition issueInFleet_actions :: "string \<Rightarrow> string \<Rightarrow> action list" where
  "issueInFleet_actions fleetKey scopeKey =
     Within_actions [fleetKey] (lockScopes_actions [scopeKey] (issue_actions fleetKey scopeKey))"

text \<open>A cancel goes on without the fleet lock when no key resolved or the ledger refuses the keys.\<close>

definition cancelInFleet_actions :: "string list \<Rightarrow> string \<Rightarrow> action list" where
  "cancelInFleet_actions keys scopeKey =
     (if keys = [] \<or> [] \<in> set keys then lockScopes_actions [scopeKey] (update_actions scopeKey)
      else Within_actions keys (lockScopes_actions [scopeKey] (update_actions scopeKey)))"

text \<open>A fan-out reads every scope, checks every fleet, and only then writes the copies.\<close>

definition across_actions :: "string list \<Rightarrow> string list \<Rightarrow> action list" where
  "across_actions keys scopeKeys =
     map (Check \<circ> ScopeLock) scopeKeys @ map (Check \<circ> FleetLock) keys @
     map (Write \<circ> ScopeLock) scopeKeys @ map (Write \<circ> FleetLock) keys"

definition withinIssueFleets_actions :: "string list \<Rightarrow> string list \<Rightarrow> action list" where
  "withinIssueFleets_actions keys scopeKeys =
     (if keys = [] then lockScopes_actions scopeKeys (across_actions keys scopeKeys)
      else Within_actions keys (lockScopes_actions scopeKeys (across_actions keys scopeKeys)))"

text \<open>A replication plans and writes one replica after the other.\<close>

definition ReplicateTo_actions :: "string \<Rightarrow> string list \<Rightarrow> action list" where
  "ReplicateTo_actions key scopeKeys =
     Within_actions [key] (lockScopes_actions scopeKeys (concat (map (issue_actions key) scopeKeys)))"

text \<open>
  \<open>CancelGrant\<close> holds the fleet of the grant, reads the grant and its executions, cancels these
  one after the other, each under its own scope lock, and marks the grant. \<open>Revise\<close> stores the new
  grant before it relinks the executions and marks the old one; an undo goes over some of the
  scopes again.
\<close>

definition executions_actions :: "string list \<Rightarrow> action list" where
  "executions_actions scopeKeys = concat (map (\<lambda>k. lockScopes_actions [k] (update_actions k)) scopeKeys)"

definition CancelGrant_actions :: "string \<Rightarrow> string list \<Rightarrow> action list" where
  "CancelGrant_actions fleetKey scopeKeys =
     Within_actions [fleetKey] (Check (FleetLock fleetKey) # executions_actions scopeKeys @ [Write (FleetLock fleetKey)])"

definition Revise_actions :: "string \<Rightarrow> string list \<Rightarrow> action list" where
  "Revise_actions fleetKey scopeKeys =
     Within_actions [fleetKey]
       (Check (FleetLock fleetKey) # Write (FleetLock fleetKey) # executions_actions scopeKeys @ [Write (FleetLock fleetKey)])"

text \<open>The gate takes the fleet lock only, \<open>Retire\<close> the scope locks only.\<close>

definition Gate_actions :: "string \<Rightarrow> action list" where
  "Gate_actions fleetKey = Within_actions [fleetKey] [Check (FleetLock fleetKey), Write (FleetLock fleetKey)]"

definition Retire_actions :: "string list \<Rightarrow> action list" where
  "Retire_actions scopeKeys =
     lockScopes_actions scopeKeys (map (Check \<circ> ScopeLock) scopeKeys @ map (Write \<circ> ScopeLock) scopeKeys)"

datatype call =
    CallIssue string string
  | CallCancel "string list" string
  | CallAcross "string list" "string list"
  | CallReplicate string "string list"
  | CallCancelGrant string "string list"
  | CallRevise string "string list"
  | CallGrant string
  | CallRetire "string list"

fun call_actions :: "call \<Rightarrow> action list" where
  "call_actions (CallIssue f k) = issueInFleet_actions f k"
| "call_actions (CallCancel fs k) = cancelInFleet_actions fs k"
| "call_actions (CallAcross fs ks) = withinIssueFleets_actions fs ks"
| "call_actions (CallReplicate f ks) = ReplicateTo_actions f ks"
| "call_actions (CallCancelGrant f ks) = CancelGrant_actions f ks"
| "call_actions (CallRevise f ks) = Revise_actions f ks"
| "call_actions (CallGrant f) = Gate_actions f"
| "call_actions (CallRetire ks) = Retire_actions ks"

section \<open>Interleaved runs\<close>

text \<open>
  The maps of locks give every key its mutex, a number; an entry is made with a fresh mutex when
  its key is first asked for. A thread holds a stack of keys with their mutexes, the last one
  locked first, and has actions left.
\<close>

record lock_state =
  threads :: "((mutex \<times> nat) list \<times> action list) list"
  lock_map :: "mutex \<rightharpoonup> nat"
  fresh :: nat

definition get_mutex :: "mutex \<Rightarrow> lock_state \<Rightarrow> nat \<times> lock_state" where
  "get_mutex k s =
     (case lock_map s k of
        Some m \<Rightarrow> (m, s)
      | None \<Rightarrow> (fresh s, s\<lparr>lock_map := (lock_map s)(k \<mapsto> fresh s), fresh := Suc (fresh s)\<rparr>))"

fun is_fleet_lock :: "mutex \<Rightarrow> bool" where
  "is_fleet_lock (FleetLock _) = True"
| "is_fleet_lock (ScopeLock _) = False"

definition mutex_free :: "lock_state \<Rightarrow> nat \<Rightarrow> bool" where
  "mutex_free s m \<longleftrightarrow> (\<forall>(held, todo) \<in> set (threads s). m \<notin> snd ` set held)"

definition set_thread :: "lock_state \<Rightarrow> nat \<Rightarrow> (mutex \<times> nat) list \<times> action list \<Rightarrow> lock_state" where
  "set_thread s i th = s\<lparr>threads := (threads s)[i := th]\<rparr>"

fun touches :: "action \<Rightarrow> bool" where
  "touches (Check _) = True"
| "touches (Write _) = True"
| "touches _ = False"

inductive lock_step :: "lock_state \<Rightarrow> lock_state \<Rightarrow> bool" where
  acquire: "i < length (threads s) \<Longrightarrow> threads s ! i = (held, Lock k # todo) \<Longrightarrow> get_mutex k s = (m, t) \<Longrightarrow>
     mutex_free s m \<Longrightarrow> lock_step s (set_thread t i ((k, m) # held, todo))"
| release: "i < length (threads s) \<Longrightarrow> threads s ! i = ((k, m) # held, Unlock k # todo) \<Longrightarrow>
     lock_step s (set_thread s i (held, todo))"
| work: "i < length (threads s) \<Longrightarrow> threads s ! i = (held, a # todo) \<Longrightarrow> touches a \<Longrightarrow>
     lock_step s (set_thread s i (held, todo))"

text \<open>
  Before a lock, a check or a commit a call may return (a refusal, an error, a context that is
  done): the deferred unlocks are all it has left.
\<close>

fun is_unlock :: "action \<Rightarrow> bool" where
  "is_unlock (Unlock _) = True"
| "is_unlock _ = False"

inductive run_step :: "lock_state \<Rightarrow> lock_state \<Rightarrow> bool" where
  move: "lock_step s t \<Longrightarrow> run_step s t"
| return_early: "i < length (threads s) \<Longrightarrow> threads s ! i = (held, a # todo) \<Longrightarrow> \<not> is_unlock a \<Longrightarrow>
     run_step s (set_thread s i (held, map (Unlock \<circ> fst) held))"

definition start_calls :: "call list \<Rightarrow> lock_state" where
  "start_calls calls = \<lparr>threads = map (\<lambda>c. ([], call_actions c)) calls, lock_map = Map.empty, fresh = 0\<rparr>"

definition all_returned :: "lock_state \<Rightarrow> bool" where
  "all_returned s \<longleftrightarrow> (\<forall>(held, todo) \<in> set (threads s). held = [] \<and> todo = [])"

section \<open>Every call takes its locks in order, and checks before it commits\<close>

text \<open>A call is between check and commit of a resource when its next action there is a commit.\<close>

definition committing :: "mutex \<Rightarrow> action list \<Rightarrow> bool" where
  "committing k todo \<longleftrightarrow> Write k \<in> set (takeWhile (\<lambda>a. a \<noteq> Check k) todo)"

lemma committing_simps [simp]:
  "\<not> committing k []"
  "committing k (Lock h # todo) = committing k todo"
  "committing k (Unlock h # todo) = committing k todo"
  "committing k (Check h # todo) \<longleftrightarrow> h \<noteq> k \<and> committing k todo"
  "committing k (Write h # todo) \<longleftrightarrow> h = k \<or> committing k todo"
  by (auto simp: committing_def)

lemma committing_append:
  "committing k (xs @ ys) \<longleftrightarrow> committing k xs \<or> Check k \<notin> set xs \<and> committing k ys"
proof (induction xs)
  case (Cons a xs)
  then show ?case by (cases a) auto
qed simp

lemma committing_locks [simp]: "\<not> committing k (map Lock ks)" "\<not> committing k (map Unlock ks)"
  by (induction ks) auto

fun ordered :: "mutex list \<Rightarrow> action list \<Rightarrow> bool" where
  "ordered held [] \<longleftrightarrow> held = []"
| "ordered held (Lock k # todo) \<longleftrightarrow> (\<forall>h \<in> set held. h < k) \<and> \<not> committing k todo \<and> ordered (k # held) todo"
| "ordered held (Unlock k # todo) \<longleftrightarrow> (case held of [] \<Rightarrow> False | h # hs \<Rightarrow> h = k \<and> ordered hs todo)"
| "ordered held (Check k # todo) \<longleftrightarrow> k \<in> set held \<and> ordered held todo"
| "ordered held (Write k # todo) \<longleftrightarrow> k \<in> set held \<and> ordered held todo"

lemma committing_held: "ordered held todo \<Longrightarrow> committing k todo \<Longrightarrow> k \<in> set held"
  by (induction held todo rule: ordered.induct) (auto split: list.splits)

definition block :: "mutex list \<Rightarrow> action list \<Rightarrow> bool" where
  "block held body \<longleftrightarrow> (\<forall>rest. ordered held rest \<longrightarrow> ordered held (body @ rest))"

lemma block_Nil [simp]: "block held []"
  by (simp add: block_def)

lemma block_append: "block held a \<Longrightarrow> block held b \<Longrightarrow> block held (a @ b)"
  by (simp add: block_def)

lemma block_concat: "(\<And>b. b \<in> set bs \<Longrightarrow> block held b) \<Longrightarrow> block held (concat bs)"
  by (induction bs) (simp_all add: block_def)

lemma block_work [simp]:
  "k \<in> set held \<Longrightarrow> block held body \<Longrightarrow> block held (Check k # body)"
  "k \<in> set held \<Longrightarrow> block held body \<Longrightarrow> block held (Write k # body)"
  by (simp_all add: block_def)

lemma block_map: "(\<And>x. x \<in> set xs \<Longrightarrow> f x \<in> set held) \<Longrightarrow> block held (map (Check \<circ> f) xs)"
  "(\<And>x. x \<in> set xs \<Longrightarrow> f x \<in> set held) \<Longrightarrow> block held (map (Write \<circ> f) xs)"
  by (induction xs) simp_all

lemma under_Cons: "under (k # ks) body = Lock k # under ks body @ [Unlock k]"
  by (simp add: under_def)

lemma committing_under: "committing k (under ks body) = committing k body"
  by (auto simp: under_def committing_append)

lemma block_under:
  assumes "sorted_wrt (<) ks" and "\<And>h k. h \<in> set held \<Longrightarrow> k \<in> set ks \<Longrightarrow> h < k" and "block (rev ks @ held) body"
    and "\<And>k. k \<in> set ks \<Longrightarrow> \<not> committing k body"
  shows "block held (under ks body)"
  using assms
proof (induction ks arbitrary: held)
  case Nil
  then show ?case by (simp add: under_def)
next
  case (Cons k ks)
  have b: "block (k # held) (under ks body)" using Cons.prems by (intro Cons.IH) auto
  have "\<not> committing k rest" if "ordered held rest" for rest
    using committing_held [OF that] Cons.prems(2) by (metis list.set_intros(1) less_irrefl)
  with b Cons.prems(2,4) show ?case
    by (auto simp: under_Cons block_def committing_append committing_under)
qed

lemma block_lockScopes:
  assumes "\<forall>h \<in> set held. is_fleet_lock h" and "block (rev (map ScopeLock (lock_order ks)) @ held) body"
    and "\<And>k. k \<in> set ks \<Longrightarrow> \<not> committing (ScopeLock k) body"
  shows "block held (lockScopes_actions ks body)"
  unfolding lockScopes_actions_def
proof (rule block_under [OF _ _ assms(2)])
  show "sorted_wrt (<) (map ScopeLock (lock_order ks))"
    using lock_order_sorted [of ks] by (simp add: sorted_wrt_map)
  show "h < k" if "h \<in> set held" "k \<in> set (map ScopeLock (lock_order ks))" for h k
  proof -
    have "is_fleet_lock h" using that(1) assms(1) by blast
    then have "\<exists>f. h = FleetLock f" by (cases rule: mutex.exhaust [of h]) simp_all
    then show ?thesis using that(2) by auto
  qed
  show "\<not> committing k body" if "k \<in> set (map ScopeLock (lock_order ks))" for k
    using that assms(3) by auto
qed

lemma block_Within:
  assumes "\<And>held. \<forall>h \<in> set held. is_fleet_lock h \<Longrightarrow> FleetLock ` set fs \<subseteq> set held \<Longrightarrow> block held body"
    and "\<And>f. f \<in> set fs \<Longrightarrow> \<not> committing (FleetLock f) body"
  shows "block [] (Within_actions fs body)"
proof -
  have "sorted_wrt (<) (map FleetLock (lock_order fs))"
    using lock_order_sorted [of fs] by (simp add: sorted_wrt_map)
  then have "block [] (under (map FleetLock (lock_order fs)) body)"
    using assms by (intro block_under) auto
  then show ?thesis by (simp add: Within_actions_def Let_def)
qed

lemmas call_defs =
  issueInFleet_actions_def cancelInFleet_actions_def withinIssueFleets_actions_def ReplicateTo_actions_def
  CancelGrant_actions_def Revise_actions_def Gate_actions_def Retire_actions_def

lemma committing_lockScopes [simp]: "committing k (lockScopes_actions ks body) = committing k body"
  by (simp add: lockScopes_actions_def committing_under)

lemma committing_maps [simp]:
  "\<not> committing k (map (Check \<circ> f) xs)" "committing k (map (Write \<circ> f) xs) \<longleftrightarrow> k \<in> f ` set xs"
  by (induction xs) auto

lemma committing_bodies [simp]:
  "\<not> committing k (issue_actions f x)" "\<not> committing k (update_actions x)" "\<not> committing k (across_actions fs xs)"
  by (auto simp: issue_actions_def update_actions_def across_actions_def committing_append)

lemma committing_concat: "(\<And>b. b \<in> set bs \<Longrightarrow> \<not> committing k b) \<Longrightarrow> \<not> committing k (concat bs)"
  by (induction bs) (auto simp: committing_append)

lemma committing_replicas [simp]: "\<not> committing k (concat (map (issue_actions f) xs))"
  by (rule committing_concat) auto

lemma block_bodies:
  "ScopeLock x \<in> set held \<Longrightarrow> FleetLock f \<in> set held \<Longrightarrow> block held (issue_actions f x)"
  "ScopeLock x \<in> set held \<Longrightarrow> block held (update_actions x)"
  "ScopeLock ` set xs \<subseteq> set held \<Longrightarrow> FleetLock ` set fs \<subseteq> set held \<Longrightarrow> block held (across_actions fs xs)"
  by (auto simp: issue_actions_def update_actions_def across_actions_def intro!: block_append block_map)

lemma block_executions:
  "\<forall>h \<in> set held. is_fleet_lock h \<Longrightarrow> block held (executions_actions ks)"
  unfolding executions_actions_def
  by (intro block_concat) (auto intro!: block_lockScopes block_bodies)

lemma committing_executions [simp]: "\<not> committing k (executions_actions ks)"
  unfolding executions_actions_def by (intro committing_concat) auto

lemma call_block: "block [] (call_actions c)"
proof (cases c)
  case (CallIssue f k)
  then show ?thesis by (auto simp: call_defs intro!: block_Within block_lockScopes block_bodies)
next
  case (CallCancel fs k)
  then show ?thesis by (auto simp: call_defs intro!: block_Within block_lockScopes block_bodies)
next
  case (CallAcross fs ks)
  then show ?thesis by (auto simp: call_defs intro!: block_Within block_lockScopes block_bodies)
next
  case (CallReplicate f ks)
  then show ?thesis
    by (auto simp: call_defs intro!: block_Within block_lockScopes block_concat block_bodies)
next
  case (CallCancelGrant f ks)
  then show ?thesis by (auto simp: call_defs intro!: block_Within block_work block_append block_executions)
next
  case (CallRevise f ks)
  then show ?thesis by (auto simp: call_defs intro!: block_Within block_work block_append block_executions)
next
  case (CallGrant f)
  then show ?thesis by (auto simp: call_defs intro!: block_Within)
next
  case (CallRetire ks)
  then show ?thesis
    by (auto simp: call_defs committing_append intro!: block_lockScopes block_append block_map)
qed

lemma call_ordered: "ordered [] (call_actions c)"
  using call_block [of c] unfolding block_def by (metis append_Nil2 ordered.simps(1))

lemma ordered_unwind: "ordered held (map Unlock held)"
  by (induction held) simp_all

section \<open>What every run keeps\<close>

text \<open>
  A mutex belongs to one key and is held by one thread at a time, under that key; so a key is held
  by one thread at a time.
\<close>

definition maps_ok :: "lock_state \<Rightarrow> bool" where
  "maps_ok s \<longleftrightarrow> (\<forall>k m. lock_map s k = Some m \<longrightarrow> m < fresh s) \<and> inj_on (lock_map s) (dom (lock_map s))"

definition lock_inv :: "lock_state \<Rightarrow> bool" where
  "lock_inv s \<longleftrightarrow> maps_ok s \<and>
     (\<forall>i < length (threads s). ordered (map fst (fst (threads s ! i))) (snd (threads s ! i))) \<and>
     (\<forall>i < length (threads s). \<forall>(k, m) \<in> set (fst (threads s ! i)). lock_map s k = Some m) \<and>
     (\<forall>i < length (threads s). \<forall>j < length (threads s). i \<noteq> j \<longrightarrow>
        snd ` set (fst (threads s ! i)) \<inter> snd ` set (fst (threads s ! j)) = {})"

lemma lock_inv_dest:
  assumes "lock_inv s" and "i < length (threads s)"
  shows "maps_ok s" and "ordered (map fst (fst (threads s ! i))) (snd (threads s ! i))"
    and "(k, m) \<in> set (fst (threads s ! i)) \<Longrightarrow> lock_map s k = Some m"
    and "j < length (threads s) \<Longrightarrow> i \<noteq> j \<Longrightarrow> m \<in> snd ` set (fst (threads s ! i)) \<Longrightarrow> m \<notin> snd ` set (fst (threads s ! j))"
proof -
  show "maps_ok s" "ordered (map fst (fst (threads s ! i))) (snd (threads s ! i))"
    using assms by (simp_all add: lock_inv_def)
  show "lock_map s k = Some m" if "(k, m) \<in> set (fst (threads s ! i))"
    using assms that unfolding lock_inv_def by fast
  show "m \<notin> snd ` set (fst (threads s ! j))"
    if "j < length (threads s)" "i \<noteq> j" "m \<in> snd ` set (fst (threads s ! i))"
  proof -
    have "snd ` set (fst (threads s ! i)) \<inter> snd ` set (fst (threads s ! j)) = {}"
      using assms that(1,2) by (simp add: lock_inv_def)
    with that(3) show ?thesis by blast
  qed
qed

lemma lock_inv_set_thread:
  assumes "lock_inv s" and "i < length (threads s)" and "ordered (map fst held) todo"
    and "\<And>k m. (k, m) \<in> set held \<Longrightarrow> lock_map s k = Some m"
    and "\<And>j m. j < length (threads s) \<Longrightarrow> j \<noteq> i \<Longrightarrow> m \<in> snd ` set held \<Longrightarrow> m \<notin> snd ` set (fst (threads s ! j))"
  shows "lock_inv (set_thread s i (held, todo))"
  unfolding lock_inv_def
proof (intro conjI allI impI)
  let ?t = "set_thread s i (held, todo)"
  have th: "threads ?t ! a = (if a = i then (held, todo) else threads s ! a)" for a
    using assms(2) by (simp add: set_thread_def)
  have len: "length (threads ?t) = length (threads s)" and lm: "lock_map ?t = lock_map s"
    by (simp_all add: set_thread_def)
  show "maps_ok ?t" using lock_inv_dest(1) [OF assms(1,2)] by (simp add: maps_ok_def set_thread_def)
  fix a assume "a < length (threads ?t)"
  then have a: "a < length (threads s)" by (simp add: len)
  note d = lock_inv_dest [OF assms(1) a]
  show "ordered (map fst (fst (threads ?t ! a))) (snd (threads ?t ! a))"
    using assms(3) d(2) by (simp add: th)
  show "\<forall>(k, m) \<in> set (fst (threads ?t ! a)). lock_map ?t k = Some m"
    using assms(4) d(3) unfolding th lm by auto
  fix b assume "b < length (threads ?t)" and ne: "a \<noteq> b"
  then have b: "b < length (threads s)" by (simp add: len)
  show "snd ` set (fst (threads ?t ! a)) \<inter> snd ` set (fst (threads ?t ! b)) = {}"
  proof -
    have "snd ` set (fst (threads s ! a)) \<inter> snd ` set (fst (threads s ! b)) = {}" using d(4) [OF b ne] by blast
    moreover have "snd ` set held \<inter> snd ` set (fst (threads s ! a)) = {}" if "a \<noteq> i" using assms(5) [OF a that] by blast
    moreover have "snd ` set held \<inter> snd ` set (fst (threads s ! b)) = {}" if "b \<noteq> i" using assms(5) [OF b that] by blast
    ultimately show ?thesis unfolding th using ne by (cases "a = i"; cases "b = i") (simp_all add: Int_commute)
  qed
qed

lemma mutex_free_iff: "mutex_free s m \<longleftrightarrow> (\<forall>j < length (threads s). m \<notin> snd ` set (fst (threads s ! j)))"
  by (simp add: mutex_free_def all_set_conv_all_nth case_prod_beta)

lemma inv_thread: "lock_inv s \<Longrightarrow> i < length (threads s) \<Longrightarrow> threads s ! i = (held, todo) \<Longrightarrow> ordered (map fst held) todo"
  using lock_inv_dest(2) by fastforce

text \<open>Asking for the mutex of a key keeps the maps right and moves no lock.\<close>

lemma get_mutex_law:
  assumes "lock_inv s" and "get_mutex k s = (m, t)"
  shows "lock_inv t" and "threads t = threads s" and "lock_map t k = Some m"
proof -
  show th: "threads t = threads s" and k: "lock_map t k = Some m"
    using assms(2) by (auto simp: get_mutex_def split: option.splits)
  show "lock_inv t"
  proof (cases "lock_map s k")
    case None
    then have t: "lock_map t = (lock_map s)(k \<mapsto> fresh s)" "fresh t = Suc (fresh s)" "m = fresh s"
      using assms(2) by (auto simp: get_mutex_def)
    have ok: "maps_ok s" using assms(1) by (simp add: lock_inv_def)
    have "maps_ok t" unfolding maps_ok_def
    proof (intro conjI allI impI)
      show "x < fresh t" if "lock_map t h = Some x" for h x
        using ok that by (auto simp: t maps_ok_def less_Suc_eq split: if_splits)
      show "inj_on (lock_map t) (dom (lock_map t))"
        using ok by (fastforce simp: t maps_ok_def inj_on_def split: if_splits)
    qed
    moreover have "lock_map t h = Some x" if "lock_map s h = Some x" for h x using that None by (auto simp: t)
    ultimately show ?thesis using assms(1) unfolding lock_inv_def th by blast
  next
    case (Some x)
    with assms show ?thesis by (simp add: get_mutex_def)
  qed
qed

lemma lock_step_inv: "lock_step s t \<Longrightarrow> lock_inv s \<Longrightarrow> lock_inv t"
proof (induction rule: lock_step.induct)
  case (acquire i s held k todo m t)
  note g = get_mutex_law [OF acquire(5,3)]
  have len: "i < length (threads t)" using acquire(1) by (simp add: g(2))
  show ?case
  proof (rule lock_inv_set_thread [OF g(1) len])
    show "ordered (map fst ((k, m) # held)) todo" using inv_thread [OF acquire(5,1,2)] by simp
    show "lock_map t h = Some x" if "(h, x) \<in> set ((k, m) # held)" for h x
      using that g(3) lock_inv_dest(3) [OF g(1) len, of h x] acquire(2) by (auto simp: g(2))
    show "x \<notin> snd ` set (fst (threads t ! j))"
      if "j < length (threads t)" "j \<noteq> i" "x \<in> snd ` set ((k, m) # held)" for j x
    proof (cases "x = m")
      case True
      with acquire(4) that(1) show ?thesis by (simp add: mutex_free_iff g(2))
    next
      case False
      with that lock_inv_dest(4) [OF g(1) len that(1), of x] acquire(2) show ?thesis by (auto simp: g(2))
    qed
  qed
next
  case (release i s k m held todo)
  from inv_thread [OF release(3,1,2)] have "ordered (map fst held) todo" by simp
  then show ?case using lock_inv_set_thread [OF release(3,1)] lock_inv_dest(3,4) [OF release(3,1)] release(2) by auto
next
  case (work i s held a todo)
  from inv_thread [OF work(4,1,2)] work(3) have "ordered (map fst held) todo" by (cases a) auto
  then show ?case using lock_inv_set_thread [OF work(4,1)] lock_inv_dest(3,4) [OF work(4,1)] work(2) by auto
qed

lemma run_step_inv: "run_step s t \<Longrightarrow> lock_inv s \<Longrightarrow> lock_inv t"
proof (induction rule: run_step.induct)
  case (return_early i s held a todo)
  have "ordered (map fst held) (map (Unlock \<circ> fst) held)" using ordered_unwind [of "map fst held"] by simp
  then show ?case
    using lock_inv_set_thread [OF return_early(4,1)] lock_inv_dest(3,4) [OF return_early(4,1)] return_early(2) by auto
qed (rule lock_step_inv)

lemma start_inv: "lock_inv (start_calls calls)"
  by (simp add: lock_inv_def maps_ok_def start_calls_def call_ordered)

lemma run_inv: "run_step\<^sup>*\<^sup>* (start_calls calls) s \<Longrightarrow> lock_inv s"
  by (induction rule: rtranclp_induct) (auto intro: start_inv run_step_inv)


section \<open>Progress\<close>

text \<open>
  When nothing moves, every thread left waits for a lock that is held. The greatest lock waited
  for is held by a thread that waits for a greater one.
\<close>

lemma waits_for_holder:
  assumes inv: "lock_inv s" and get: "get_mutex k s = (m, t)" and "\<not> mutex_free s m"
  obtains j where "j < length (threads s)" and "k \<in> fst ` set (fst (threads s ! j))"
proof -
  from assms(3) obtain j h where j: "j < length (threads s)" "(h, m) \<in> set (fst (threads s ! j))"
    by (auto simp: mutex_free_iff)
  from lock_inv_dest(3) [OF inv j] have h: "lock_map s h = Some m" .
  have ok: "maps_ok s" using inv by (simp add: lock_inv_def)
  have "lock_map s k = Some m"
    using get h ok by (auto simp: get_mutex_def maps_ok_def split: option.splits)
  with h ok have "h = k" by (auto simp: maps_ok_def inj_on_def dom_def)
  with j show thesis by (intro that [of j]) force+
qed

lemma progress:
  assumes inv: "lock_inv s" and left: "\<not> all_returned s"
  shows "\<exists>t. lock_step s t"
proof (rule ccontr)
  assume stuck: "\<nexists>t. lock_step s t"
  define W where "W = {k. \<exists>i < length (threads s). \<exists>held todo. threads s ! i = (held, Lock k # todo)}"
  have wants: "\<exists>k todo'. todo = Lock k # todo' \<and> k \<in> W"
    if th: "i < length (threads s)" "threads s ! i = (held, todo)" and "held \<noteq> [] \<or> todo \<noteq> []" for i held todo
  proof (cases todo)
    case Nil
    then show ?thesis using inv_thread [OF inv th] that(3) by simp
  next
    case (Cons a todo')
    show ?thesis
    proof (cases a)
      case (Unlock k)
      with inv_thread [OF inv th] Cons obtain m hs where "held = (k, m) # hs" by (auto split: list.splits)
      with th Cons Unlock stuck show ?thesis by (blast intro: lock_step.release)
    next
      case (Lock k)
      with Cons th show ?thesis by (auto simp: W_def)
    next
      case (Check k)
      with lock_step.work [OF th(1), of held a todo'] th(2) Cons stuck show ?thesis by auto
    next
      case (Write k)
      with lock_step.work [OF th(1), of held a todo'] th(2) Cons stuck show ?thesis by auto
    qed
  qed
  have "W \<subseteq> (\<lambda>th. case snd th of Lock k # _ \<Rightarrow> k | _ \<Rightarrow> FleetLock []) ` set (threads s)"
    by (force simp: W_def image_iff in_set_conv_nth)
  then have fin: "finite W" by (rule finite_subset) simp
  from left obtain i where i: "i < length (threads s)" "fst (threads s ! i) \<noteq> [] \<or> snd (threads s ! i) \<noteq> []"
    by (auto simp: all_returned_def in_set_conv_nth) (metis fst_conv snd_conv)+
  then have "W \<noteq> {}" using wants [of i "fst (threads s ! i)" "snd (threads s ! i)"] by auto
  with fin have max: "Max W \<in> W" "\<And>k. k \<in> W \<Longrightarrow> k \<le> Max W" by auto
  obtain m t where g: "get_mutex (Max W) s = (m, t)" by fastforce
  from max(1) g have "\<not> mutex_free s m" using stuck unfolding W_def by (blast intro: lock_step.acquire)
  from waits_for_holder [OF inv g this] obtain j where j: "j < length (threads s)"
    "Max W \<in> fst ` set (fst (threads s ! j))" by blast
  have "fst (threads s ! j) \<noteq> []" using j(2) by auto
  with wants [OF j(1), of "fst (threads s ! j)" "snd (threads s ! j)"]
  obtain k todo' where k: "snd (threads s ! j) = Lock k # todo'" "k \<in> W" by auto
  with lock_inv_dest(2) [OF inv j(1)] j(2) have "Max W < k" by auto
  with max(2) [OF k(2)] show False by simp
qed

definition work_left :: "lock_state \<Rightarrow> nat" where
  "work_left s = sum_list (map (length \<circ> snd) (threads s))"

lemma work_set_thread:
  assumes "i < length (threads s)" and "length todo < length (snd (threads s ! i))"
  shows "work_left (set_thread s i (held, todo)) < work_left s"
proof -
  let ?l = "map (length \<circ> snd) (threads s)"
  have "?l ! i \<le> sum_list ?l" using assms(1) by (intro elem_le_sum_list) simp
  then show ?thesis using assms
    by (simp add: work_left_def set_thread_def map_update sum_list_update)
qed

lemma lock_step_work: "lock_step s t \<Longrightarrow> work_left t < work_left s"
proof (induction rule: lock_step.induct)
  case (acquire i s held k todo m t)
  have th: "threads t = threads s" using acquire(3) by (auto simp: get_mutex_def split: option.splits)
  have "work_left (set_thread t i ((k, m) # held, todo)) < work_left t"
    using acquire(1,2) by (intro work_set_thread) (simp_all add: th)
  then show ?case by (simp add: work_left_def th)
qed (auto intro: work_set_thread)

lemma run_to_the_end:
  assumes "lock_inv s"
  shows "\<exists>t. lock_step\<^sup>*\<^sup>* s t \<and> all_returned t"
  using assms
proof (induction "work_left s" arbitrary: s rule: less_induct)
  case less
  show ?case
  proof (cases "all_returned s")
    case False
    from progress [OF less.prems this] obtain u where u: "lock_step s u" by blast
    from less.hyps [OF lock_step_work [OF u] lock_step_inv [OF u less.prems]] u show ?thesis
      by (meson converse_rtranclp_into_rtranclp)
  qed blast
qed

section \<open>Properties\<close>

text \<open>
  C35: no deadlock. However the calls on fleets and scopes are interleaved, and whichever of them
  return early, the locks alone never stop them: from every state they reach, all of them can
  still run to the end, where nothing is locked.
\<close>

theorem calls_never_deadlock:
  assumes "run_step\<^sup>*\<^sup>* (start_calls calls) s"
  shows "\<exists>t. lock_step\<^sup>*\<^sup>* s t \<and> all_returned t"
  using run_to_the_end [OF run_inv [OF assms]] .

definition sample_calls :: "call list" where
  "sample_calls = [CallGrant ''A'', CallAcross [''B'', ''A''] [''1/2/3'', ''4/5/6''], CallCancel [''B'', ''A''] ''4/5/6'']"

definition sample_locked :: lock_state where
  "sample_locked = \<lparr>threads =
     [([(FleetLock ''A'', 0)], [Check (FleetLock ''A''), Write (FleetLock ''A''), Unlock (FleetLock ''A'')]),
      ([], call_actions (sample_calls ! 1)), ([], call_actions (sample_calls ! 2))],
     lock_map = [FleetLock ''A'' \<mapsto> 0], fresh = 1\<rparr>"

lemma sample_locks: "run_step (start_calls sample_calls) sample_locked"
proof -
  let ?todo = "[Check (FleetLock ''A''), Write (FleetLock ''A''), Unlock (FleetLock ''A'')]"
  have a: "call_actions (CallGrant ''A'') = Lock (FleetLock ''A'') # ?todo"
    by (simp add: Gate_actions_def Within_actions_def under_def lock_order_def)
  define s where "s = start_calls sample_calls"
  have s: "length (threads s) = 3" "threads s ! 0 = ([], Lock (FleetLock ''A'') # ?todo)" "mutex_free s 0"
    by (simp_all add: s_def start_calls_def sample_calls_def mutex_free_def a del: call_actions.simps)
  have "lock_step s (set_thread (s\<lparr>lock_map := [FleetLock ''A'' \<mapsto> 0], fresh := 1\<rparr>) 0 ([(FleetLock ''A'', 0)], ?todo))"
    by (rule lock_step.acquire) (use s in \<open>simp_all add: get_mutex_def s_def start_calls_def\<close>)
  moreover have "set_thread (s\<lparr>lock_map := [FleetLock ''A'' \<mapsto> 0], fresh := 1\<rparr>) 0 ([(FleetLock ''A'', 0)], ?todo) = sample_locked"
    by (simp add: s_def set_thread_def start_calls_def sample_locked_def sample_calls_def)
  ultimately show ?thesis by (simp add: s_def run_step.move)
qed

theorem calls_never_deadlock_witness:
  "run_step (start_calls sample_calls) sample_locked \<and> (\<exists>t. lock_step\<^sup>*\<^sup>* sample_locked t \<and> all_returned t)"
  using calls_never_deadlock [OF r_into_rtranclp [where r = run_step, OF sample_locks]] sample_locks by blast





end
