(* ===== verification/Operations.thy ===== *)
theory Operations
  imports Ledger "HOL-Library.Product_Lexorder"
begin

text \<open>
  \<open>internal/commitment/operations.go\<close>: cancelling and revising a grant. The writers and the
  replacement are interfaces of the code; a nil one is \<open>None\<close>. The rollback steps run under
  a context of their own, so here they are the plain operation.
\<close>

record 's execution_writer =
  CancelExecution :: "control \<Rightarrow> string \<Rightarrow> (err, 's, unit) io"
  RelinkExecution :: "control \<Rightarrow> string \<Rightarrow> (err, 's, unit) io"

record 's grant_writer =
  MarkCancelled :: "grant \<Rightarrow> string \<Rightarrow> int \<Rightarrow> (err, 's, unit) io"

record 's Writers =
  w_Executions :: "'s execution_writer option"
  w_Grants :: "'s grant_writer option"

record 's Replacement =
  r_Grant :: grant
  r_Create :: "(err, 's, unit) io option"
  r_Delete :: "(err, 's, unit) io option"

definition Writers_valid :: "'s Writers \<Rightarrow> err option" where
  "Writers_valid w =
     (if w_Executions w = None \<or> w_Grants w = None
      then Some (Errorf ''commitment: both writers are required'' []) else None)"

text \<open>A call through a nil interface panics.\<close>

definition w_cancel :: "'s Writers \<Rightarrow> control \<Rightarrow> string \<Rightarrow> (err, 's, unit) io" where
  "w_cancel w c reason = (case w_Executions w of
     None \<Rightarrow> io_fail (Panic ''nil ExecutionWriter'') | Some x \<Rightarrow> CancelExecution x c reason)"

definition w_relink :: "'s Writers \<Rightarrow> control \<Rightarrow> string \<Rightarrow> (err, 's, unit) io" where
  "w_relink w c mrid = (case w_Executions w of
     None \<Rightarrow> io_fail (Panic ''nil ExecutionWriter'') | Some x \<Rightarrow> RelinkExecution x c mrid)"

definition w_mark :: "'s Writers \<Rightarrow> grant \<Rightarrow> string \<Rightarrow> int \<Rightarrow> (err, 's, unit) io" where
  "w_mark w g reason now = (case w_Grants w of
     None \<Rightarrow> io_fail (Panic ''nil GrantWriter'') | Some x \<Rightarrow> MarkCancelled x g reason now)"

definition rep_create :: "'s Replacement \<Rightarrow> (err, 's, unit) io" where
  "rep_create rep = (case r_Create rep of None \<Rightarrow> io_fail (Panic ''nil Create'') | Some f \<Rightarrow> f)"

definition rep_delete :: "'s Replacement \<Rightarrow> (err, 's, unit) io" where
  "rep_delete rep = (case r_Delete rep of None \<Rightarrow> io_fail (Panic ''nil Delete'') | Some f \<Rightarrow> f)"

section \<open>The NothingWritten mark\<close>

fun nothing_written_of :: "err list \<Rightarrow> err option" where
  "nothing_written_of [] = None"
| "nothing_written_of (NothingWrittenError e # es) = Some e"
| "nothing_written_of (e # es) = nothing_written_of es"

definition nothing_written :: "err \<Rightarrow> bool" where
  "nothing_written e \<longleftrightarrow> nothing_written_of (err_tree e) \<noteq> None"

definition unmarked :: "err \<Rightarrow> err" where
  "unmarked e = (case nothing_written_of (err_tree e) of None \<Rightarrow> e | Some f \<Rightarrow> f)"

section \<open>Reads under the lock\<close>

definition fleetOfGrant :: "'s Ledger \<Rightarrow> string \<Rightarrow> (err, 's, string) io" where
  "fleetOfGrant l mrid =
     io_bind (io_map_err (\<lambda>e. Errorf ''commitment: reading grant'' [e]) (GrantByMRID (l_grants l) mrid))
       (\<lambda>g. io_return (g_FleetKey g))"

definition liveGrant :: "'s Ledger \<Rightarrow> string \<Rightarrow> string \<Rightarrow> (err, 's, grant) io" where
  "liveGrant l mrid fleet =
     io_bind (io_map_err (\<lambda>e. Errorf ''commitment: reading grant'' [e]) (GrantByMRID (l_grants l) mrid))
       (\<lambda>g. if g_FleetKey g \<noteq> fleet
            then io_fail (Errorf ''commitment: grant moved from its fleet during the call'' [])
            else if g_CancelledAt g \<noteq> None
            then io_fail (ConflictError ConflictGrantNotLive mrid)
            else io_return g)"

definition exec_key :: "control \<Rightarrow> int \<times> string" where
  "exec_key c = (Start (c_Window c), c_MRID c)"

definition liveExecutions :: "'s Ledger \<Rightarrow> string \<Rightarrow> (err, 's, control list) io" where
  "liveExecutions l grantMRID =
     io_bind (io_map_err (\<lambda>e. Errorf ''commitment: reading executions of grant'' [e])
                (ExecutionsOf (l_controls l) grantMRID))
       (\<lambda>execs. io_return (sort_key exec_key (filter (\<lambda>c. \<not> c_Cancelled c) execs)))"

section \<open>Cancelling a grant\<close>

fun cancelExecutions :: "'s Writers \<Rightarrow> control list \<Rightarrow> string \<Rightarrow> (err, 's, unit) io" where
  "cancelExecutions w [] reason = io_return ()"
| "cancelExecutions w (c # cs) reason =
     io_bind (io_map_err (\<lambda>e. Errorf ''commitment: cancelling execution'' [e]) (w_cancel w c reason))
       (\<lambda>_. cancelExecutions w cs reason)"

definition CancelGrant ::
    "'s Ledger \<Rightarrow> 's ctx \<Rightarrow> 's Writers \<Rightarrow> string \<Rightarrow> string \<Rightarrow> int \<Rightarrow> (err, 's, unit) io" where
  "CancelGrant l ctx w grantMRID reason now =
     io_bind (io_check (Writers_valid w)) (\<lambda>_.
     io_bind (fleetOfGrant l grantMRID) (\<lambda>fleet.
     Within_locks (Some l) ctx [fleet] (\<lambda>_.
       io_bind (liveGrant l grantMRID fleet) (\<lambda>g.
       io_bind (liveExecutions l (g_MRID g)) (\<lambda>execs.
       io_bind (cancelExecutions w execs reason) (\<lambda>_.
       io_map_err (\<lambda>e. Errorf ''commitment: marking grant cancelled'' [e])
         (w_mark w g reason now)))))))"

section \<open>Revising a grant\<close>

definition replacementGrant :: "grant \<Rightarrow> 's Replacement \<Rightarrow> err + grant" where
  "replacementGrant old rep =
     (let g = r_Grant rep; bad = Inl (Errorf ''not a revision'' [ErrBadReplacement])
      in if r_Create rep = None \<or> r_Delete rep = None then bad
         else if g_MRID g = [] \<or> g_MRID g = g_MRID old then bad
         else if g_EndDeviceID g \<noteq> g_EndDeviceID old then bad
         else if g_Subject g = [] \<or> g_Subject g \<noteq> g_Subject old then bad
         else if g_CreationTime g \<le> g_CreationTime old then bad
         else if g_CancelledAt g \<noteq> None then bad
         else Inr (g\<lparr>g_FleetKey := g_FleetKey old\<rparr>))"

fun fitsRevision_loop :: "grant \<Rightarrow> control list \<Rightarrow> control list \<Rightarrow> err option" where
  "fitsRevision_loop nxt before [] = None"
| "fitsRevision_loop nxt before (c # cs) =
     (case FitsGrant nxt (before @ [c]) None of
        None \<Rightarrow> fitsRevision_loop nxt (before @ [c]) cs
      | Some e \<Rightarrow>
          (case as_conflict e of
             Some (code, _) \<Rightarrow> Some (ConflictError code (c_MRID c))
           | None \<Rightarrow> Some e))"

definition fitsRevision :: "grant \<Rightarrow> control list \<Rightarrow> err option" where
  "fitsRevision nxt execs =
     (if execs = [] then FitsGrant nxt [] None else fitsRevision_loop nxt [] execs)"

text \<open>
  The rollback of \<open>reviseWrites\<close>: every touched execution is relinked to the old grant,
  newest first and each attempted; the revision is deleted only when all of them moved back.
\<close>

fun undo_relinks :: "'s Writers \<Rightarrow> string \<Rightarrow> control list \<Rightarrow> 's \<Rightarrow> err list \<times> 's" where
  "undo_relinks w oldMRID [] s = ([], s)"
| "undo_relinks w oldMRID (c # cs) s =
     (case w_relink w c oldMRID s of
        (Inr _, t) \<Rightarrow> undo_relinks w oldMRID cs t
      | (Inl e, t) \<Rightarrow>
          (case undo_relinks w oldMRID cs t of
             (failed, u) \<Rightarrow> (Errorf ''relinking back'' [unmarked e] # failed, u)))"

definition undo_revise ::
    "'s Writers \<Rightarrow> grant \<Rightarrow> 's Replacement \<Rightarrow> control list \<Rightarrow> err \<Rightarrow> (err, 's, unit) io" where
  "undo_revise w old rep touched cause s =
     (case undo_relinks w (g_MRID old) (rev touched) s of
        (failed, t) \<Rightarrow>
          if failed \<noteq> []
          then (Inl (Errorf ''undo'' [ErrUndo, cause, Errorf ''join'' failed]), t)
          else (case rep_delete rep t of
                  (Inl e, u) \<Rightarrow>
                    (Inl (Errorf ''undo'' [ErrUndo, cause, Errorf ''join'' [Errorf ''deleting revision'' [e]]]), u)
                | (Inr _, u) \<Rightarrow> (Inl cause, u)))"

fun relink_loop ::
    "'s Writers \<Rightarrow> grant \<Rightarrow> 's Replacement \<Rightarrow> control list \<Rightarrow> control list \<Rightarrow> (err, 's, control list) io" where
  "relink_loop w old rep touched [] s = (Inr touched, s)"
| "relink_loop w old rep touched (c # cs) s =
     (case w_relink w c (g_MRID (r_Grant rep)) s of
        (Inr _, t) \<Rightarrow> relink_loop w old rep (touched @ [c]) cs t
      | (Inl e, t) \<Rightarrow>
          (case undo_revise w old rep (if nothing_written e then touched else touched @ [c])
                  (Errorf ''commitment: relinking execution'' [unmarked e]) t of
             (Inl f, u) \<Rightarrow> (Inl f, u)
           | (Inr _, u) \<Rightarrow> (Inr touched, u)))"

definition reviseWrites ::
    "'s Writers \<Rightarrow> grant \<Rightarrow> 's Replacement \<Rightarrow> control list \<Rightarrow> string \<Rightarrow> int \<Rightarrow> (err, 's, unit) io" where
  "reviseWrites w old rep execs reason now =
     io_bind (io_map_err (\<lambda>e. Errorf ''commitment: storing revision'' [e]) (rep_create rep)) (\<lambda>_.
     io_bind (relink_loop w old rep [] execs) (\<lambda>touched.
     io_try (w_mark w old reason now) (\<lambda>r.
       case r of
         Inr _ \<Rightarrow> io_return ()
       | Inl e \<Rightarrow> undo_revise w old rep touched (Errorf ''commitment: marking grant cancelled'' [e]))))"

definition reviseToDenial ::
    "'s Writers \<Rightarrow> grant \<Rightarrow> 's Replacement \<Rightarrow> control list \<Rightarrow> string \<Rightarrow> int \<Rightarrow> (err, 's, unit) io" where
  "reviseToDenial w old rep execs reason now =
     io_bind (cancelExecutions w execs reason) (\<lambda>_.
     io_bind (io_map_err (\<lambda>e. Errorf ''commitment: storing denial'' [e]) (rep_create rep)) (\<lambda>_.
     io_try (w_mark w old reason now) (\<lambda>r.
       case r of
         Inr _ \<Rightarrow> io_return ()
       | Inl e \<Rightarrow>
           (let cause = Errorf ''commitment: marking grant cancelled'' [e]
            in io_try (rep_delete rep) (\<lambda>d.
                 case d of
                   Inl derr \<Rightarrow> io_fail (Errorf ''deleting denial'' [ErrUndo, cause, derr])
                 | Inr _ \<Rightarrow> io_fail cause)))))"

definition has_zero_window :: "grant \<Rightarrow> bool" where
  "has_zero_window g = (case g_Window g of None \<Rightarrow> False | Some w \<Rightarrow> Duration w = 0)"

definition Revise ::
    "'s Ledger \<Rightarrow> 's ctx \<Rightarrow> 's Writers \<Rightarrow> string \<Rightarrow> string \<Rightarrow> int \<Rightarrow>
     (grant \<Rightarrow> (err, 's, 's Replacement) io) option \<Rightarrow> (err, 's, unit) io" where
  "Revise l ctx w oldMRID reason now build =
     io_bind (io_check (Writers_valid w)) (\<lambda>_.
     case build of
       None \<Rightarrow> io_fail (Errorf ''commitment: Revise needs a build function'' [])
     | Some mk \<Rightarrow>
     io_bind (fleetOfGrant l oldMRID) (\<lambda>fleet.
     Within_locks (Some l) ctx [fleet] (\<lambda>v.
       io_bind (liveGrant l oldMRID fleet) (\<lambda>old.
       if g_Window old = None \<or> has_zero_window old
       then io_fail (ConflictError ConflictGrantNotLive (g_MRID old))
       else
       io_bind (io_map_err (\<lambda>e. Errorf ''commitment: building the revision'' [e]) (mk old)) (\<lambda>rep.
       io_bind (io_lift (replacementGrant old rep)) (\<lambda>nxt.
       io_bind (liveExecutions l (g_MRID old)) (\<lambda>execs.
       if has_zero_window nxt then reviseToDenial w old rep execs reason now
       else
       io_bind (CheckGrant l v fleet (g_Window nxt) (g_MRID old)) (\<lambda>_.
       io_bind (io_check (fitsRevision nxt execs)) (\<lambda>_.
       reviseWrites w old rep execs reason now)))))))))"

section \<open>Completing an interrupted revision\<close>

fun markAllCancelled :: "'s Writers \<Rightarrow> grant list \<Rightarrow> string \<Rightarrow> int \<Rightarrow> (err, 's, unit) io" where
  "markAllCancelled w [] reason now = io_return ()"
| "markAllCancelled w (g # gs) reason now =
     io_bind (io_map_err (\<lambda>e. Errorf ''commitment: marking grant cancelled'' [e]) (w_mark w g reason now))
       (\<lambda>_. markAllCancelled w gs reason now)"

fun read_olds :: "'s Ledger \<Rightarrow> string \<Rightarrow> string list \<Rightarrow> (err, 's, grant list \<times> control list) io" where
  "read_olds l fleet [] = io_return ([], [])"
| "read_olds l fleet (m # ms) =
     io_bind (liveGrant l m fleet) (\<lambda>g.
     io_bind (liveExecutions l (g_MRID g)) (\<lambda>execs.
     io_bind (read_olds l fleet ms) (\<lambda>(olds, onOld).
     io_return (g # olds, execs @ onOld))))"

fun relink_forward :: "'s Writers \<Rightarrow> string \<Rightarrow> control list \<Rightarrow> (err, 's, unit) io" where
  "relink_forward w mrid [] = io_return ()"
| "relink_forward w mrid (c # cs) =
     io_bind (io_map_err (\<lambda>e. Errorf ''commitment: relinking execution'' [unmarked e]) (w_relink w c mrid))
       (\<lambda>_. relink_forward w mrid cs)"

definition CompleteRevision ::
    "'s Ledger \<Rightarrow> 's ctx \<Rightarrow> 's Writers \<Rightarrow> string list \<Rightarrow> string \<Rightarrow> int \<Rightarrow>
     (err, 's, unit) io option \<Rightarrow> (err, 's, bool) io" where
  "CompleteRevision l ctx w oldMRIDs tipMRID now deleteTip =
     io_bind (io_check (Writers_valid w)) (\<lambda>_.
     case deleteTip of
       None \<Rightarrow> io_fail (Errorf ''commitment: CompleteRevision needs its arguments'' [])
     | Some del \<Rightarrow>
     if oldMRIDs = [] \<or> tipMRID = []
     then io_fail (Errorf ''commitment: CompleteRevision needs its arguments'' [])
     else
     io_bind (fleetOfGrant l tipMRID) (\<lambda>fleet.
     Within_locks (Some l) ctx [fleet] (\<lambda>_.
       io_bind (liveGrant l tipMRID fleet) (\<lambda>tip.
       io_bind (read_olds l fleet oldMRIDs) (\<lambda>(olds, onOld).
       io_bind (liveExecutions l (g_MRID tip)) (\<lambda>onTip.
       if has_zero_window tip then
         io_bind (cancelExecutions w onOld ''revision completed after restart'') (\<lambda>_.
         io_bind (markAllCancelled w olds ''revision completed after restart'' now) (\<lambda>_.
         io_return True))
       else
         (case fitsRevision tip (sort_key exec_key (onOld @ onTip)) of
            None \<Rightarrow>
              io_bind (relink_forward w (g_MRID tip) onOld) (\<lambda>_.
              io_bind (markAllCancelled w olds ''revision completed after restart'' now) (\<lambda>_.
              io_return True))
          | Some e \<Rightarrow>
              if as_conflict e = None then io_fail (Errorf ''commitment: checking revision'' [e])
              else
                io_bind (relink_forward w (g_MRID (last olds)) onTip) (\<lambda>_.
                io_bind (io_map_err (\<lambda>e. Errorf ''commitment: deleting revision'' [e]) del) (\<lambda>_.
                io_return False)))))))))"

end
