(* ===== verification/Sources.thy ===== *)
theory Sources
  imports Operations Devices Issuer
begin

text \<open>
  \<open>internal/commitment/sources\<close>: the flow reservation responses and the DER controls read as
  the grants and controls the ledger checks, and the writers behind \<open>CancelGrant\<close> and
  \<open>Revise\<close>. The stores are the interfaces the code declares, records of operations; a
  \<open>keep\<close> callback is applied to the controls of the walk in order, and on an error nothing it
  gathered is returned. The log of skipped devices is left out.
\<close>

record FlowReservationResponse =
  frp_Href :: string
  frp_MRID :: string
  frp_Subject :: string
  frp_CreationTime :: int
  frp_Interval :: "window option"
  frp_EnergyAvailable :: "signed_real_energy option"
  frp_PowerAvailable :: "active_power option"

record ('s, 'a) scopedLister =
  sl_Parents :: "(err, 's, string list) io"
  sl_List :: "string \<Rightarrow> ListOptions \<Rightarrow> (err, 's, 'a ListResult) io"

section \<open>Devices that are gone\<close>

definition fleetOrGone ::
    "bool \<Rightarrow> (string \<Rightarrow> (err, 's, string) io) \<Rightarrow> string \<Rightarrow> (err, 's, string) io" where
  "fleetOrGone skipNoLFDI fleets edevID =
     io_try (fleets edevID) (\<lambda>r.
       case r of
         Inr fleet \<Rightarrow> io_return fleet
       | Inl e \<Rightarrow>
           if err_is e ErrNotFound then io_return []
           else if skipNoLFDI \<and> err_is e ErrNoLFDI then io_return []
           else io_fail e)"

section \<open>The grant source\<close>

definition CutPrefix :: "string \<Rightarrow> string \<Rightarrow> string option" where
  "CutPrefix s pre = (if prefix pre s then Some (drop (length pre) s) else None)"

definition ResponseID :: "string \<Rightarrow> string \<Rightarrow> string option" where
  "ResponseID edevID href =
     (case CutPrefix href (''/edev/'' @ edevID @ ''/frp/'') of
        None \<Rightarrow> None
      | Some i \<Rightarrow> if i = [] \<or> CHR ''/'' \<in> set i then None else Some i)"

definition requestID :: "string \<Rightarrow> string \<Rightarrow> string option" where
  "requestID edevID href =
     (case CutPrefix href (''/edev/'' @ edevID @ ''/frq/'') of
        None \<Rightarrow> None
      | Some i \<Rightarrow> if i = [] \<or> CHR ''/'' \<in> set i then None else Some i)"

definition grantFields :: "string \<Rightarrow> FlowReservationResponse \<Rightarrow> err + grant" where
  "grantFields edevID frp =
     (case ResponseID edevID (frp_Href frp) of
        None \<Rightarrow> Inl (Errorf ''sources: response href has no store id'' [])
      | Some i \<Rightarrow>
          Inr \<lparr>g_MRID = frp_MRID frp, g_ID = i, g_EndDeviceID = edevID, g_FleetKey = [],
               g_Window = frp_Interval frp, g_Energy = frp_EnergyAvailable frp,
               g_Power = frp_PowerAvailable frp, g_CancelledAt = None, g_Subject = frp_Subject frp,
               g_CreationTime = frp_CreationTime frp\<rparr>)"

definition grantOf :: "'s lc_get \<Rightarrow> string \<Rightarrow> string \<Rightarrow> FlowReservationResponse \<Rightarrow> (err, 's, grant) io" where
  "grantOf lifecycles edevID fleet frp =
     io_bind (io_lift (grantFields edevID frp)) (\<lambda>gr0.
       let gr = gr0\<lparr>g_FleetKey := fleet\<rparr>
       in io_try (lifecycles edevID (g_ID gr)) (\<lambda>r.
            case r of
              Inr lc \<Rightarrow> io_return (gr\<lparr>g_CancelledAt := lc_CancelledAt lc\<rparr>)
            | Inl e \<Rightarrow> if \<not> err_is e ErrNotFound
                      then io_fail (Errorf ''sources: lifecycle of response'' [e])
                      else io_return gr))"

text \<open>Every item of a page in turn; the first error ends the walk.\<close>

fun each_item :: "('a \<Rightarrow> (err, 's, 'b) io) \<Rightarrow> 'a list \<Rightarrow> (err, 's, 'b list) io" where
  "each_item f [] = io_return []"
| "each_item f (x # xs) =
     io_bind (f x) (\<lambda>y. io_bind (each_item f xs) (\<lambda>ys. io_return (y # ys)))"

fun grants_under ::
    "('s, FlowReservationResponse) scopedLister \<Rightarrow> 's lc_get \<Rightarrow> (string \<Rightarrow> (err, 's, string) io) \<Rightarrow>
     string list \<Rightarrow> (err, 's, grant list) io" where
  "grants_under responses lifecycles fleets [] = io_return []"
| "grants_under responses lifecycles fleets (edevID # rest) =
     io_bind (io_map_err (\<lambda>e. Errorf ''sources: listing responses'' [e])
                (sl_List responses edevID unbounded_options)) (\<lambda>page.
       if lr_Items page = [] then grants_under responses lifecycles fleets rest
       else
         io_bind (fleetOrGone False fleets edevID) (\<lambda>fleet.
           if fleet = [] then grants_under responses lifecycles fleets rest
           else
             io_bind (each_item (grantOf lifecycles edevID fleet) (lr_Items page)) (\<lambda>here.
             io_bind (grants_under responses lifecycles fleets rest) (\<lambda>later.
             io_return (here @ later)))))"

definition Grants_all ::
    "('s, FlowReservationResponse) scopedLister \<Rightarrow> 's lc_get \<Rightarrow> (string \<Rightarrow> (err, 's, string) io) \<Rightarrow>
     (err, 's, grant list) io" where
  "Grants_all responses lifecycles fleets =
     io_bind (io_map_err (\<lambda>e. Errorf ''sources: listing response parents'' [e]) (sl_Parents responses))
       (grants_under responses lifecycles fleets)"

definition counted_in :: "string \<Rightarrow> grant \<Rightarrow> bool" where
  "counted_in fleetKey gr \<longleftrightarrow> g_FleetKey gr = fleetKey \<and>
     (case g_Window gr of None \<Rightarrow> False | Some w \<Rightarrow> Duration w > 0)"

definition NewGrants ::
    "('s, FlowReservationResponse) scopedLister \<Rightarrow> 's lc_get \<Rightarrow> (string \<Rightarrow> (err, 's, string) io) \<Rightarrow>
     's grant_source" where
  "NewGrants responses lifecycles fleets =
     \<lparr>GrantsInFleet = (\<lambda>fleetKey.
        io_bind (Grants_all responses lifecycles fleets) (\<lambda>all.
          io_return (filter (counted_in fleetKey) all))),
      GrantByMRID = (\<lambda>mrid.
        io_bind (Grants_all responses lifecycles fleets) (\<lambda>all.
          case find (\<lambda>gr. g_MRID gr = mrid) all of
            Some gr \<Rightarrow> io_return gr
          | None \<Rightarrow> io_fail (Errorf ''sources: grant'' [ErrNoGrant])))\<rparr>"

section \<open>The control source\<close>

definition scopeEndDevice :: "string \<Rightarrow> string option" where
  "scopeEndDevice scope =
     (case split_on CHR ''/'' scope of
        [p0, p1, p2] \<Rightarrow> if p0 = [] \<or> p1 = [] \<or> p2 = [] then None else Some p0
      | _ \<Rightarrow> None)"

definition controlOf ::
    "string \<Rightarrow> string \<Rightarrow> string \<Rightarrow> DERControl \<Rightarrow> LifecycleRecord \<Rightarrow> err + control" where
  "controlOf scope rid fleet ctrl lc =
     (case scopeEndDevice scope of
        None \<Rightarrow> Inl (Errorf ''sources: control scope is not edev/fsa/derp'' [])
      | Some edevID \<Rightarrow>
          (case d_Interval ctrl of
             None \<Rightarrow> Inl (Errorf ''sources: control has no interval'' [])
           | Some w \<Rightarrow>
               if lc_Reach lc < 0 then Inl (Errorf ''sources: control has a negative reach'' [])
               else Inr \<lparr>c_MRID = d_MRID ctrl, c_ID = rid, c_Scope = scope, c_EndDeviceID = edevID,
                      c_FleetKey = fleet,
                      c_Window = (case lc_SupersededAt lc of None \<Rightarrow> w | Some x \<Rightarrow> ClipAt w x),
                      c_GrantMRID = lc_GrantMRID lc, c_TargetW = TargetOf (d_Base ctrl),
                      c_Reach = (if lc_Reach lc = 0 then 1 else lc_Reach lc),
                      c_Cancelled = (lc_CancelledAt lc \<noteq> None), c_FleetTotal = lc_FleetTotal lc\<rparr>))"

record 's lifecycleWalker =
  lw_Get :: "'s lc_get"
  lw_Parents :: "(err, 's, string list) io"

text \<open>
  The items of one scope; \<open>known\<close> is the map of fleets resolved so far, keyed by EndDevice.
\<close>

fun controls_of_items ::
    "'s lifecycleWalker \<Rightarrow> (string \<Rightarrow> (err, 's, string) io) \<Rightarrow> string \<Rightarrow> string \<Rightarrow> DERControl list \<Rightarrow>
     (string \<rightharpoonup> string) \<Rightarrow> (err, 's, control list \<times> (string \<rightharpoonup> string)) io" where
  "controls_of_items lcs fleets scope edevID [] known = io_return ([], known)"
| "controls_of_items lcs fleets scope edevID (ctrl # rest) known =
     (case ControlID (d_Href ctrl) of
        None \<Rightarrow> io_fail (Errorf ''sources: control href has no store id'' [])
      | Some rid \<Rightarrow>
          io_try (lw_Get lcs scope rid) (\<lambda>r.
            case r of
              Inl e \<Rightarrow>
                if err_is e ErrNotFound then controls_of_items lcs fleets scope edevID rest known
                else io_fail (Errorf ''sources: lifecycle of control'' [e])
            | Inr lc \<Rightarrow>
                io_bind (if lc_FleetKey lc \<noteq> [] then io_return (lc_FleetKey lc, known)
                         else case known edevID of
                           Some fleet \<Rightarrow> io_return (fleet, known)
                         | None \<Rightarrow>
                             io_bind (fleetOrGone True fleets edevID) (\<lambda>fleet.
                               io_return (fleet, known(edevID \<mapsto> fleet))))
                  (\<lambda>(fleet, known').
                    if fleet = [] then controls_of_items lcs fleets scope edevID rest known'
                    else
                      io_bind (io_lift (controlOf scope rid fleet ctrl lc)) (\<lambda>ctl.
                      io_bind (controls_of_items lcs fleets scope edevID rest known') (\<lambda>(ctls, known'').
                      io_return (ctl # ctls, known''))))))"

fun controls_of_scopes ::
    "('s, DERControl) scopedLister \<Rightarrow> 's lifecycleWalker \<Rightarrow> (string \<Rightarrow> (err, 's, string) io) \<Rightarrow>
     string list \<Rightarrow> (string \<rightharpoonup> string) \<Rightarrow> (err, 's, control list) io" where
  "controls_of_scopes controls lcs fleets [] known = io_return []"
| "controls_of_scopes controls lcs fleets (scope # rest) known =
     (case scopeEndDevice scope of
        None \<Rightarrow> io_fail (Errorf ''sources: control scope is not edev/fsa/derp'' [])
      | Some edevID \<Rightarrow>
          io_bind (io_map_err (\<lambda>e. Errorf ''sources: listing controls'' [e])
                     (sl_List controls scope unbounded_options)) (\<lambda>page.
          io_bind (controls_of_items lcs fleets scope edevID (lr_Items page) known) (\<lambda>(here, known').
          io_bind (controls_of_scopes controls lcs fleets rest known') (\<lambda>later.
          io_return (here @ later)))))"

definition Controls_walk ::
    "('s, DERControl) scopedLister \<Rightarrow> 's lifecycleWalker \<Rightarrow> (string \<Rightarrow> (err, 's, string) io) \<Rightarrow>
     (err, 's, control list) io" where
  "Controls_walk controls lcs fleets =
     io_bind (io_map_err (\<lambda>e. Errorf ''sources: listing control lifecycle scopes'' [e]) (lw_Parents lcs))
       (\<lambda>scopes. controls_of_scopes controls lcs fleets scopes Map.empty)"

definition Controls_filter ::
    "('s, DERControl) scopedLister \<Rightarrow> 's lifecycleWalker \<Rightarrow> (string \<Rightarrow> (err, 's, string) io) \<Rightarrow>
     (control \<Rightarrow> bool) \<Rightarrow> (err, 's, control list) io" where
  "Controls_filter controls lcs fleets keep =
     io_bind (Controls_walk controls lcs fleets) (\<lambda>cs. io_return (filter keep cs))"

text \<open>The side of \<open>ControlsAndExecutions\<close> that gathers: \<open>execs\<close> holds the asked grants only.\<close>

fun gather_executions :: "(string \<rightharpoonup> control list) \<Rightarrow> control list \<Rightarrow> string \<rightharpoonup> control list" where
  "gather_executions execs [] = execs"
| "gather_executions execs (ctl # ctls) =
     gather_executions
       (if c_GrantMRID ctl \<noteq> [] then
          (case execs (c_GrantMRID ctl) of
             None \<Rightarrow> execs
           | Some xs \<Rightarrow> execs(c_GrantMRID ctl \<mapsto> xs @ [ctl]))
        else execs) ctls"

definition NewControls ::
    "('s, DERControl) scopedLister \<Rightarrow> 's lifecycleWalker \<Rightarrow> (string \<Rightarrow> (err, 's, string) io) \<Rightarrow>
     's control_source" where
  "NewControls controls lcs fleets =
     \<lparr>ControlsInFleet = (\<lambda>fleetKey.
        Controls_filter controls lcs fleets (\<lambda>c. c_FleetKey c = fleetKey)),
      ExecutionsOf = (\<lambda>grantMRID.
        if grantMRID = [] then io_fail (Errorf ''sources: ExecutionsOf needs a grant mRID'' [])
        else Controls_filter controls lcs fleets (\<lambda>c. c_GrantMRID c = grantMRID)),
      ControlsAndExecutions = (\<lambda>fleetKey grantMRIDs.
        if [] \<in> set grantMRIDs
        then io_fail (Errorf ''sources: ControlsAndExecutions needs non-empty grant mRIDs'' [])
        else
          io_bind (Controls_walk controls lcs fleets) (\<lambda>cs.
            let execs = gather_executions (\<lambda>m. if m \<in> set grantMRIDs then Some [] else None) cs
            in io_return (filter (\<lambda>c. c_FleetKey c = fleetKey) cs,
                          \<lambda>m. case execs m of None \<Rightarrow> [] | Some xs \<Rightarrow> xs)))\<rparr>"

definition NewLedger ::
    "(string \<Rightarrow> (err, 's, EndDevice) io) \<Rightarrow> 's managers_reader \<Rightarrow>
     ('s, FlowReservationResponse) scopedLister \<Rightarrow> 's lc_get \<Rightarrow>
     ('s, DERControl) scopedLister \<Rightarrow> 's lifecycleWalker \<Rightarrow> 's Ledger" where
  "NewLedger devices managers responses responseLifecycles controls controlLifecycles =
     (let fleets = FleetOf devices managers
      in \<lparr>l_grants = NewGrants responses responseLifecycles fleets,
          l_controls = NewControls controls controlLifecycles fleets\<rparr>)"

section \<open>The writers\<close>

definition controlScope :: "control \<Rightarrow> err + Scope" where
  "controlScope c =
     (case split_on CHR ''/'' (c_Scope c) of
        [p0, p1, p2] \<Rightarrow>
          if p0 = [] \<or> p1 = [] \<or> p2 = [] \<or> c_ID c = []
          then Inl (Errorf ''sources: control scope and id'' [])
          else Inr \<lparr>EndDeviceID = p0, FSAID = p1, DERProgramID = p2\<rparr>
      | _ \<Rightarrow> Inl (Errorf ''sources: control scope and id'' []))"

record 's lifecycleWriter =
  ww_Get :: "'s lc_get"
  ww_Create :: "string \<Rightarrow> string \<Rightarrow> LifecycleRecord \<Rightarrow> (err, 's, unit) io"
  ww_Update :: "string \<Rightarrow> string \<Rightarrow> LifecycleRecord \<Rightarrow> (err, 's, unit) io"

definition sources_MarkCancelled ::
    "'s lifecycleWriter \<Rightarrow> grant \<Rightarrow> string \<Rightarrow> int \<Rightarrow> (err, 's, unit) io" where
  "sources_MarkCancelled lifecycles g reason now =
     (if g_EndDeviceID g = [] \<or> g_ID g = [] then io_fail (Errorf ''sources: grant has no store key'' [])
      else
        io_try (ww_Get lifecycles (g_EndDeviceID g) (g_ID g)) (\<lambda>r.
          case r of
            Inl e \<Rightarrow>
              if err_is e ErrNotFound
              then ww_Create lifecycles (g_EndDeviceID g) (g_ID g)
                     (zero_lifecycle\<lparr>lc_CancelledAt := Some now, lc_CancelReason := reason\<rparr>)
              else io_fail (Errorf ''sources: lifecycle of response'' [e])
          | Inr rec \<Rightarrow>
              if lc_CancelledAt rec \<noteq> None then io_fail (ConflictError ConflictGrantNotLive (g_MRID g))
              else ww_Update lifecycles (g_EndDeviceID g) (g_ID g)
                     (rec\<lparr>lc_CancelledAt := Some now, lc_CancelReason := reason\<rparr>)))"

text \<open>
  \<open>relink_failed\<close>: the errors the issuer returns before it wrote anything are marked so.
\<close>

definition relink_failed :: "err \<Rightarrow> err" where
  "relink_failed e =
     (if as_refusal e \<noteq> None \<or> err_is e ErrNotExecution \<or> err_is e ErrRelinkNotStarted
      then NothingWrittenError e else e)"

definition NewWriters :: "('s, 'f) Issuer \<Rightarrow> 's ctx \<Rightarrow> int \<Rightarrow> 's lifecycleWriter \<Rightarrow> 's Writers" where
  "NewWriters issuer ctx clock responseLifecycles =
     \<lparr>w_Executions = Some
        \<lparr>CancelExecution = (\<lambda>c reason s.
           case controlScope c of
             Inl e \<Rightarrow> (Inl e, s)
           | Inr scope \<Rightarrow>
               (case CancelLive issuer ctx clock scope (c_ID c) reason s of
                  ((_, Some e), t) \<Rightarrow> (Inl e, t) | ((_, None), t) \<Rightarrow> (Inr (), t))),
         RelinkExecution = (\<lambda>c grantMRID s.
           case controlScope c of
             Inl e \<Rightarrow> (Inl e, s)
           | Inr scope \<Rightarrow>
               (case Relink issuer ctx scope (c_ID c) grantMRID s of
                  ((_, Some e), t) \<Rightarrow> (Inl (relink_failed e), t) | ((_, None), t) \<Rightarrow> (Inr (), t)))\<rparr>,
      w_Grants = Some \<lparr>MarkCancelled = sources_MarkCancelled responseLifecycles\<rparr>\<rparr>"

definition NewReplacement ::
    "(string \<Rightarrow> string \<Rightarrow> FlowReservationResponse \<Rightarrow> (err, 's, unit) io) \<Rightarrow>
     (string \<Rightarrow> string \<Rightarrow> (err, 's, unit) io) \<Rightarrow> string \<Rightarrow> FlowReservationResponse \<Rightarrow>
     err + 's Replacement" where
  "NewReplacement responses_Create responses_Delete edevID frp =
     (case grantFields edevID frp of
        Inl e \<Rightarrow> Inl e
      | Inr g \<Rightarrow>
          Inr \<lparr>r_Grant = g,
               r_Create = Some (io_map_err
                 (\<lambda>e. if err_is e ErrAlreadyExists then RevisionStoredError edevID (g_ID g) else e)
                 (responses_Create edevID (g_ID g) frp)),
               r_Delete = Some (responses_Delete edevID (g_ID g))\<rparr>)"

end
