(* ===== verification/ManagementLaws.thy ===== *)
theory ManagementLaws
  imports Management
begin

text \<open>
  What the management store promises: a partial map from a device to its one manager. Every
  call either does what the map operation does, in memory and on disk alike, or changes
  nothing; the inverse index and the file never disagree with the map.
\<close>

section \<open>The abstract map and the invariant\<close>

definition inverse_of :: "(string \<rightharpoonup> string) \<Rightarrow> string \<rightharpoonup> string set" where
  "inverse_of mo m = (if {d. mo d = Some m} = {} then None else Some {d. mo d = Some m})"

definition pairs_of :: "(string \<rightharpoonup> string) \<Rightarrow> managementPairRecord set" where
  "pairs_of mo = {r. mo (ManagedLFDI r) = Some (ManagerLFDI r)}"

definition wf_pairs :: "(string \<rightharpoonup> string) \<Rightarrow> bool" where
  "wf_pairs mo \<longleftrightarrow> finite (dom mo) \<and>
     (\<forall>d m. mo d = Some m \<longrightarrow> IsCanonical d \<and> IsCanonical m \<and> d \<noteq> m)"

definition lists_pairs :: "(string \<rightharpoonup> string) \<Rightarrow> managementPairRecord list \<Rightarrow> bool" where
  "lists_pairs mo rs \<longleftrightarrow> set rs = pairs_of mo \<and> distinct (map ManagedLFDI rs)"

definition mgmt_inv :: "mgmt_store \<Rightarrow> bool" where
  "mgmt_inv s \<longleftrightarrow> wf_pairs (managerOf s) \<and> managedBy s = inverse_of (managerOf s) \<and>
     (m_persistPath s \<noteq> [] \<longrightarrow> lists_pairs (managerOf s) (m_disk s))"

datatype mgmt_op =
    OpAssign string string
  | OpUnassign string
  | OpRelease string string
  | OpRekeyManager string string
  | OpRekeyManaged string string

fun Mgmt_step :: "mgmt_op \<Rightarrow> (err, mgmt_store, unit) io" where
  "Mgmt_step (OpAssign m d) = Assign m d"
| "Mgmt_step (OpUnassign d) = Unassign d"
| "Mgmt_step (OpRelease m d) = Release m d"
| "Mgmt_step (OpRekeyManager a b) = RekeyManager a b"
| "Mgmt_step (OpRekeyManaged a b) = RekeyManaged a b"

text \<open>The specification, on the map alone: the sentinel of the refusal, or the new map.\<close>

fun mgmt_spec :: "mgmt_op \<Rightarrow> (string \<rightharpoonup> string) \<Rightarrow> err + (string \<rightharpoonup> string)" where
  "mgmt_spec (OpAssign m d) mo =
     (if \<not> IsCanonical m \<or> \<not> IsCanonical d \<or> m = d then Inl ErrInvalidManagementPair
      else if mo d = Some m then Inr mo
      else if mo d \<noteq> None then Inl ErrAlreadyExists
      else Inr (mo(d \<mapsto> m)))"
| "mgmt_spec (OpUnassign d) mo = (if mo d = None then Inl ErrNotFound else Inr (mo(d := None)))"
| "mgmt_spec (OpRelease m d) mo =
     (if m \<noteq> [] \<and> mo d = Some m then Inr (mo(d := None)) else Inl ErrNotFound)"
| "mgmt_spec (OpRekeyManager a b) mo =
     (if \<not> IsCanonical a \<or> \<not> IsCanonical b then Inl ErrInvalidManagementPair
      else if a \<notin> ran mo then Inl ErrNotFound
      else if a = b then Inr mo
      else if mo b = Some a then Inl ErrInvalidManagementPair
      else if b \<in> ran mo then Inl ErrAlreadyExists
      else Inr (\<lambda>d. if mo d = Some a then Some b else mo d))"
| "mgmt_spec (OpRekeyManaged a b) mo =
     (if \<not> IsCanonical a \<or> \<not> IsCanonical b then Inl ErrInvalidManagementPair
      else case mo a of
        None \<Rightarrow> Inl ErrNotFound
      | Some m \<Rightarrow>
          if a = b then Inr mo
          else if b = m then Inl ErrInvalidManagementPair
          else if mo b \<noteq> None then Inl ErrAlreadyExists
          else Inr (mo(a := None, b \<mapsto> m)))"

section \<open>Lists of pairs\<close>

lemma recordsLocked_lists: "finite (dom (managerOf s)) \<Longrightarrow> lists_pairs (managerOf s) (recordsLocked s)"
proof -
  assume fin: "finite (dom (managerOf s))"
  have "r \<in> set (recordsLocked s) \<longleftrightarrow> managerOf s (ManagedLFDI r) = Some (ManagerLFDI r)" for r
    using fin by (cases r) (auto simp: recordsLocked_def image_iff)
  then show ?thesis
    using fin by (auto simp: lists_pairs_def pairs_of_def recordsLocked_def o_def)
qed

lemma lists_pairs_sort: "lists_pairs mo (sort_key ManagedLFDI rs) \<longleftrightarrow> lists_pairs mo rs"
proof -
  have "mset (map ManagedLFDI (sort_key ManagedLFDI rs)) = mset (map ManagedLFDI rs)" by simp
  then have "distinct (map ManagedLFDI (sort_key ManagedLFDI rs)) = distinct (map ManagedLFDI rs)"
    by (rule mset_eq_imp_distinct_iff)
  then show ?thesis by (simp add: lists_pairs_def)
qed

lemma lists_pairs_add:
  assumes "lists_pairs mo rs" and "mo d = None"
  shows "lists_pairs (mo(d \<mapsto> m)) (rs @ [\<lparr>ManagerLFDI = m, ManagedLFDI = d\<rparr>])"
proof -
  have "d \<notin> ManagedLFDI ` set rs" using assms by (auto simp: lists_pairs_def pairs_of_def)
  moreover have "r = \<lparr>ManagerLFDI = m, ManagedLFDI = d\<rparr> \<longleftrightarrow> ManagedLFDI r = d \<and> ManagerLFDI r = m"
    for r :: managementPairRecord by (cases r) auto
  ultimately show ?thesis using assms by (auto simp: lists_pairs_def pairs_of_def split: if_splits)
qed

lemma lists_pairs_drop:
  "lists_pairs mo rs \<Longrightarrow> lists_pairs (mo(d := None)) (filter (\<lambda>r. ManagedLFDI r \<noteq> d) rs)"
  by (auto simp: lists_pairs_def pairs_of_def distinct_map inj_on_def)

lemma lists_pairs_rekeyManager:
  assumes "lists_pairs mo rs" and "b \<notin> ran mo"
  shows "lists_pairs (\<lambda>d. if mo d = Some a then Some b else mo d)
    (map (\<lambda>r. if ManagerLFDI r = a then r\<lparr>ManagerLFDI := b\<rparr> else r) rs)"
    (is "lists_pairs ?mo (map ?f rs)")
proof -
  have "r \<in> ?f ` pairs_of mo \<longleftrightarrow> r \<in> pairs_of ?mo" for r
  proof
    assume "r \<in> pairs_of ?mo"
    then have "(mo (ManagedLFDI r) = Some a \<and> ManagerLFDI r = b) \<or>
        (mo (ManagedLFDI r) = Some (ManagerLFDI r) \<and> ManagerLFDI r \<noteq> a)"
      by (auto simp: pairs_of_def split: if_splits)
    then show "r \<in> ?f ` pairs_of mo"
    proof
      assume "mo (ManagedLFDI r) = Some a \<and> ManagerLFDI r = b"
      then show ?thesis by (intro image_eqI [of _ _ "r\<lparr>ManagerLFDI := a\<rparr>"]) (auto simp: pairs_of_def)
    qed (auto simp: pairs_of_def intro: image_eqI [of _ _ r])
  qed (use assms(2) in \<open>auto simp: pairs_of_def ran_def\<close>)
  then have im: "?f ` pairs_of mo = pairs_of ?mo" by blast
  have "map ManagedLFDI (map ?f rs) = map ManagedLFDI rs" by simp
  moreover have "set (map ?f rs) = pairs_of ?mo"
    using im assms(1) by (simp only: lists_pairs_def set_map)
  ultimately show ?thesis using assms(1) by (simp only: lists_pairs_def simp_thms)
qed

lemma lists_pairs_rekeyManaged:
  assumes "lists_pairs mo rs" and "mo a = Some m" and "mo b = None" and "a \<noteq> b"
  shows "lists_pairs (mo(a := None, b \<mapsto> m))
    (map (\<lambda>r. if ManagedLFDI r = a then r\<lparr>ManagedLFDI := b\<rparr> else r) rs)"
    (is "lists_pairs ?mo (map ?f rs)")
proof -
  have im: "?f ` pairs_of mo = pairs_of ?mo"
  proof (intro set_eqI iffI)
    fix r assume r: "r \<in> pairs_of ?mo"
    show "r \<in> ?f ` pairs_of mo"
    proof (cases "ManagedLFDI r = b")
      case True
      with r assms show ?thesis
        by (intro image_eqI [of _ _ "r\<lparr>ManagedLFDI := a\<rparr>"]) (auto simp: pairs_of_def)
    next
      case False
      with r have "ManagedLFDI r \<noteq> a" "mo (ManagedLFDI r) = Some (ManagerLFDI r)"
        by (auto simp: pairs_of_def split: if_splits)
      then show ?thesis by (intro image_eqI [of _ _ r]) (auto simp: pairs_of_def)
    qed
  qed (use assms in \<open>auto simp: pairs_of_def\<close>)
  have "b \<notin> set (map ManagedLFDI rs)" using assms by (auto simp: lists_pairs_def pairs_of_def)
  then have "inj_on (\<lambda>d. if d = a then b else d) (set (map ManagedLFDI rs))" by (auto simp: inj_on_def)
  moreover have "distinct (map ManagedLFDI rs)" using assms(1) by (simp add: lists_pairs_def)
  ultimately have "distinct (map (\<lambda>d. if d = a then b else d) (map ManagedLFDI rs))"
    by (simp only: distinct_map simp_thms)
  moreover have "map ManagedLFDI (map ?f rs) = map (\<lambda>d. if d = a then b else d) (map ManagedLFDI rs)"
    by simp
  moreover have "set (map ?f rs) = pairs_of ?mo"
    using im assms(1) by (simp only: lists_pairs_def set_map)
  ultimately show ?thesis by (simp only: lists_pairs_def simp_thms)
qed

section \<open>The inverse index\<close>

lemma managed_set_inverse [simp]:
  "managedBy s = inverse_of mo \<Longrightarrow> managed_set s m = {d. mo d = Some m}"
  by (simp add: managed_set_def inverse_of_def)

lemma inverse_add:
  assumes "mo d = None"
  shows "(inverse_of mo)(m \<mapsto> insert d {x. mo x = Some m}) = inverse_of (mo(d \<mapsto> m))"
proof -
  have "{x. (mo(d \<mapsto> m)) x = Some k} = (if k = m then insert d {x. mo x = Some m} else {x. mo x = Some k})"
    for k using assms by auto
  then show ?thesis unfolding inverse_of_def by (auto simp: fun_eq_iff)
qed

lemma inverse_drop:
  assumes "mo d = Some m"
  shows "(if {x. mo x = Some m} - {d} = {} then (inverse_of mo)(m := None)
          else (inverse_of mo)(m \<mapsto> {x. mo x = Some m} - {d})) = inverse_of (mo(d := None))"
proof -
  have "{x. (mo(d := None)) x = Some k} = (if k = m then {x. mo x = Some m} - {d} else {x. mo x = Some k})"
    for k using assms by auto
  then show ?thesis unfolding inverse_of_def by (auto simp: fun_eq_iff)
qed

lemma inverse_rekeyManager:
  assumes "a \<in> ran mo" and "b \<notin> ran mo" and "a \<noteq> b"
  shows "((inverse_of mo)(b \<mapsto> {d. mo d = Some a}))(a := None)
    = inverse_of (\<lambda>d. if mo d = Some a then Some b else mo d)"
proof -
  have "{d. (if mo d = Some a then Some b else mo d) = Some k}
      = (if k = b then {d. mo d = Some a} else if k = a then {} else {d. mo d = Some k})" for k
    using assms by (auto simp: ran_def)
  moreover have "{d. mo d = Some a} \<noteq> {}" using assms(1) by (auto simp: ran_def)
  ultimately show ?thesis using assms(3) unfolding inverse_of_def by (auto simp: fun_eq_iff)
qed

lemma inverse_rekeyManaged:
  assumes "mo a = Some m" and "mo b = None" and "a \<noteq> b"
  shows "(inverse_of mo)(m \<mapsto> insert b ({x. mo x = Some m} - {a})) = inverse_of (mo(a := None, b \<mapsto> m))"
proof -
  have "{x. (mo(a := None, b \<mapsto> m)) x = Some k}
      = (if k = m then insert b ({x. mo x = Some m} - {a}) else {x. mo x = Some k})" for k
    using assms by auto
  then show ?thesis unfolding inverse_of_def by (auto simp: fun_eq_iff)
qed

section \<open>Every call refines the specification\<close>

abbreviation mgmt_fails :: "mgmt_store \<Rightarrow> bool" where
  "mgmt_fails s \<equiv> m_persistPath s \<noteq> [] \<and> m_faults s \<noteq> [] \<and> hd (m_faults s)"

text \<open>
  A call may do one of three things: refuse with the specified sentinel and touch nothing, fail
  on the write and touch nothing but the script, or store the specified map.
\<close>

definition mgmt_outcome :: "err + (string \<rightharpoonup> string) \<Rightarrow> mgmt_store \<Rightarrow> err + unit \<Rightarrow> mgmt_store \<Rightarrow> bool" where
  "mgmt_outcome spec s r t \<longleftrightarrow>
     (case spec of
        Inl e \<Rightarrow> t = s \<and> (\<exists>f. r = Inl f \<and> err_is f e)
      | Inr mo \<Rightarrow>
          if r = Inr () then managerOf t = mo
          else mgmt_fails s \<and> t = s\<lparr>m_faults := tl (m_faults s)\<rparr>)"

lemma mutate_outcome:
  assumes inv: "mgmt_inv s" and b: "build s = Inr (Some rs, Some ap)"
    and ap: "\<And>u. managerOf u = managerOf s \<Longrightarrow> managedBy u = managedBy s \<Longrightarrow>
      ap u = (Inr (), u\<lparr>managerOf := mo, managedBy := inverse_of mo\<rparr>)"
    and mo: "wf_pairs mo" "lists_pairs mo rs"
    and run: "mutate build s = (r, t)"
  shows "mgmt_inv t \<and> m_persistPath t = m_persistPath s \<and> mgmt_outcome (Inr mo) s r t"
proof (cases "m_persistPath s = []")
  case True
  with run b have "r = Inr ()" "t = s\<lparr>managerOf := mo, managedBy := inverse_of mo\<rparr>"
    by (auto simp: mutate_def io_bind_def persistRecords_def ap)
  with inv mo True show ?thesis by (simp add: mgmt_inv_def mgmt_outcome_def)
next
  case False
  show ?thesis
  proof (cases "mgmt_fails s")
    case True
    then have "\<exists>e. persistRecords rs s = (Inl e, s\<lparr>m_faults := tl (m_faults s)\<rparr>)"
      by (cases "m_faults s") (auto simp: persistRecords_def)
    with run b have "\<exists>e. r = Inl e" "t = s\<lparr>m_faults := tl (m_faults s)\<rparr>"
      by (auto simp: mutate_def io_bind_def)
    with inv True show ?thesis by (auto simp: mgmt_inv_def mgmt_outcome_def)
  next
    case ok: False
    define u where "u = s\<lparr>m_disk := sort_key ManagedLFDI rs, m_faults := tl (m_faults s)\<rparr>"
    have "persistRecords rs s = (Inr (), u)"
      using False ok by (cases "m_faults s") (auto simp: persistRecords_def u_def)
    moreover have "ap u = (Inr (), u\<lparr>managerOf := mo, managedBy := inverse_of mo\<rparr>)"
      by (rule ap) (simp_all add: u_def)
    ultimately have "r = Inr ()" "t = u\<lparr>managerOf := mo, managedBy := inverse_of mo\<rparr>"
      using run b by (auto simp: mutate_def io_bind_def)
    with mo show ?thesis by (simp add: mgmt_inv_def mgmt_outcome_def u_def lists_pairs_sort)
  qed
qed

lemma mutate_refused:
  "build s = Inl e \<Longrightarrow> mutate build s = (r, t) \<Longrightarrow> r = Inl e \<and> t = s"
  "build s = Inr (None, None) \<Longrightarrow> mutate build s = (r, t) \<Longrightarrow> r = Inr () \<and> t = s"
  by (simp_all add: mutate_def)

lemma checkCanonical_run:
  "io_bind (io_check (checkCanonicalLFDI x)) f s =
     (if IsCanonical x then f () s
      else (Inl (Errorf ''enddevice management: not in canonical form'' [ErrInvalidManagementPair]), s))"
  by (simp add: checkCanonicalLFDI_def io_bind_def io_check_def)

abbreviation (input) keeps :: "mgmt_op \<Rightarrow> mgmt_store \<Rightarrow> bool" where
  "keeps op s \<equiv> \<forall>r t. Mgmt_step op s = (r, t) \<longrightarrow>
     mgmt_inv t \<and> m_persistPath t = m_persistPath s \<and> mgmt_outcome (mgmt_spec op (managerOf s)) s r t"

lemma inv_parts:
  assumes "mgmt_inv s"
  shows "wf_pairs (managerOf s)" and "finite (dom (managerOf s))" and "managedBy s = inverse_of (managerOf s)"
    and "lists_pairs (managerOf s) (recordsLocked s)"
  using assms recordsLocked_lists by (auto simp: mgmt_inv_def wf_pairs_def)

lemma Assign_keeps: "mgmt_inv s \<Longrightarrow> keeps (OpAssign m d) s"
proof (intro allI impI)
  fix r t assume inv: "mgmt_inv s" and run: "Mgmt_step (OpAssign m d) s = (r, t)"
  note P = inv_parts [OF inv]
  show "mgmt_inv t \<and> m_persistPath t = m_persistPath s \<and>
      mgmt_outcome (mgmt_spec (OpAssign m d) (managerOf s)) s r t"
  proof (cases "IsCanonical m \<and> IsCanonical d \<and> m \<noteq> d \<and> managerOf s d = None")
    case True
    then have mut: "mutate (assign_build m d) s = (r, t)"
      using run by (simp add: Assign_def checkCanonical_run)
    have wf: "wf_pairs ((managerOf s)(d \<mapsto> m))" using P(1) True by (auto simp: wf_pairs_def)
    have b: "assign_build m d s = Inr (Some (recordsLocked s @ [\<lparr>ManagerLFDI = m, ManagedLFDI = d\<rparr>]),
        Some (assign_apply m d))" using True by (simp add: assign_build_def)
    have "assign_apply m d u = (Inr (), u\<lparr>managerOf := (managerOf s)(d \<mapsto> m),
        managedBy := inverse_of ((managerOf s)(d \<mapsto> m))\<rparr>)"
      if "managerOf u = managerOf s" "managedBy u = managedBy s" for u
      using that P(3) True by (simp add: assign_apply_def inverse_add)
    from mutate_outcome [OF inv b this wf lists_pairs_add [OF P(4)] mut] True
    show ?thesis by simp
  next
    case False
    with run inv show ?thesis
      by (auto simp: Assign_def checkCanonical_run io_fail_def mutate_def assign_build_def mgmt_outcome_def
          split: if_splits option.splits)
  qed
qed

lemma remove_keeps:
  assumes inv: "mgmt_inv s" and run: "Mgmt_remove d only s = (r, t)"
  shows "mgmt_inv t \<and> m_persistPath t = m_persistPath s \<and>
    mgmt_outcome (case managerOf s d of
        None \<Rightarrow> Inl ErrNotFound
      | Some m \<Rightarrow> if only \<noteq> [] \<and> m \<noteq> only then Inl ErrNotFound else Inr ((managerOf s)(d := None))) s r t"
proof (cases "managerOf s d")
  case None
  with run inv show ?thesis by (auto simp: Mgmt_remove_def mutate_def remove_build_def mgmt_outcome_def)
next
  case (Some m)
  note P = inv_parts [OF inv]
  show ?thesis
  proof (cases "only \<noteq> [] \<and> m \<noteq> only")
    case True
    with Some run inv show ?thesis
      by (auto simp: Mgmt_remove_def mutate_def remove_build_def mgmt_outcome_def)
  next
    case False
    have mut: "mutate (remove_build d only) s = (r, t)" using run by (simp add: Mgmt_remove_def)
    have wf: "wf_pairs ((managerOf s)(d := None))" using P(1) by (auto simp: wf_pairs_def)
    have b: "remove_build d only s = Inr (Some (filter (\<lambda>r. ManagedLFDI r \<noteq> d) (recordsLocked s)),
        Some (remove_apply m d))" using Some False by (simp add: remove_build_def)
    have "remove_apply m d u = (Inr (), u\<lparr>managerOf := (managerOf s)(d := None),
        managedBy := inverse_of ((managerOf s)(d := None))\<rparr>)"
      if "managerOf u = managerOf s" "managedBy u = managedBy s" for u
      unfolding remove_apply_def Let_def using that P(3) inverse_drop [of "managerOf s", OF Some] by (simp split: if_splits)
    from mutate_outcome [OF inv b this wf lists_pairs_drop [OF P(4)] mut] Some False
    show ?thesis by auto
  qed
qed

lemma Unassign_keeps: "mgmt_inv s \<Longrightarrow> keeps (OpUnassign d) s"
  using remove_keeps [of s d "[]"] by (auto simp: Unassign_def split: option.splits)

lemma Release_keeps: "mgmt_inv s \<Longrightarrow> keeps (OpRelease m d) s"
  using remove_keeps [of s d m]
  by (cases "m = []") (auto simp: Release_def io_fail_def mgmt_outcome_def split: option.splits if_splits)

lemma RekeyManager_keeps: "mgmt_inv s \<Longrightarrow> keeps (OpRekeyManager a b) s"
proof (intro allI impI)
  fix r t assume inv: "mgmt_inv s" and run: "Mgmt_step (OpRekeyManager a b) s = (r, t)"
  note P = inv_parts [OF inv]
  let ?mo = "managerOf s" and ?new = "\<lambda>d. if managerOf s d = Some a then Some b else managerOf s d"
  have ms: "managed_set s k = {d. ?mo d = Some k}" for k using P(3) by simp
  have ran: "{d. ?mo d = Some k} = {} \<longleftrightarrow> k \<notin> ran ?mo" for k by (auto simp: ran_def)
  show "mgmt_inv t \<and> m_persistPath t = m_persistPath s \<and>
      mgmt_outcome (mgmt_spec (OpRekeyManager a b) ?mo) s r t"
  proof (cases "IsCanonical a \<and> IsCanonical b \<and> a \<in> ran ?mo \<and> a \<noteq> b \<and> ?mo b \<noteq> Some a \<and> b \<notin> ran ?mo")
    case True
    then have mut: "mutate (rekeyManager_build a b) s = (r, t)"
      using run by (simp add: RekeyManager_def checkCanonical_run)
    have "dom ?new = dom ?mo" by (auto split: if_splits)
    then have wf: "wf_pairs ?new" using P(1) True by (auto simp: wf_pairs_def)
    have bd: "rekeyManager_build a b s = Inr (Some (map (\<lambda>r. if ManagerLFDI r = a then r\<lparr>ManagerLFDI := b\<rparr> else r)
        (recordsLocked s)), Some (rekeyManager_apply {d. ?mo d = Some a} a b))"
      using True by (simp add: rekeyManager_build_def ms Let_def ran del: Collect_empty_eq)
    have ap: "rekeyManager_apply {d. ?mo d = Some a} a b u =
        (Inr (), u\<lparr>managerOf := ?new, managedBy := inverse_of ?new\<rparr>)"
      if "managerOf u = ?mo" "managedBy u = managedBy s" for u
      using that P(3) True inverse_rekeyManager [of a ?mo b] by (simp add: rekeyManager_apply_def cong: if_cong)
    have "lists_pairs ?new (map (\<lambda>r. if ManagerLFDI r = a then r\<lparr>ManagerLFDI := b\<rparr> else r) (recordsLocked s))"
      using lists_pairs_rekeyManager [OF P(4)] True by simp
    from mutate_outcome [OF inv bd ap wf this mut] True show ?thesis by simp
  next
    case False
    with run inv show ?thesis
      by (auto simp: RekeyManager_def checkCanonical_run mutate_def rekeyManager_build_def mgmt_outcome_def
          Let_def ms ran simp del: Collect_empty_eq split: if_splits)
  qed
qed

lemma RekeyManaged_keeps: "mgmt_inv s \<Longrightarrow> keeps (OpRekeyManaged a b) s"
proof (intro allI impI)
  fix r t assume inv: "mgmt_inv s" and run: "Mgmt_step (OpRekeyManaged a b) s = (r, t)"
  note P = inv_parts [OF inv]
  let ?mo = "managerOf s"
  show "mgmt_inv t \<and> m_persistPath t = m_persistPath s \<and>
      mgmt_outcome (mgmt_spec (OpRekeyManaged a b) ?mo) s r t"
  proof (cases "IsCanonical a \<and> IsCanonical b \<and> (\<exists>m. ?mo a = Some m \<and> b \<noteq> m) \<and> a \<noteq> b \<and> ?mo b = None")
    case True
    then obtain m where m: "?mo a = Some m" "b \<noteq> m" by blast
    let ?new = "?mo(a := None, b \<mapsto> m)"
    have mut: "mutate (rekeyManaged_build a b) s = (r, t)"
      using run True by (simp add: RekeyManaged_def checkCanonical_run)
    have wf: "wf_pairs ?new" using P(1) True m by (auto simp: wf_pairs_def)
    have bd: "rekeyManaged_build a b s = Inr (Some (map (\<lambda>r. if ManagedLFDI r = a then r\<lparr>ManagedLFDI := b\<rparr> else r)
        (recordsLocked s)), Some (rekeyManaged_apply m a b))"
      using True m by (simp add: rekeyManaged_build_def)
    have "managedBy s m = Some {d. ?mo d = Some m}" using P(3) m by (auto simp: inverse_of_def)
    then have ap: "rekeyManaged_apply m a b u = (Inr (), u\<lparr>managerOf := ?new, managedBy := inverse_of ?new\<rparr>)"
      if "managerOf u = ?mo" "managedBy u = managedBy s" for u
      using that P(3) inverse_rekeyManaged [of ?mo a m b] m True by (simp add: rekeyManaged_apply_def)
    from mutate_outcome [OF inv bd ap wf lists_pairs_rekeyManaged [OF P(4) m(1)] mut] True m
    show ?thesis by simp
  next
    case False
    with run inv show ?thesis
      by (auto simp: RekeyManaged_def checkCanonical_run mutate_def rekeyManaged_build_def mgmt_outcome_def
          split: if_splits option.splits)
  qed
qed

lemma Mgmt_step_keeps:
  assumes "mgmt_inv s" and "Mgmt_step op s = (r, t)"
  shows "mgmt_inv t" and "m_persistPath t = m_persistPath s"
    and "mgmt_outcome (mgmt_spec op (managerOf s)) s r t"
  using assms Assign_keeps Unassign_keeps Release_keeps RekeyManager_keeps RekeyManaged_keeps
  by (cases op; metis)+

section \<open>Loading\<close>

lemma load_pairs_law:
  assumes "load_pairs rs mo (inverse_of mo) = Inr (mo', mb)" and "wf_pairs mo" and "lists_pairs mo before"
  shows "wf_pairs mo' \<and> mb = inverse_of mo' \<and> lists_pairs mo' (before @ rs)"
  using assms
proof (induction rs arbitrary: mo before)
  case (Cons r rs)
  let ?mo = "mo(ManagedLFDI r \<mapsto> ManagerLFDI r)"
  have c: "IsCanonical (ManagerLFDI r)" "IsCanonical (ManagedLFDI r)" "ManagerLFDI r \<noteq> ManagedLFDI r"
    and none: "mo (ManagedLFDI r) = None"
    using Cons.prems(1) by (auto simp: checkCanonicalLFDI_def split: if_splits)
  have "insert (ManagedLFDI r) (case inverse_of mo (ManagerLFDI r) of None \<Rightarrow> {} | Some S \<Rightarrow> S)
      = insert (ManagedLFDI r) {x. mo x = Some (ManagerLFDI r)}" by (simp add: inverse_of_def)
  then have "load_pairs rs ?mo (inverse_of ?mo) = Inr (mo', mb)"
    using Cons.prems(1) c none inverse_add [of mo, OF none] by (simp add: checkCanonicalLFDI_def)
  moreover have "wf_pairs ?mo" using Cons.prems(2) c by (auto simp: wf_pairs_def)
  moreover have "lists_pairs ?mo (before @ [r])"
    using lists_pairs_add [OF Cons.prems(3) none, of "ManagerLFDI r"] by (cases r) simp
  ultimately show ?case using Cons.IH by fastforce
qed simp

lemma load_pairs_total:
  assumes "distinct (map ManagedLFDI rs)"
    and "\<forall>r \<in> set rs. IsCanonical (ManagerLFDI r) \<and> IsCanonical (ManagedLFDI r) \<and>
      ManagerLFDI r \<noteq> ManagedLFDI r \<and> mo (ManagedLFDI r) = None"
  shows "\<exists>mo' mb'. load_pairs rs mo mb = Inr (mo', mb')"
  using assms
proof (induction rs arbitrary: mo mb)
  case (Cons r rs)
  let ?mo = "mo(ManagedLFDI r \<mapsto> ManagerLFDI r)"
  have "?mo (ManagedLFDI q) = None" if "q \<in> set rs" for q
  proof -
    have "ManagedLFDI q \<in> set (map ManagedLFDI rs)" using that by simp
    then have "ManagedLFDI q \<noteq> ManagedLFDI r" using Cons.prems(1) by (metis distinct.simps(2) list.simps(9))
    then show ?thesis using that Cons.prems(2) by simp
  qed
  then have "\<exists>mo' mb'. load_pairs rs ?mo mb = Inr (mo', mb')" for mb
    using Cons.prems by (intro Cons.IH) auto
  then show ?case using Cons.prems(2) by (simp add: checkCanonicalLFDI_def)
qed simp

lemma lists_pairs_unique:
  assumes "lists_pairs mo rs" and "lists_pairs mo' rs"
  shows "mo = mo'"
proof (rule ext)
  fix d
  have in_pairs: "f d = Some m \<longleftrightarrow> \<lparr>ManagerLFDI = m, ManagedLFDI = d\<rparr> \<in> pairs_of f" for f m
    by (simp add: pairs_of_def)
  have *: "mo d = Some m \<longleftrightarrow> \<lparr>ManagerLFDI = m, ManagedLFDI = d\<rparr> \<in> set rs"
    "mo' d = Some m \<longleftrightarrow> \<lparr>ManagerLFDI = m, ManagedLFDI = d\<rparr> \<in> set rs" for m
    using assms in_pairs [of mo] in_pairs [of mo'] by (simp_all only: lists_pairs_def)
  show "mo d = mo' d"
  proof (cases "mo d")
    case None
    with * show ?thesis by (metis option.exhaust option.simps(3))
  qed (use * in metis)
qed

lemma empty_pairs [simp]: "wf_pairs Map.empty" "lists_pairs Map.empty []" "inverse_of Map.empty = Map.empty"
  by (auto simp: wf_pairs_def lists_pairs_def pairs_of_def inverse_of_def)

lemma New_law:
  assumes "NewEndDeviceManagementStoreWithPersistence path file faulty = Inr s"
  shows "mgmt_inv s" and "m_persistPath s = path"
proof -
  have "mgmt_inv s \<and> m_persistPath s = path"
  proof (cases "path = [] \<or> file = Inr []")
    case True
    then have "s = NewEndDeviceManagementStore \<and> path = [] \<or>
        s = NewEndDeviceManagementStore\<lparr>m_persistPath := path, m_faults := faulty\<rparr>"
      using assms by (auto simp: NewEndDeviceManagementStoreWithPersistence_def
          NewEndDeviceManagementStore_def Mgmt_loadFromFile_def split: if_splits)
    then show ?thesis by (auto simp: mgmt_inv_def NewEndDeviceManagementStore_def)
  next
    case False
    with assms obtain rs mo mb where f: "file = Inr rs"
      and ld: "load_pairs rs Map.empty (inverse_of Map.empty) = Inr (mo, mb)"
      and s: "s = NewEndDeviceManagementStore\<lparr>managerOf := mo, managedBy := mb, m_persistPath := path,
        m_disk := rs, m_faults := faulty\<rparr>"
      by (auto simp: NewEndDeviceManagementStoreWithPersistence_def Mgmt_loadFromFile_def
          split: sum.splits if_splits)
    from load_pairs_law [OF ld, of "[]"] show ?thesis by (simp add: s mgmt_inv_def)
  qed
  then show "mgmt_inv s" and "m_persistPath s = path" by simp_all
qed

lemma reload:
  assumes inv: "mgmt_inv s" and path: "m_persistPath s = path" "path \<noteq> []"
  shows "\<exists>u. NewEndDeviceManagementStoreWithPersistence path (Inr (m_disk s)) faulty = Inr u \<and>
    managerOf u = managerOf s \<and> managedBy u = managedBy s"
proof -
  have wf: "wf_pairs (managerOf s)" and inverse: "managedBy s = inverse_of (managerOf s)"
    and ls: "lists_pairs (managerOf s) (m_disk s)"
    using inv path by (auto simp: mgmt_inv_def)
  show ?thesis
  proof (cases "m_disk s = []")
    case True
    then have "managerOf s = Map.empty" using ls lists_pairs_unique [OF ls, of Map.empty] by simp
    with True path(2) inverse show ?thesis
      by (simp add: NewEndDeviceManagementStoreWithPersistence_def Mgmt_loadFromFile_def
          NewEndDeviceManagementStore_def)
  next
    case False
    have "\<exists>mo mb. load_pairs (m_disk s) Map.empty (inverse_of Map.empty) = Inr (mo, mb)"
      using ls wf by (intro load_pairs_total) (fastforce simp: lists_pairs_def pairs_of_def wf_pairs_def)+
    then obtain mo mb where ld: "load_pairs (m_disk s) Map.empty (inverse_of Map.empty) = Inr (mo, mb)"
      by blast
    from load_pairs_law [OF ld, of "[]"] have "mb = inverse_of mo" "lists_pairs mo (m_disk s)" by simp_all
    with lists_pairs_unique [OF ls] inverse have "mo = managerOf s" "mb = managedBy s" by simp_all
    with ld False path(2) show ?thesis
      by (simp add: NewEndDeviceManagementStoreWithPersistence_def Mgmt_loadFromFile_def
          NewEndDeviceManagementStore_def)
  qed
qed

fun Mgmt_run :: "mgmt_op list \<Rightarrow> mgmt_store \<Rightarrow> mgmt_store" where
  "Mgmt_run [] s = s"
| "Mgmt_run (op # ops) s = Mgmt_run ops (snd (Mgmt_step op s))"

lemma Mgmt_run_keeps:
  "mgmt_inv s \<Longrightarrow> mgmt_inv (Mgmt_run ops s) \<and> m_persistPath (Mgmt_run ops s) = m_persistPath s"
proof (induction ops arbitrary: s)
  case (Cons op ops)
  obtain r t where step: "Mgmt_step op s = (r, t)" by fastforce
  from Mgmt_step_keeps(1,2) [OF Cons.prems step] Cons.IH [of t] step show ?case by simp
qed simp

section \<open>Properties\<close>

definition sample_A :: string where "sample_A = replicate 40 (CHR ''A'')"
definition sample_B :: string where "sample_B = replicate 40 (CHR ''B'')"
definition sample_C :: string where "sample_C = replicate 40 (CHR ''C'')"

lemma sample_lfdis [simp]: "IsCanonical sample_A" "IsCanonical sample_B" "IsCanonical sample_C"
  "sample_A \<noteq> sample_B" "sample_B \<noteq> sample_A" "sample_A \<noteq> sample_C" "sample_C \<noteq> sample_A"
  "sample_B \<noteq> sample_C" "sample_C \<noteq> sample_B"
  by code_simp+

definition sample_mgmt :: mgmt_store where
  "sample_mgmt = \<lparr>managerOf = [sample_B \<mapsto> sample_A], managedBy = [sample_A \<mapsto> {sample_B}],
     m_persistPath = ''mgmt.json'', m_disk = [\<lparr>ManagerLFDI = sample_A, ManagedLFDI = sample_B\<rparr>],
     m_faults = [False, True]\<rparr>"

lemma sample_mgmt_loads:
  "NewEndDeviceManagementStoreWithPersistence ''mgmt.json''
     (Inr [\<lparr>ManagerLFDI = sample_A, ManagedLFDI = sample_B\<rparr>]) [False, True] = Inr sample_mgmt"
  by (simp add: NewEndDeviceManagementStoreWithPersistence_def Mgmt_loadFromFile_def
      NewEndDeviceManagementStore_def checkCanonicalLFDI_def sample_mgmt_def)

lemma sample_mgmt_inv: "mgmt_inv sample_mgmt"
  by (rule New_law(1) [OF sample_mgmt_loads])

text \<open>
  C28: every writing call of the management store refines the operation on the map from a device
  to its manager: it refuses with the documented sentinel and changes nothing, or its snapshot
  write fails and only the file's fault script advances, or the map is exactly the specified one;
  the inverse index and the file still agree with the map.
\<close>

theorem management_call_refines_map:
  assumes "mgmt_inv s" and "Mgmt_step op s = (r, t)"
  shows "mgmt_inv t \<and> mgmt_outcome (mgmt_spec op (managerOf s)) s r t"
  using Mgmt_step_keeps [OF assms] by simp

theorem management_call_refines_map_witness:
  "\<exists>r t. Mgmt_step (OpRekeyManager sample_A sample_C) sample_mgmt = (r, t) \<and> mgmt_inv t \<and>
     mgmt_outcome (mgmt_spec (OpRekeyManager sample_A sample_C) (managerOf sample_mgmt)) sample_mgmt r t"
  using management_call_refines_map [OF sample_mgmt_inv, of "OpRekeyManager sample_A sample_C"]
  by (cases "Mgmt_step (OpRekeyManager sample_A sample_C) sample_mgmt") blast

text \<open>
  C29: whatever calls follow the load of a file the store accepts, no device has two managers or
  manages itself, every LFDI held is canonical, and the two lookups are inverse to each other.
\<close>

theorem management_lookups_agree:
  assumes "NewEndDeviceManagementStoreWithPersistence path file faulty = Inr s"
  shows "(Mgmt_ManagerOf (Mgmt_run ops s) d = Inr m \<longleftrightarrow> d \<in> set (Mgmt_ManagedBy (Mgmt_run ops s) m)) \<and>
    (m \<in> set (Managers (Mgmt_run ops s)) \<longleftrightarrow> Mgmt_ManagedBy (Mgmt_run ops s) m \<noteq> []) \<and>
    (d \<in> set (Mgmt_ManagedBy (Mgmt_run ops s) m) \<longrightarrow> IsCanonical d \<and> IsCanonical m \<and> d \<noteq> m)"
proof -
  let ?t = "Mgmt_run ops s"
  from New_law(1) [OF assms] Mgmt_run_keeps have inv: "mgmt_inv ?t" by blast
  note P = inv_parts [OF inv]
  have fin: "finite {d. managerOf ?t d = Some k}" for k
    using P(2) by (rule rev_finite_subset) auto
  have mb: "set (Mgmt_ManagedBy ?t k) = {d. managerOf ?t d = Some k}" for k
    using fin P(3) by (simp add: Mgmt_ManagedBy_def)
  have "dom (managedBy ?t) = ran (managerOf ?t)"
    using P(3) by (auto simp: inverse_of_def ran_def split: if_splits)
  then have "set (Managers ?t) = ran (managerOf ?t)"
    using P(2) by (simp add: Managers_def finite_ran)
  moreover have "Mgmt_ManagedBy ?t m = [] \<longleftrightarrow> m \<notin> ran (managerOf ?t)"
    using mb [of m] by (auto simp: ran_def simp flip: set_empty)
  ultimately show ?thesis
    using mb P(1) by (auto simp: Mgmt_ManagerOf_def wf_pairs_def split: option.splits)
qed

theorem management_lookups_agree_witness:
  "Mgmt_ManagerOf (Mgmt_run [OpAssign sample_A sample_C] sample_mgmt) sample_C = Inr sample_A \<longleftrightarrow>
     sample_C \<in> set (Mgmt_ManagedBy (Mgmt_run [OpAssign sample_A sample_C] sample_mgmt) sample_A)"
  using management_lookups_agree [OF sample_mgmt_loads, of "[OpAssign sample_A sample_C]" sample_C sample_A]
  by blast

text \<open>
  C30: a restart loses nothing: after any calls, some of whose snapshot writes may have failed,
  the file loads into a store with the pairs the running one had.
\<close>

theorem management_survives_restart:
  assumes "NewEndDeviceManagementStoreWithPersistence path file faulty = Inr s" and "path \<noteq> []"
    and "t = Mgmt_run ops s"
  shows "\<exists>u. NewEndDeviceManagementStoreWithPersistence path (Inr (m_disk t)) faulty' = Inr u \<and>
    managerOf u = managerOf t \<and> managedBy u = managedBy t"
proof -
  have "mgmt_inv t" "m_persistPath t = path"
    using New_law [OF assms(1)] Mgmt_run_keeps assms(3) by auto
  with reload assms(2) show ?thesis by blast
qed

theorem management_survives_restart_witness:
  "\<exists>u. NewEndDeviceManagementStoreWithPersistence ''mgmt.json''
      (Inr (m_disk (Mgmt_run [OpAssign sample_A sample_C, OpUnassign sample_B] sample_mgmt))) [] = Inr u \<and>
    managerOf u = managerOf (Mgmt_run [OpAssign sample_A sample_C, OpUnassign sample_B] sample_mgmt)"
  using management_survives_restart [OF sample_mgmt_loads _ refl,
      of "[OpAssign sample_A sample_C, OpUnassign sample_B]" "[]"] by auto

end
