(* ===== verification/FleetServer.thy ===== *)
theory FleetServer
  imports Sources Fanout ManagementLaws
begin

text \<open>
  The commitment ledger on the server's own stores: the issuer's stores, the flow reservation
  responses with their lifecycle store, the EndDevices and the management pairs side by side in
  one state (\<open>adminplane.NewCommitmentLedger\<close>). The grants and controls the ledger counts are
  described from the stored records, the walks of the sources are shown to return them, and the
  interpretation makes the ledger's contract hold for the server.
\<close>

record fleet_server = server +
  fs_responses :: "FlowReservationResponse pstore"
  fs_responseLifecycles :: "LifecycleRecord pstore"
  fs_devices :: edev_store
  fs_managers :: mgmt_store

section \<open>The readers\<close>

definition fs_device_Get :: "string \<Rightarrow> (err, fleet_server, EndDevice) io" where
  "fs_device_Get e s = (fst (E_Get e (fs_devices s)), s)"

definition fs_managers_reader :: "fleet_server managers_reader" where
  "fs_managers_reader = \<lparr>mr_ManagerOf = (\<lambda>m s. (Mgmt_ManagerOf (fs_managers s) m, s)),
     mr_ManagedBy = (\<lambda>m s. (Inr (Mgmt_ManagedBy (fs_managers s) m), s))\<rparr>"

definition fs_response_lister :: "(fleet_server, FlowReservationResponse) scopedLister" where
  "fs_response_lister = \<lparr>sl_Parents = (\<lambda>s. (fst (L_Parents (fs_responses s)), s)),
     sl_List = (\<lambda>p opts s. (fst (L_List p opts (fs_responses s)), s))\<rparr>"

definition fs_responseLifecycle_Get :: "fleet_server lc_get" where
  "fs_responseLifecycle_Get p x s = (fst (L_Get p x (fs_responseLifecycles s)), s)"

definition fs_control_lister :: "(fleet_server, DERControl) scopedLister" where
  "fs_control_lister = \<lparr>sl_Parents = on_controls D_Parents, sl_List = (\<lambda>p opts. on_controls (D_List p opts))\<rparr>"

definition fs_lifecycle_walker :: "fleet_server lifecycleWalker" where
  "fs_lifecycle_walker = \<lparr>lw_Get = (\<lambda>p x. on_lifecycles (L_Get p x)), lw_Parents = on_lifecycles L_Parents\<rparr>"

definition NewCommitmentLedger :: "fleet_server Ledger" where
  "NewCommitmentLedger =
     NewLedger fs_device_Get fs_managers_reader fs_response_lister fs_responseLifecycle_Get
       fs_control_lister fs_lifecycle_walker"

abbreviation fs_fleets :: "string \<Rightarrow> (err, fleet_server, string) io" where
  "fs_fleets \<equiv> FleetOf fs_device_Get fs_managers_reader"

text \<open>The fleet of a device is a function of the state: no reader writes.\<close>

definition fleet_in :: "bool \<Rightarrow> fleet_server \<Rightarrow> string \<Rightarrow> err + string" where
  "fleet_in skip s e = fst (fleetOrGone skip fs_fleets e s)"

lemma fs_fleets_reads: "fs_fleets e s = (fst (fs_fleets e s), s)"
  by (simp add: FleetOf_def ManagerOf_def fs_device_Get_def fs_managers_reader_def io_simps Let_def
      split: sum.splits option.splits)

lemma fleetOrGone_reads: "fleetOrGone skip fs_fleets e s = (fleet_in skip s e, s)"
  unfolding fleet_in_def fleetOrGone_def io_try_def
  by (subst (1 2) fs_fleets_reads) (simp add: io_simps split: sum.splits)

section \<open>What the stores commit\<close>

definition grant_view :: "fleet_server \<Rightarrow> string \<Rightarrow> FlowReservationResponse \<Rightarrow> grant option" where
  "grant_view s e frp =
     (case fleet_in False s e of
        Inl _ \<Rightarrow> None
      | Inr fleet \<Rightarrow>
          if fleet = [] then None
          else (case grantFields e frp of
                  Inl _ \<Rightarrow> None
                | Inr g \<Rightarrow>
                    Some (g\<lparr>g_FleetKey := fleet,
                      g_CancelledAt := (case pabs (fs_responseLifecycles s) e (g_ID g) of
                         None \<Rightarrow> None | Some lc \<Rightarrow> lc_CancelledAt lc)\<rparr>)))"

definition control_view :: "fleet_server \<Rightarrow> string \<Rightarrow> DERControl \<Rightarrow> control option" where
  "control_view s sc d =
     (case (scopeEndDevice sc, ControlID (d_Href d)) of
        (Some e, Some x) \<Rightarrow>
          (case srv_lifecycles s sc x of
             None \<Rightarrow> None
           | Some lc \<Rightarrow>
               (case (if lc_FleetKey lc \<noteq> [] then Inr (lc_FleetKey lc) else fleet_in True s e) of
                  Inl _ \<Rightarrow> None
                | Inr fleet \<Rightarrow>
                    if fleet = [] then None
                    else (case controlOf sc x fleet d lc of Inl _ \<Rightarrow> None | Inr c \<Rightarrow> Some c)))
      | _ \<Rightarrow> None)"

definition items_under :: "'a ScopedStore \<Rightarrow> string \<Rightarrow> 'a list" where
  "items_under st p = map (\<lambda>k. the (scoped_lookup st p k)) (sorted_list_of_set (dom (scoped_lookup st p)))"

definition stored_grants :: "fleet_server \<Rightarrow> grant list" where
  "stored_grants s =
     concat (map (\<lambda>e. List.map_filter (grant_view s e) (items_under (inner (fs_responses s)) e))
       (Scoped_Parents (inner (fs_responses s))))"

definition stored_controls :: "fleet_server \<Rightarrow> control list" where
  "stored_controls s =
     concat (map (\<lambda>sc. List.map_filter (control_view s sc) (items_under (inner (sv_controls s)) sc))
       (Scoped_Parents (inner (sv_lifecycles s))))"

definition fs_inv :: "fleet_server \<Rightarrow> bool" where
  "fs_inv s \<longleftrightarrow> srv_inv s \<and> pinv (fs_responses s) \<and> pinv (fs_responseLifecycles s) \<and>
     (\<forall>p. card (dom (srv_controls s p)) < 2 ^ 32) \<and> (\<forall>p. card (dom (pabs (fs_responses s) p)) < 2 ^ 32)"

lemma Scoped_List_items:
  assumes "wf_scoped i" and "card (dom (scoped_lookup i p)) < 2 ^ 32"
  shows "\<exists>l. Scoped_List i p unbounded_options = Inr l \<and> lr_Items l = items_under i p"
proof (cases "stores i p")
  case None
  then have "scoped_lookup i p = Map.empty" by (simp add: scoped_lookup_def fun_eq_iff)
  with None show ?thesis
    by (simp add: Scoped_List_def parentStore_def items_under_def validateListOptions_def ListOptions_Validate_def)
next
  case (Some st)
  have wf: "wf_store st" using assms Some by (auto simp: wf_scoped_def ran_def)
  have lk: "scoped_lookup i p = data st" using Some by (simp add: scoped_lookup_def fun_eq_iff)
  have "\<exists>l. Store_List st unbounded_options = Inr l"
    by (auto simp: Store_List_def validateListOptions_def ListOptions_Validate_def Let_def)
  then show ?thesis
    using Store_List_unbounded [OF wf] Some assms(2) wf_store_keys [OF wf]
    by (auto simp: Scoped_List_def parentStore_def items_under_def lk)
qed

section \<open>The grant walk\<close>

lemma map_filter_simps' [simp]:
  "List.map_filter f [] = []"
  "List.map_filter f (x # xs) = (case f x of None \<Rightarrow> List.map_filter f xs | Some y \<Rightarrow> y # List.map_filter f xs)"
  "List.map_filter f (xs @ ys) = List.map_filter f xs @ List.map_filter f ys"
  by (simp_all add: List.map_filter_def split: option.splits)

lemma L_Get_pabs: "fst (L_Get p x st) = (case pabs st p x of None \<Rightarrow> Inl ErrNotFound | Some v \<Rightarrow> Inr v)"
  by (simp add: L_Get_def Scoped_Get_lookup pabs_def)

lemma grantOf_view:
  assumes "fleet_in False s e = Inr fleet" and "fleet \<noteq> []"
    and "grantOf fs_responseLifecycle_Get e fleet frp s = (r, t)"
  shows "t = s \<and> (\<forall>g. r = Inr g \<longrightarrow> grant_view s e frp = Some g)"
proof (cases "grantFields e frp")
  case (Inl err)
  with assms(3) show ?thesis by (auto simp: grantOf_def io_simps)
next
  case (Inr g)
  then have "g_CancelledAt g = None" by (auto simp: grantFields_def split: option.splits)
  then have "g\<lparr>g_FleetKey := fleet, g_CancelledAt := None\<rparr> = g\<lparr>g_FleetKey := fleet\<rparr>" by simp
  with Inr assms show ?thesis
    by (cases "pabs (fs_responseLifecycles s) e (g_ID g)")
      (auto simp: grantOf_def io_simps fs_responseLifecycle_Get_def L_Get_pabs grant_view_def Let_def)
qed

lemma each_grant_view:
  assumes "fleet_in False s e = Inr fleet" and "fleet \<noteq> []"
    and "each_item (grantOf fs_responseLifecycle_Get e fleet) frps s = (r, t)"
  shows "t = s \<and> (\<forall>gs. r = Inr gs \<longrightarrow> gs = List.map_filter (grant_view s e) frps)"
  using assms(3)
proof (induction frps arbitrary: r t)
  case (Cons frp frps)
  obtain r1 t1 where f: "grantOf fs_responseLifecycle_Get e fleet frp s = (r1, t1)" by fastforce
  obtain r2 t2 where m: "each_item (grantOf fs_responseLifecycle_Get e fleet) frps s = (r2, t2)" by fastforce
  note one = grantOf_view [OF assms(1,2) f] and more = Cons.IH [OF m]
  show ?case
  proof (cases r1)
    case (Inl err)
    with Cons.prems f one show ?thesis by (auto simp: io_run)
  next
    case (Inr g)
    with Cons.prems f m one more show ?thesis by (cases r2) (auto simp: io_run io_return_def)
  qed
qed (auto simp: io_simps)

lemma grants_under_view:
  assumes inv: "fs_inv s"
    and "grants_under fs_response_lister fs_responseLifecycle_Get fs_fleets es s = (r, t)"
  shows "t = s \<and> (\<forall>gs. r = Inr gs \<longrightarrow>
    gs = concat (map (\<lambda>e. List.map_filter (grant_view s e) (items_under (inner (fs_responses s)) e)) es))"
  using assms(2)
proof (induction es arbitrary: r t)
  case (Cons e es)
  let ?items = "items_under (inner (fs_responses s)) e"
  obtain l where l: "sl_List fs_response_lister e unbounded_options s = (Inr l, s)" "lr_Items l = ?items"
    using Scoped_List_items [of "inner (fs_responses s)" e] inv
    by (auto simp: fs_response_lister_def L_List_def fs_inv_def pinv_def indexed_def pabs_def)
  obtain r2 t2 where m: "grants_under fs_response_lister fs_responseLifecycle_Get fs_fleets es s = (r2, t2)"
    by fastforce
  note more = Cons.IH [OF m]
  have skip: "List.map_filter (grant_view s e) xs = []" if "fleet_in False s e = Inr []" for xs
    using that by (induction xs) (simp_all add: grant_view_def)
  show ?case
  proof (cases "?items = []")
    case True
    with Cons.prems l m more show ?thesis by (simp add: io_run)
  next
    case ne: False
    note fl = fleetOrGone_reads [of False e s]
    show ?thesis
    proof (cases "fleet_in False s e")
      case (Inl err)
      with Cons.prems l ne fl show ?thesis by (auto simp: io_run)
    next
      case (Inr fleet)
      show ?thesis
      proof (cases "fleet = []")
        case True
        with Cons.prems l ne fl Inr m more skip show ?thesis by (simp add: io_run)
      next
        case False
        obtain r1 t1 where h: "each_item (grantOf fs_responseLifecycle_Get e fleet) ?items s = (r1, t1)"
          by fastforce
        note here = each_grant_view [OF Inr False h]
        show ?thesis using Cons.prems l ne fl Inr False h here m more
          by (cases r1; cases r2) (auto simp: io_run io_return_def)
      qed
    qed
  qed
qed (auto simp: io_simps)

lemma Grants_all_view:
  assumes "fs_inv s" and "Grants_all fs_response_lister fs_responseLifecycle_Get fs_fleets s = (r, t)"
  shows "t = s \<and> (\<forall>gs. r = Inr gs \<longrightarrow> gs = stored_grants s)"
proof -
  have "sl_Parents fs_response_lister s = (Inr (Scoped_Parents (inner (fs_responses s))), s)"
    by (simp add: fs_response_lister_def L_Parents_def)
  then have "grants_under fs_response_lister fs_responseLifecycle_Get fs_fleets
      (Scoped_Parents (inner (fs_responses s))) s = (r, t)"
    using assms(2) by (simp add: Grants_all_def io_run)
  from grants_under_view [OF assms(1) this] show ?thesis by (simp add: stored_grants_def)
qed

section \<open>The control walk\<close>

lemma on_lifecycles_Get:
  "on_lifecycles (L_Get p x) s = (case srv_lifecycles s p x of None \<Rightarrow> Inl ErrNotFound | Some v \<Rightarrow> Inr v, s)"
  by (simp add: on_lifecycles_def L_Get_def Scoped_Get_lookup srv_lifecycles_def pabs_def)

definition resolved :: "fleet_server \<Rightarrow> (string \<rightharpoonup> string) \<Rightarrow> bool" where
  "resolved s known \<longleftrightarrow> (\<forall>e fleet. known e = Some fleet \<longrightarrow> fleet_in True s e = Inr fleet)"

lemma items_view:
  assumes "scopeEndDevice sc = Some e" and "resolved s known"
    and "controls_of_items fs_lifecycle_walker fs_fleets sc e ds known s = (r, t)"
  shows "t = s \<and> (\<forall>cs known'. r = Inr (cs, known') \<longrightarrow>
    cs = List.map_filter (control_view s sc) ds \<and> resolved s known')"
  using assms(2,3)
proof (induction ds arbitrary: known r t)
  case (Cons d ds)
  show ?case
  proof (cases "ControlID (d_Href d)")
    case None
    with Cons.prems show ?thesis by (auto simp: io_simps)
  next
    case x: (Some x)
    have g: "lw_Get fs_lifecycle_walker sc x s = (case srv_lifecycles s sc x of None \<Rightarrow> Inl ErrNotFound | Some v \<Rightarrow> Inr v, s)"
      by (simp add: fs_lifecycle_walker_def on_lifecycles_Get)
    show ?thesis
    proof (cases "srv_lifecycles s sc x")
      case None
      then have "controls_of_items fs_lifecycle_walker fs_fleets sc e ds known s = (r, t)"
        using Cons.prems(2) x g by (simp add: io_try_def)
      from Cons.IH [OF Cons.prems(1) this] None x assms(1) show ?thesis by (simp add: control_view_def)
    next
      case lc: (Some lc)
      let ?fl = "if lc_FleetKey lc \<noteq> [] then Inr (lc_FleetKey lc) else fleet_in True s e"
      let ?m = "if lc_FleetKey lc \<noteq> [] then io_return (lc_FleetKey lc, known)
                else case known e of
                  Some fleet \<Rightarrow> io_return (fleet, known)
                | None \<Rightarrow> io_bind (fleetOrGone True fs_fleets e) (\<lambda>fleet. io_return (fleet, known(e \<mapsto> fleet)))"
      obtain r1 t1 where m: "?m s = (r1, t1)" by fastforce
      have m1: "t1 = s \<and> (case r1 of Inl err \<Rightarrow> True
          | Inr (fleet, known') \<Rightarrow> ?fl = Inr fleet \<and> resolved s known')"
        using m Cons.prems(1) fleetOrGone_reads [of True e s]
        by (cases "fleet_in True s e")
          (auto simp: io_simps resolved_def split: option.splits if_splits)
      show ?thesis
      proof (cases r1)
        case (Inl err)
        with Cons.prems(2) x g lc m m1 show ?thesis by (auto simp: io_try_def io_run)
      next
        case (Inr fk)
        then obtain fleet known' where fk: "r1 = Inr (fleet, known')" by (cases fk) simp
        with m1 have fl: "?fl = Inr fleet" and rs: "resolved s known'" by simp_all
        obtain r2 t2 where rest: "controls_of_items fs_lifecycle_walker fs_fleets sc e ds known' s = (r2, t2)"
          by fastforce
        note more = Cons.IH [OF rs rest]
        have view: "control_view s sc d = (if fleet = [] then None else
            case controlOf sc x fleet d lc of Inl _ \<Rightarrow> None | Inr c \<Rightarrow> Some c)"
          using x lc assms(1) fl by (simp add: control_view_def)
        have run: "(if fleet = [] then controls_of_items fs_lifecycle_walker fs_fleets sc e ds known'
            else io_bind (io_lift (controlOf sc x fleet d lc)) (\<lambda>ctl.
              io_bind (controls_of_items fs_lifecycle_walker fs_fleets sc e ds known') (\<lambda>(ctls, known'').
              io_return (ctl # ctls, known'')))) s = (r, t)"
          using Cons.prems(2) x g lc m fk m1 by (simp add: io_try_def io_run)
        show ?thesis
        proof (cases "fleet = []")
          case True
          with run rest more view show ?thesis by simp
        next
          case False
          with run rest more view show ?thesis
            by (cases "controlOf sc x fleet d lc"; cases r2) (auto simp: io_run io_lift_def io_return_def)
        qed
      qed
    qed
  qed
qed (auto simp: io_simps)

lemma scopes_view:
  assumes inv: "fs_inv s" and "resolved s known"
    and "controls_of_scopes fs_control_lister fs_lifecycle_walker fs_fleets scs known s = (r, t)"
  shows "t = s \<and> (\<forall>cs. r = Inr cs \<longrightarrow>
    cs = concat (map (\<lambda>sc. List.map_filter (control_view s sc) (items_under (inner (sv_controls s)) sc)) scs))"
  using assms(2,3)
proof (induction scs arbitrary: known r t)
  case (Cons sc scs)
  let ?items = "items_under (inner (sv_controls s)) sc"
  obtain l where l: "sl_List fs_control_lister sc unbounded_options s = (Inr l, s)" "lr_Items l = ?items"
    using Scoped_List_items [of "inner (sv_controls s)" sc] inv
    by (auto simp: fs_control_lister_def on_controls_def D_List_def fs_inv_def srv_defs dinv_def pinv_def
        indexed_def pabs_def)
  show ?case
  proof (cases "scopeEndDevice sc")
    case None
    with Cons.prems show ?thesis by (auto simp: io_simps)
  next
    case e: (Some e)
    obtain r1 t1 where h: "controls_of_items fs_lifecycle_walker fs_fleets sc e ?items known s = (r1, t1)"
      by fastforce
    note here = items_view [OF e Cons.prems(1) h]
    show ?thesis
    proof (cases r1)
      case (Inl err)
      with Cons.prems(2) e l h here show ?thesis by (auto simp: io_run)
    next
      case (Inr ck)
      then obtain cs known' where ck: "r1 = Inr (cs, known')" by (cases ck) simp
      obtain r2 t2 where m: "controls_of_scopes fs_control_lister fs_lifecycle_walker fs_fleets scs known' s = (r2, t2)"
        by fastforce
      from here ck have rs: "resolved s known'" by simp
      from Cons.IH [OF rs m] Cons.prems(2) e l h here ck m show ?thesis
        by (cases r2) (auto simp: io_run io_return_def)
    qed
  qed
qed (auto simp: io_simps)

lemma Controls_walk_view:
  assumes "fs_inv s" and "Controls_walk fs_control_lister fs_lifecycle_walker fs_fleets s = (r, t)"
  shows "t = s \<and> (\<forall>cs. r = Inr cs \<longrightarrow> cs = stored_controls s)"
proof -
  have "lw_Parents fs_lifecycle_walker s = (Inr (Scoped_Parents (inner (sv_lifecycles s))), s)"
    by (simp add: fs_lifecycle_walker_def on_lifecycles_def L_Parents_def)
  then have "controls_of_scopes fs_control_lister fs_lifecycle_walker fs_fleets
      (Scoped_Parents (inner (sv_lifecycles s))) Map.empty s = (r, t)"
    using assms(2) by (simp add: Controls_walk_def io_run)
  from scopes_view [OF assms(1) _ this] show ?thesis by (simp add: stored_controls_def resolved_def)
qed

section \<open>The ledger on the server\<close>

lemma counted_in_fleet: "counted_in f = in_fleet f"
  by (auto simp: counted_in_def in_fleet_def fun_eq_iff)

lemma ledger_parts:
  "l_grants NewCommitmentLedger = NewGrants fs_response_lister fs_responseLifecycle_Get fs_fleets"
  "l_controls NewCommitmentLedger = NewControls fs_control_lister fs_lifecycle_walker fs_fleets"
  by (simp_all add: NewCommitmentLedger_def NewLedger_def Let_def)

interpretation fl: commitment_sources NewCommitmentLedger fs_inv stored_grants stored_controls
proof
  fix s t :: fleet_server and f m r and rg :: "err + grant" and q :: "err + control list"
  assume inv: "fs_inv s"
  obtain ga gt where g: "Grants_all fs_response_lister fs_responseLifecycle_Get fs_fleets s = (ga, gt)" by fastforce
  obtain ca ct where c: "Controls_walk fs_control_lister fs_lifecycle_walker fs_fleets s = (ca, ct)" by fastforce
  note G = Grants_all_view [OF inv g] and C = Controls_walk_view [OF inv c]
  show "t = s \<and> (\<forall>gs. r = Inr gs \<longrightarrow> gs = filter (in_fleet f) (stored_grants s))"
    if "GrantsInFleet (l_grants NewCommitmentLedger) f s = (r, t)"
    using that g G by (cases ga) (auto simp: ledger_parts NewGrants_def io_run io_return_def counted_in_fleet)
  show "t = s \<and> (\<forall>g. rg = Inr g \<longrightarrow> find (\<lambda>g. g_MRID g = m) (stored_grants s) = Some g)"
    if "GrantByMRID (l_grants NewCommitmentLedger) m s = (rg, t)"
    using that g G by (cases ga) (auto simp: ledger_parts NewGrants_def io_run io_return_def io_fail_def split: option.splits)
  show "t = s \<and> (\<forall>cs. q = Inr cs \<longrightarrow> cs = filter (\<lambda>c. c_FleetKey c = f) (stored_controls s))"
    if "ControlsInFleet (l_controls NewCommitmentLedger) f s = (q, t)"
    using that c C by (cases ca) (auto simp: ledger_parts NewControls_def Controls_filter_def io_run io_return_def)
  show "t = s \<and> (\<forall>cs. q = Inr cs \<longrightarrow> m \<noteq> [] \<and> cs = filter (\<lambda>c. c_GrantMRID c = m) (stored_controls s))"
    if "ExecutionsOf (l_controls NewCommitmentLedger) m s = (q, t)"
    using that c C by (cases ca) (auto simp: ledger_parts NewControls_def Controls_filter_def io_run io_return_def io_fail_def split: if_splits)
qed

end
