(* ===== verification/Commit.thy ===== *)
theory Commit
  imports FleetServer
begin

text \<open>
  Committing under the ledger: the flow reservation gate (\<open>internal/flowreservation/gate.go\<close>)
  and the DER control handler's issue and cancel inside a fleet
  (\<open>internal/handler/admin_dercontrol.go\<close>). On the server's stores a grant or a control that
  was let in keeps the rule of every fleet.
\<close>

section \<open>The gate of the flow reservations\<close>

definition LedgerGate_Grant ::
    "'s Ledger option \<Rightarrow> (string \<Rightarrow> (err, 's, string) io) \<Rightarrow> 's ctx \<Rightarrow> string \<Rightarrow> window option \<Rightarrow> string \<Rightarrow>
     (err, 's, unit) io \<Rightarrow> (err, 's, unit) io" where
  "LedgerGate_Grant ledger fleets ctx edevID w except write =
     (case ledger of
        None \<Rightarrow> io_fail ErrNoLedger
      | Some l \<Rightarrow>
          io_bind (io_map_err (\<lambda>e. Errorf ''flowreservation: fleet of'' [e]) (fleets edevID)) (\<lambda>fleet.
          Within_locks (Some l) ctx [fleet] (\<lambda>v.
            io_bind (CheckGrant l v fleet w except) (\<lambda>_. write))))"

section \<open>The handler of the DER controls\<close>

definition isContextErr :: "err \<Rightarrow> bool" where
  "isContextErr e \<longleftrightarrow> err_is e ErrCanceled \<or> err_is e ErrDeadlineExceeded"

abbreviation commitmentFailure :: "string \<Rightarrow> err list \<Rightarrow> err" where
  "commitmentFailure sub es \<equiv> Errorf (''commitment check could not complete: '' @ sub) es"

definition proposal_of :: "IssueProposal \<Rightarrow> Proposal" where
  "proposal_of q =
     \<lparr>p_FleetKey = q_FleetKey q, p_Window = q_Window q, p_GrantMRID = q_GrantMRID q,
      p_TargetW = q_TargetW q, p_Reach = q_Reach q, p_Supersedes = q_Supersedes q\<rparr>"

definition checkIn :: "'s Ledger \<Rightarrow> view \<Rightarrow> IssueProposal \<Rightarrow> (err, 's, unit) io" where
  "checkIn l v q =
     io_map_err (\<lambda>e. if as_conflict e \<noteq> None \<or> isContextErr e then e
                     else commitmentFailure ''store_read_failed'' [e])
       (CheckControl l v (proposal_of q))"

text \<open>\<open>Within\<close> with a flag that says whether it ran the function, and if so what that returned.\<close>

definition within_ran ::
    "'s Ledger \<Rightarrow> 's ctx \<Rightarrow> string list \<Rightarrow> (view \<Rightarrow> (err, 's, 'a) io) \<Rightarrow> (err, 's, err + 'a) io" where
  "within_ran l ctx ks fn = Within_locks (Some l) ctx ks (\<lambda>v s. case fn v s of (r, t) \<Rightarrow> (Inr r, t))"

definition withinFleets ::
    "'s Ledger option \<Rightarrow> 's ctx \<Rightarrow> string list \<Rightarrow> (view \<Rightarrow> (err, 's, 'a) io) \<Rightarrow> (err, 's, 'a) io" where
  "withinFleets ledger ctx ks fn =
     (case ledger of
        None \<Rightarrow> io_fail (commitmentFailure ''no_ledger'' [])
      | Some l \<Rightarrow>
          io_try (within_ran l ctx ks fn) (\<lambda>r.
            case r of
              Inr result \<Rightarrow> io_lift result
            | Inl e \<Rightarrow>
                if err_is e ErrNoLedger then io_fail (commitmentFailure ''no_ledger'' [e])
                else if isContextErr e then io_fail e
                else io_fail (commitmentFailure ''ledger_failed'' [e])))"

record ('s, 'f) AdminDERControlHandler =
  h_Issuer :: "('s, 'f) Issuer"
  h_Fleets :: "(string \<Rightarrow> (err, 's, string) io) option"
  h_Ledger :: "'s Ledger option"
  h_Lifecycles :: "'s lc_get option"

definition handler_fleetOf :: "('s, 'f) AdminDERControlHandler \<Rightarrow> string \<Rightarrow> (err, 's, string) io" where
  "handler_fleetOf h edevID =
     (case h_Fleets h of
        None \<Rightarrow> io_fail (commitmentFailure ''no_resolver'' [])
      | Some fleets \<Rightarrow>
          io_map_err (\<lambda>e. if err_is e ErrNotFound then RefusalError RefusalProgramNotFound
                          else if err_is e ErrNoLFDI then commitmentFailure ''device_without_lfdi'' [e]
                          else commitmentFailure ''fleet_resolve_failed'' [e])
            (fleets edevID))"

definition controlReach :: int where "controlReach = 1"

definition issueInFleet ::
    "('s, 'f) AdminDERControlHandler \<Rightarrow> 's ctx \<Rightarrow> int \<Rightarrow> 'f CreateRequest \<Rightarrow> (err, 's, IssueResult) io" where
  "issueInFleet h ctx now req =
     (if h_Fleets h = None then io_fail (commitmentFailure ''no_resolver'' [])
      else case h_Ledger h of
        None \<Rightarrow> io_fail (commitmentFailure ''no_ledger'' [])
      | Some l \<Rightarrow>
          (case Program (r_DERProgramHref req) of
             None \<Rightarrow> io_fail (RefusalError RefusalInvalidProgramHref)
           | Some (edevID, _, _) \<Rightarrow>
               io_bind (handler_fleetOf h edevID) (\<lambda>fleetKey.
               withinFleets (Some l) ctx [fleetKey] (\<lambda>v.
                 IssueInFleet (h_Issuer h) ctx now req
                   \<lparr>f_Key = fleetKey, f_Reach = controlReach, f_Check = Some (checkIn l v)\<rparr>))))"

text \<open>The fleets to lock for a cancel; the reason none resolved is only logged.\<close>

definition cancelFleetKeys ::
    "('s, 'f) AdminDERControlHandler \<Rightarrow> Scope \<Rightarrow> string \<Rightarrow> (err, 's, string list) io" where
  "cancelFleetKeys h scope rid =
     io_bind (case h_Lifecycles h of
                None \<Rightarrow> io_return []
              | Some get \<Rightarrow>
                  io_try (get (Key scope) rid) (\<lambda>r.
                    case r of
                      Inr lc \<Rightarrow> io_return (if lc_GrantMRID lc \<noteq> [] \<and> lc_FleetKey lc \<noteq> [] then [lc_FleetKey lc] else [])
                    | Inl _ \<Rightarrow> io_return []))
       (\<lambda>ks.
         case h_Fleets h of
           None \<Rightarrow> io_return ks
         | Some fleets \<Rightarrow>
             io_try (fleets (EndDeviceID scope)) (\<lambda>r.
               case r of
                 Inr fleetKey \<Rightarrow> io_return (if fleetKey \<in> set ks then ks else ks @ [fleetKey])
               | Inl _ \<Rightarrow> io_return ks))"

definition cancelInFleet ::
    "('s, 'f) AdminDERControlHandler \<Rightarrow> 's ctx \<Rightarrow> int \<Rightarrow> Scope \<Rightarrow> string \<Rightarrow> string \<Rightarrow> 's lc_result" where
  "cancelInFleet h ctx now scope rid reason s =
     (case cancelFleetKeys h scope rid s of
        (Inl e, t) \<Rightarrow> ((zero_lifecycle, Some e), t)
      | (Inr ks, t) \<Rightarrow>
          (case h_Ledger h of
             None \<Rightarrow> Cancel (h_Issuer h) ctx now scope rid reason t
           | Some l \<Rightarrow>
               if ks = [] then Cancel (h_Issuer h) ctx now scope rid reason t
               else (case Within_locks (Some l) ctx ks
                            (\<lambda>v u. case Cancel (h_Issuer h) ctx now scope rid reason u of (r, w) \<Rightarrow> (Inr r, w)) t of
                       (Inr r, u) \<Rightarrow> (r, u)
                     | (Inl e, u) \<Rightarrow>
                         (case ctx u of
                            Some c \<Rightarrow> ((zero_lifecycle, Some c), u)
                          | None \<Rightarrow> Cancel (h_Issuer h) ctx now scope rid reason u))))"

section \<open>The ledger's checks only read\<close>

lemma reads_fs [reads_intros]:
  "reads (fs_device_Get e)" "reads (mr_ManagerOf fs_managers_reader m)"
  "reads (sl_Parents fs_response_lister)" "reads (sl_List fs_response_lister p opts)"
  "reads (fs_responseLifecycle_Get p x)" "reads (sl_List fs_control_lister p opts)"
  "reads (lw_Get fs_lifecycle_walker p x)" "reads (lw_Parents fs_lifecycle_walker)"
  by (simp_all add: reads_def fs_device_Get_def fs_managers_reader_def fs_response_lister_def
      fs_responseLifecycle_Get_def fs_control_lister_def fs_lifecycle_walker_def on_controls_def
      on_lifecycles_def D_List_def L_Get_def L_Parents_def)

lemma reads_each_item [reads_intros]: "(\<And>x. reads (f x)) \<Longrightarrow> reads (each_item f xs)"
  by (induction xs) (auto intro!: reads_intros)

lemma reads_fleets [reads_intros]: "reads (fs_fleets e)"
  by (auto simp: FleetOf_def ManagerOf_def Let_def intro!: reads_intros)

lemma reads_fleetOrGone [reads_intros]: "reads (fleetOrGone skip fs_fleets e)"
  by (auto simp: fleetOrGone_def intro!: reads_intros)

lemma reads_grants_under [reads_intros]:
  "reads (grants_under fs_response_lister fs_responseLifecycle_Get fs_fleets es)"
  by (induction es) (auto simp: grantOf_def Let_def intro!: reads_intros)

lemma reads_controls_of_items [reads_intros]:
  "reads (controls_of_items fs_lifecycle_walker fs_fleets sc e ds known)"
  by (induction ds arbitrary: known) (auto intro!: reads_intros)

lemma reads_controls_of_scopes [reads_intros]:
  "reads (controls_of_scopes fs_control_lister fs_lifecycle_walker fs_fleets scs known)"
  by (induction scs arbitrary: known) (auto intro!: reads_intros)

lemma reads_sources [reads_intros]:
  "reads (GrantsInFleet (l_grants NewCommitmentLedger) f)" "reads (GrantByMRID (l_grants NewCommitmentLedger) m)"
  "reads (ControlsInFleet (l_controls NewCommitmentLedger) f)" "reads (ExecutionsOf (l_controls NewCommitmentLedger) m)"
  by (auto simp: ledger_parts NewGrants_def NewControls_def Grants_all_def Controls_filter_def Controls_walk_def
      intro!: reads_intros)

lemma reads_CheckControl [reads_intros]: "reads (CheckControl NewCommitmentLedger v p)"
  by (auto simp: CheckControl_def checkPlain_def checkExecution_def Let_def intro!: reads_intros)

lemma reads_CheckGrant [reads_intros]: "reads (CheckGrant NewCommitmentLedger v f w except)"
  by (auto simp: CheckGrant_def intro!: reads_intros)

lemma reads_checkIn: "reads (checkIn NewCommitmentLedger v q)"
  by (auto simp: checkIn_def intro!: reads_intros)

end
