(* ===== verification/CommitLaws.thy ===== *)
theory CommitLaws
  imports Commit
begin

text \<open>
  The rule of the fleets, on the stores: what a stored response or control adds to the
  commitments, and that a write behind the ledger's check keeps the rule everywhere.
\<close>

section \<open>The commitments as sets\<close>

lemma wf_scoped_finite: "wf_scoped i \<Longrightarrow> finite (dom (scoped_lookup i p))"
  by (metis List.finite_set data_child wf_child wf_store_def)

lemma set_items_under: "wf_scoped i \<Longrightarrow> set (items_under i p) = ran (scoped_lookup i p)"
  using wf_scoped_finite [of i p] by (force simp: items_under_def ran_def dom_def)

lemma set_Scoped_Parents: "wf_scoped i \<Longrightarrow> set (Scoped_Parents i) = dom (stores i)"
  by (simp add: Scoped_Parents_def wf_scoped_def)

lemma lookup_parent: "scoped_lookup i p x = Some v \<Longrightarrow> p \<in> dom (stores i)"
  by (auto simp: scoped_lookup_def split: option.splits)

lemma fs_wf:
  assumes "fs_inv s"
  shows "wf_scoped (inner (fs_responses s))" "wf_scoped (inner (sv_controls s))" "wf_scoped (inner (sv_lifecycles s))"
  using assms by (auto simp: fs_inv_def srv_defs dinv_def pinv_def indexed_def)

lemma in_items_under: "wf_scoped i \<Longrightarrow> v \<in> set (items_under i p) \<longleftrightarrow> (\<exists>x. scoped_lookup i p x = Some v)"
  by (simp add: set_items_under ran_def)

lemma set_stored_grants:
  assumes "fs_inv s"
  shows "g \<in> set (stored_grants s) \<longleftrightarrow>
    (\<exists>e x frp. pabs (fs_responses s) e x = Some frp \<and> grant_view s e frp = Some g)"
proof -
  let ?i = "inner (fs_responses s)"
  have "g \<in> set (stored_grants s) \<longleftrightarrow>
      (\<exists>e \<in> dom (stores ?i). \<exists>frp \<in> set (items_under ?i e). grant_view s e frp = Some g)"
    by (simp add: stored_grants_def in_map_filter set_Scoped_Parents [OF fs_wf(1) [OF assms]])
  also have "\<dots> \<longleftrightarrow> (\<exists>e x frp. scoped_lookup ?i e x = Some frp \<and> grant_view s e frp = Some g)"
    unfolding Bex_def in_items_under [OF fs_wf(1) [OF assms]] using lookup_parent [of ?i] by metis
  finally show ?thesis by (simp add: pabs_def)
qed

lemma control_view_lifecycle: "control_view s sc d = Some c \<Longrightarrow> \<exists>x lc. srv_lifecycles s sc x = Some lc"
  by (auto simp: control_view_def split: option.splits)

lemma set_stored_controls:
  assumes "fs_inv s"
  shows "c \<in> set (stored_controls s) \<longleftrightarrow>
    (\<exists>sc x d. srv_controls s sc x = Some d \<and> control_view s sc d = Some c)"
proof
  assume "\<exists>sc x d. srv_controls s sc x = Some d \<and> control_view s sc d = Some c"
  then obtain sc x d where d: "srv_controls s sc x = Some d" "control_view s sc d = Some c" by blast
  from control_view_lifecycle [OF d(2)] have "sc \<in> set (Scoped_Parents (inner (sv_lifecycles s)))"
    unfolding set_Scoped_Parents [OF fs_wf(3) [OF assms]] srv_lifecycles_def pabs_def
    using lookup_parent by metis
  moreover have "d \<in> set (items_under (inner (sv_controls s)) sc)"
    using d(1) set_items_under [OF fs_wf(2) [OF assms]] by (auto simp: srv_controls_def pabs_def ran_def)
  ultimately show "c \<in> set (stored_controls s)" using d(2) by (auto simp: stored_controls_def in_map_filter)
next
  assume "c \<in> set (stored_controls s)"
  then show "\<exists>sc x d. srv_controls s sc x = Some d \<and> control_view s sc d = Some c"
    using set_items_under [OF fs_wf(2) [OF assms]]
    by (auto simp: stored_controls_def in_map_filter srv_controls_def pabs_def ran_def)
qed

text \<open>Every stored control's href names the id it is stored at.\<close>

definition hrefs_ok :: "DERControl map2 \<Rightarrow> bool" where
  "hrefs_ok C \<longleftrightarrow> (\<forall>sc x d. C sc x = Some d \<longrightarrow> ControlID (d_Href d) = Some x)"

lemma control_view_key:
  "control_view s sc d = Some c \<Longrightarrow> c_Scope c = sc \<and> ControlID (d_Href d) = Some (c_ID c) \<and> c_MRID c = d_MRID d"
  by (auto simp: control_view_def controlOf_def split: option.splits if_splits sum.splits)

lemma distinct_map_filter:
  assumes "distinct xs" and "\<And>x y z. x \<in> set xs \<Longrightarrow> y \<in> set xs \<Longrightarrow> f x = Some z \<Longrightarrow> f y = Some z \<Longrightarrow> x = y"
  shows "distinct (List.map_filter f xs)"
  using assms by (induction xs) (auto simp: in_map_filter split: option.splits)

lemma distinct_concat_map:
  assumes "distinct ps" and "\<And>p. p \<in> set ps \<Longrightarrow> distinct (f p)"
    and "\<And>p q z. z \<in> set (f p) \<Longrightarrow> z \<in> set (f q) \<Longrightarrow> p = q"
  shows "distinct (concat (map f ps))"
  using assms by (induction ps) auto

lemma distinct_stored_controls:
  assumes inv: "fs_inv s" and "hrefs_ok (srv_controls s)"
  shows "distinct (stored_controls s)"
  unfolding stored_controls_def
proof (rule distinct_concat_map)
  show "distinct (Scoped_Parents (inner (sv_lifecycles s)))" by (simp add: Scoped_Parents_def)
next
  fix sc
  let ?m = "scoped_lookup (inner (sv_controls s)) sc"
  have fin: "finite (dom ?m)" using wf_scoped_finite [OF fs_wf(2) [OF inv]] .
  have at: "ControlID (d_Href (the (?m k))) = Some k" if "k \<in> dom ?m" for k
    using that assms(2) by (auto simp: hrefs_ok_def srv_controls_def pabs_def)
  show "distinct (List.map_filter (control_view s sc) (items_under (inner (sv_controls s)) sc))"
  proof (rule distinct_map_filter)
    show "distinct (items_under (inner (sv_controls s)) sc)"
      unfolding items_under_def distinct_map
    proof
      show "inj_on (\<lambda>k. the (?m k)) (set (sorted_list_of_set (dom ?m)))"
        using at fin by (intro inj_on_inverseI [where g = "\<lambda>d. the (ControlID (d_Href d))"]) simp
    qed simp
  next
    fix d d' c assume "d \<in> set (items_under (inner (sv_controls s)) sc)" "d' \<in> set (items_under (inner (sv_controls s)) sc)"
      and v: "control_view s sc d = Some c" "control_view s sc d' = Some c"
    then obtain k k' where k: "?m k = Some d" "?m k' = Some d'"
      unfolding in_items_under [OF fs_wf(2) [OF inv]] by blast
    then have "ControlID (d_Href d) = Some k" "ControlID (d_Href d') = Some k'" using at by force+
    with control_view_key [OF v(1)] control_view_key [OF v(2)] have "k = k'" by simp
    with k show "d = d'" by simp
  qed
next
  fix p q c
  assume "c \<in> set (List.map_filter (control_view s p) (items_under (inner (sv_controls s)) p))"
    "c \<in> set (List.map_filter (control_view s q) (items_under (inner (sv_controls s)) q))"
  then have "c_Scope c = p" "c_Scope c = q" unfolding in_map_filter by (blast dest: control_view_key)+
  then show "p = q" by simp
qed

section \<open>Storing a grant\<close>

definition fleets_hold :: "fleet_server \<Rightarrow> bool" where
  "fleets_hold s \<longleftrightarrow> (\<forall>f. fleet_rule (stored_grants s) (stored_controls s) f)"

definition commitments_wf :: "fleet_server \<Rightarrow> bool" where
  "commitments_wf s \<longleftrightarrow> wf_stores (stored_grants s) (stored_controls s)"

text \<open>
  The write a flow reservation answer makes behind the gate, taken down to the store of
  responses: the closure in \<open>queue.go\<close> also writes an answer record, which no check reads.
\<close>

definition response_Create :: "string \<Rightarrow> string \<Rightarrow> FlowReservationResponse \<Rightarrow> (err, fleet_server, unit) io" where
  "response_Create e x frp s = (case P_Create e x frp (fs_responses s) of (r, p) \<Rightarrow> (r, s\<lparr>fs_responses := p\<rparr>))"

lemma fleet_in_cong:
  "fs_devices t = fs_devices s \<Longrightarrow> fs_managers t = fs_managers s \<Longrightarrow> fleet_in skip t e = fleet_in skip s e"
  by (simp add: fleet_in_def fleetOrGone_def FleetOf_def ManagerOf_def fs_device_Get_def fs_managers_reader_def
      io_simps Let_def split: sum.splits option.splits)

lemma control_view_cong:
  assumes "fs_devices t = fs_devices s" and "fs_managers t = fs_managers s" and "srv_lifecycles t = srv_lifecycles s"
  shows "control_view t = control_view s"
proof (intro ext)
  fix sc d
  have "fleet_in True t = fleet_in True s" by (intro ext fleet_in_cong assms)
  then show "control_view t sc d = control_view s sc d" unfolding control_view_def assms(3) by (rule arg_cong)
qed

lemma grant_view_cong:
  assumes "fs_devices t = fs_devices s" and "fs_managers t = fs_managers s"
    and "fs_responseLifecycles t = fs_responseLifecycles s"
  shows "grant_view t = grant_view s"
proof (intro ext)
  fix e frp
  have "fleet_in False t = fleet_in False s" by (intro ext fleet_in_cong assms)
  then show "grant_view t e frp = grant_view s e frp" unfolding grant_view_def assms(3) by (rule arg_cong)
qed

lemma stored_controls_other: "stored_controls (s\<lparr>fs_responses := p\<rparr>) = stored_controls s"
  using control_view_cong [of "s\<lparr>fs_responses := p\<rparr>" s] by (simp add: stored_controls_def srv_lifecycles_def)

lemma grant_view_other: "grant_view (s\<lparr>fs_responses := p\<rparr>) = grant_view s"
  by (intro grant_view_cong) simp_all

lemma stored_grants_create:
  assumes inv: "fs_inv s" and "response_Create e x frp s = (Inr u, t)" and "fs_inv t"
  shows "set (stored_grants t) = set (stored_grants s) \<union> set_option (grant_view s e frp)"
    and "stored_controls t = stored_controls s"
proof -
  from assms(2) obtain p where p: "P_Create e x frp (fs_responses s) = (Inr u, p)" and t: "t = s\<lparr>fs_responses := p\<rparr>"
    by (auto simp: response_Create_def split: prod.splits)
  have "pinv (fs_responses s)" using inv by (simp add: fs_inv_def)
  from ps.create_ok [OF this p] have new: "pabs (fs_responses s) e x = None"
    "pabs p = upd2 (pabs (fs_responses s)) e x (Some frp)" by simp_all
  show "stored_controls t = stored_controls s" by (simp add: t stored_controls_other)
  show "set (stored_grants t) = set (stored_grants s) \<union> set_option (grant_view s e frp)"
  proof (rule set_eqI)
    fix g
    have "g \<in> set (stored_grants t) \<longleftrightarrow> (\<exists>e' x' f. pabs p e' x' = Some f \<and> grant_view s e' f = Some g)"
      unfolding set_stored_grants [OF assms(3)] by (simp add: t grant_view_other)
    also have "\<dots> \<longleftrightarrow> (\<exists>e' x' f. pabs (fs_responses s) e' x' = Some f \<and> grant_view s e' f = Some g) \<or>
        grant_view s e frp = Some g"
      using new by (auto simp: upd2_apply) (metis option.distinct(1))
    also have "\<dots> \<longleftrightarrow> g \<in> set (stored_grants s) \<or> g \<in> set_option (grant_view s e frp)"
      unfolding set_stored_grants [OF inv] by (simp add: elem_set)
    finally show "g \<in> set (stored_grants t) \<longleftrightarrow> g \<in> set (stored_grants s) \<union> set_option (grant_view s e frp)"
      by simp
  qed
qed

lemma fleet_rule_other_grant:
  assumes "fleet_rule G C f" and "set G' = insert g (set G)" and "g_FleetKey g \<noteq> f"
  shows "fleet_rule G' C f"
proof -
  have "set (live_grants G' f) = set (live_grants G f)" using assms(2,3) by (auto simp: live_grants_def in_fleet_def)
  then show ?thesis using assms(1) by (simp add: fleet_rule_def is_plain_def)
qed

lemma gate_keeps_rule:
  assumes inv: "fs_inv s" and hold: "fleets_hold s" and wf: "commitments_wf s"
    and run: "LedgerGate_Grant (Some NewCommitmentLedger) fs_fleets ctx e (frp_Interval frp) []
      (response_Create e x frp) s = (Inr (), t)"
    and wfw: "\<And>w. frp_Interval frp = Some w \<Longrightarrow> wf_window w"
    and named: "\<forall>h \<in> set (stored_grants s). g_MRID h \<noteq> []"
    and fresh: "\<forall>c \<in> set (stored_controls s). c_GrantMRID c \<noteq> frp_MRID frp"
    and inv': "fs_inv t"
  shows "fleets_hold t"
proof -
  obtain fleet where fl: "fs_fleets e s = (Inr fleet, s)"
    using run fs_fleets_reads [of e s] by (cases "fst (fs_fleets e s)") (auto simp: LedgerGate_Grant_def io_run)
  then obtain v s1 where chk: "CheckGrant NewCommitmentLedger v fleet (frp_Interval frp) [] s = (Inr (), s1)"
    and wr: "response_Create e x frp s1 = (Inr (), t)"
    using run by (auto simp: LedgerGate_Grant_def io_run Within_locks_def Let_def io_bind_Inr split: if_splits option.splits)
  have s1: "s1 = s" using readsD [OF reads_CheckGrant chk] .
  note st = stored_grants_create [OF inv wr [unfolded s1] inv']
  have fin: "fleet_in False s e = Inr fleet"
    using fl by (simp add: fleet_in_def fleetOrGone_def io_try_def io_return_def)
  show ?thesis
  proof (cases "grant_view s e frp")
    case None
    then have "set (stored_grants t) = set (stored_grants s)" using st(1) by simp
    then have "set (live_grants (stored_grants t) f) = set (live_grants (stored_grants s) f)" for f
      by (simp add: live_grants_def)
    then show ?thesis using hold st(2) by (simp add: fleets_hold_def fleet_rule_def is_plain_def)
  next
    case (Some g)
    then have g: "g_FleetKey g = fleet" "g_MRID g = frp_MRID frp" "g_Window g = frp_Interval frp"
      using fin by (auto simp: grant_view_def grantFields_def split: if_splits sum.splits option.splits)
    have ins: "set (stored_grants t) = insert g (set (stored_grants s))" using st(1) Some by auto
    show ?thesis unfolding fleets_hold_def
    proof
      fix f
      have rule: "fleet_rule (stored_grants s) (stored_controls s) f" using hold by (simp add: fleets_hold_def)
      show "fleet_rule (stored_grants t) (stored_controls t) f"
      proof (cases "f = fleet")
        case False
        then show ?thesis using fleet_rule_other_grant [OF rule ins] g(1) st(2) by simp
      next
        case True
        show ?thesis
        proof (cases "frp_Interval frp")
          case None
          then have "\<not> g_covers g y" for y using g(3) by (simp add: g_covers_def)
          then show ?thesis using fleet_rule_add_grant [OF rule ins] fresh g(2) st(2) by simp
        next
          case w: (Some w)
          from fl.CheckGrant_keeps_rule [OF inv rule [unfolded True] _ chk [unfolded w] g(3) [unfolded w] wfw [OF w], of "stored_grants t"]
          show ?thesis using wf ins fresh g(2) named st(2) True by (simp add: s1 commitments_wf_def)
        qed
      qed
    qed
  qed
qed

section \<open>Storing a control\<close>

lemma Duration_ClipAt:
  assumes "wf_window w"
  shows "Start (ClipAt w t) = Start w"
    and "uint (Duration (ClipAt w t)) = max 0 (min (uint (Duration w)) (t - Start w))"
proof -
  consider "t \<le> Start w" | "Start w < t" "t < window_End w" | "window_End w \<le> t" by linarith
  then have "Start (ClipAt w t) = Start w \<and>
      uint (Duration (ClipAt w t)) = max 0 (min (uint (Duration w)) (t - Start w))"
  proof cases
    case 1
    then show ?thesis by (simp add: ClipAt_def)
  next
    case 2
    with ClipAt_clipped [OF assms 2] assms show ?thesis by simp
  next
    case 3
    then have "Start w + uint (Duration w) \<le> t" using assms by simp
    then have "t \<le> Start w \<Longrightarrow> uint (Duration w) = 0" "\<not> t < window_End w"
      using assms uint_ge_0 [of "Duration w"] by (linarith, simp)
    then show ?thesis using \<open>Start w + uint (Duration w) \<le> t\<close> by (auto simp: ClipAt_def)
  qed
  then show "Start (ClipAt w t) = Start w"
    and "uint (Duration (ClipAt w t)) = max 0 (min (uint (Duration w)) (t - Start w))" by simp_all
qed

lemma window_eqI: "Start v = Start w \<Longrightarrow> uint (Duration v) = uint (Duration w) \<Longrightarrow> v = (w :: window)"
  by (cases v; cases w) (simp add: word_uint_eq_iff)

lemma ClipAt_earlier:
  assumes "wf_window w" and "n < t"
  shows "ClipAt (ClipAt w t) n = ClipAt w n"
  using assms ClipAt_wf [OF assms(1), of t]
  by (intro window_eqI) (simp_all add: Duration_ClipAt)

text \<open>The view of a control does not change unless its own record does.\<close>

lemma control_view_at:
  assumes "fs_devices t = fs_devices s" and "fs_managers t = fs_managers s"
    and "ControlID (d_Href d) = Some x" and "srv_lifecycles t sc x = srv_lifecycles s sc x"
  shows "control_view t sc d = control_view s sc d"
proof -
  have "fleet_in True t = fleet_in True s" by (intro ext fleet_in_cong assms)
  then show ?thesis
    by (cases "scopeEndDevice sc"; cases "srv_lifecycles s sc x") (simp_all add: control_view_def assms(3,4))
qed

text \<open>The mark of a supersede cuts the view of the control at the new start.\<close>

lemma control_view_marked:
  assumes "fs_devices t = fs_devices s" and "fs_managers t = fs_managers s"
    and x: "ControlID (d_Href d) = Some x" and lc: "srv_lifecycles s sc x = Some lc"
    and el: "supersedeEligible lc n"
    and t: "srv_lifecycles t sc x = Some (lc\<lparr>lc_SupersededAt := Some n, lc_SupersededBy := m\<rparr>)"
    and wf: "\<And>w. d_Interval d = Some w \<Longrightarrow> wf_window w"
  shows "control_view t sc d = map_option (\<lambda>c. c\<lparr>c_Window := ClipAt (c_Window c) n\<rparr>) (control_view s sc d)"
proof -
  have fl: "fleet_in True t = fleet_in True s" by (intro ext fleet_in_cong assms)
  let ?lc = "lc\<lparr>lc_SupersededAt := Some n, lc_SupersededBy := m\<rparr>"
  have c: "controlOf sc x f d ?lc = (case controlOf sc x f d lc of Inl e \<Rightarrow> Inl e
      | Inr c \<Rightarrow> Inr (c\<lparr>c_Window := ClipAt (c_Window c) n\<rparr>))" for f
    using el wf by (auto simp: controlOf_def supersedeEligible_def ClipAt_earlier split: option.splits if_splits)
  show ?thesis
    by (cases "scopeEndDevice sc"; cases "lc_FleetKey lc = []")
      (simp_all add: control_view_def x lc t fl c split: sum.splits)
qed

text \<open>
  A control that was superseded is the only one stored with its mRID: it is no copy of a fan-out.
\<close>

definition solo :: "DERControl map2 \<Rightarrow> string \<Rightarrow> bool" where
  "solo C m \<longleftrightarrow> (\<forall>p x d q y e. C p x = Some d \<longrightarrow> d_MRID d = m \<longrightarrow> C q y = Some e \<longrightarrow> d_MRID e = m \<longrightarrow>
     p = q \<and> x = y)"

lemma map2_marked:
  assumes "\<forall>c \<in> set cs. L k (sc_id c) = Some (sc_before c)" and "y \<in> sc_id ` set cs"
  shows "mark_all k n m cs A k y = Some ((the (L k y))\<lparr>lc_SupersededAt := Some n, lc_SupersededBy := m\<rparr>)"
  using assms
proof (induction cs arbitrary: A)
  case (Cons b bs)
  show ?case
  proof (cases "y \<in> sc_id ` set bs")
    case True
    with Cons.IH Cons.prems show ?thesis by simp
  next
    case False
    then have "y = sc_id b" using Cons.prems(2) by auto
    with False Cons.prems(1) show ?thesis by (simp add: mark_all_other upd2_apply marked_record_def)
  qed
qed simp

lemma candidate_stored:
  assumes "b \<in> set (candidates (L k) existing base n e)" and "set existing = ran (C k)" and "hrefs_ok C"
  shows "\<exists>d. C k (sc_id b) = Some d \<and> d_MRID d = sc_mrid b" and "L k (sc_id b) = Some (sc_before b)"
    and "supersedeEligible (sc_before b) n"
proof -
  from assms(1) obtain d where d: "d \<in> set existing" "candidate_of (L k) (functionSetKey base) n e d = Some b"
    by (auto simp: candidates_def in_map_filter)
  note b = candidate_of_Some [OF d(2)]
  from d(1) assms(2) obtain y where y: "C k y = Some d" by (auto simp: ran_def)
  with assms(3) b have "y = sc_id b" unfolding hrefs_ok_def by (metis option.inject)
  with y b show "\<exists>d. C k (sc_id b) = Some d \<and> d_MRID d = sc_mrid b" and "L k (sc_id b) = Some (sc_before b)"
    and "supersedeEligible (sc_before b) n" by auto
qed

lemma issued_views:
  assumes dev: "fs_devices t = fs_devices s" "fs_managers t = fs_managers s"
    and iss: "issued now grant fleet existing res (srv_controls s) (srv_lifecycles s) (srv_controls t) (srv_lifecycles t)"
    and ex: "set existing = ran (srv_controls s (Key (res_Scope res)))"
    and hrefs: "hrefs_ok (srv_controls s)" and sol: "\<forall>m \<in> set (res_Supersedes res). solo (srv_controls s) m"
    and p: "p_Supersedes p = res_Supersedes res" "Start (p_Window p) = Start (the (d_Interval (res_Control res)))"
    and d: "srv_controls s sc y = Some d" and wf: "\<And>w. d_Interval d = Some w \<Longrightarrow> wf_window w"
  shows "control_view t sc d = map_option (superseded_clip p) (control_view s sc d)"
proof -
  let ?C = "srv_controls s" and ?L = "srv_lifecycles s" and ?k = "Key (res_Scope res)" and ?x = "res_ID res"
  let ?n = "Start (p_Window p)" and ?m = "d_MRID (res_Control res)"
  define cands where "cands = candidates (?L ?k) existing (d_Base (res_Control res)) ?n (IntervalEnd (the (d_Interval (res_Control res))))"
  have new: "?C ?k ?x = None" "?L ?k ?x = None" and sup: "res_Supersedes res = map sc_mrid cands"
    using iss by (auto simp: issued_def Let_def cands_def p(2))
  obtain link where L': "srv_lifecycles t = mark_all ?k ?n ?m cands (upd2 ?L ?k ?x (Some link))"
    using iss by (auto simp: issued_def Let_def cands_def p(2))
  have cand: "(\<exists>d. ?C ?k (sc_id b) = Some d \<and> d_MRID d = sc_mrid b) \<and> ?L ?k (sc_id b) = Some (sc_before b) \<and>
      supersedeEligible (sc_before b) ?n" if "b \<in> set cands" for b
    using candidate_stored [OF _ ex hrefs, of b ?L "d_Base (res_Control res)" ?n] that unfolding cands_def by blast
  have id: "ControlID (d_Href d) = Some y" using hrefs d by (simp add: hrefs_ok_def)
  show ?thesis
  proof (cases "sc = ?k \<and> y \<in> sc_id ` set cands")
    case True
    then obtain b where b: "b \<in> set cands" "y = sc_id b" and k: "sc = ?k" by auto
    with cand [OF b(1)] d have mr: "d_MRID d = sc_mrid b" and lc: "?L sc y = Some (sc_before b)"
      and el: "supersedeEligible (sc_before b) ?n" by auto
    have "srv_lifecycles t sc y = Some ((sc_before b)\<lparr>lc_SupersededAt := Some ?n, lc_SupersededBy := ?m\<rparr>)"
      using map2_marked [of cands ?L ?k y ?n ?m "upd2 ?L ?k ?x (Some link)"] cand True lc by (simp add: L')
    note v = control_view_marked [OF dev id lc el this wf]
    have "c_MRID c \<in> set (p_Supersedes p)" if "control_view s sc d = Some c" for c
      using control_view_key [OF that] mr b(1) by (auto simp: p(1) sup)
    then show ?thesis using v by (cases "control_view s sc d") (auto simp: superseded_clip_def)
  next
    case False
    have "(sc, y) \<noteq> (?k, ?x)" using d new by auto
    then have "srv_lifecycles t sc y = ?L sc y"
      unfolding L' using False by (subst mark_all_other) (auto simp: upd2_apply)
    then have v: "control_view t sc d = control_view s sc d" by (rule control_view_at [OF dev id])
    have "d_MRID d \<notin> set (res_Supersedes res)"
    proof
      assume m: "d_MRID d \<in> set (res_Supersedes res)"
      then obtain b where b: "b \<in> set cands" "d_MRID d = sc_mrid b" by (auto simp: sup)
      with cand [OF b(1)] obtain d' where "?C ?k (sc_id b) = Some d'" "d_MRID d' = d_MRID d" by auto
      then have "sc = ?k \<and> y = sc_id b" using sol m d unfolding solo_def by blast
      with False b(1) show False by blast
    qed
    then have "superseded_clip p c = c" if "control_view s sc d = Some c" for c
      using control_view_key [OF that] by (simp add: superseded_clip_def p(1))
    then show ?thesis using v by (cases "control_view s sc d") auto
  qed
qed

lemma mset_insert_image:
  assumes "distinct xs" and "distinct ys" and "set ys = insert c (f ` set xs)" and "c \<notin> f ` set xs" and "inj_on f (set xs)"
  shows "mset ys = mset (map f xs) + {#c#}"
proof -
  have "mset ys = mset_set (insert c (f ` set xs))" using assms(2,3) by (metis mset_set_set)
  also have "\<dots> = mset_set (f ` set xs) + {#c#}" using assms(4) by simp
  also have "mset_set (f ` set xs) = image_mset f (mset_set (set xs))" using assms(5) by (simp add: image_mset_mset_set)
  finally show ?thesis using assms(1) by (simp add: mset_set_set)
qed

lemma stored_controls_issued:
  assumes inv: "fs_inv s" "fs_inv t" and dev: "fs_devices t = fs_devices s" "fs_managers t = fs_managers s"
    and iss: "issued now grant fleet existing res (srv_controls s) (srv_lifecycles s) (srv_controls t) (srv_lifecycles t)"
    and ex: "set existing = ran (srv_controls s (Key (res_Scope res)))"
    and hrefs: "hrefs_ok (srv_controls s)" and sol: "\<forall>m \<in> set (res_Supersedes res). solo (srv_controls s) m"
    and p: "p_Supersedes p = res_Supersedes res" "Start (p_Window p) = Start (the (d_Interval (res_Control res)))"
    and wf: "\<And>sc y d w. srv_controls s sc y = Some d \<Longrightarrow> d_Interval d = Some w \<Longrightarrow> wf_window w"
    and c: "control_view t (Key (res_Scope res)) (res_Control res) = Some c"
  shows "mset (stored_controls t) = mset (map (superseded_clip p) (stored_controls s)) + {#c#}"
    and "hrefs_ok (srv_controls t)"
proof -
  let ?k = "Key (res_Scope res)" and ?x = "res_ID res"
  have C': "srv_controls t = upd2 (srv_controls s) ?k ?x (Some (res_Control res))" and none: "srv_controls s ?k ?x = None"
    and x: "ControlID (d_Href (res_Control res)) = Some ?x"
    using iss ControlID_ControlHref segment_sortableID by (auto simp: issued_def Let_def)
  show h': "hrefs_ok (srv_controls t)" using hrefs x by (auto simp: hrefs_ok_def C' upd2_apply)
  note views = issued_views [OF dev iss ex hrefs sol p]
  have "c' \<in> set (stored_controls t) \<longleftrightarrow> c' = c \<or> c' \<in> superseded_clip p ` set (stored_controls s)" for c'
  proof -
    have "c' \<in> set (stored_controls t) \<longleftrightarrow> control_view t ?k (res_Control res) = Some c' \<or>
        (\<exists>sc y d. srv_controls s sc y = Some d \<and> control_view t sc d = Some c')"
      unfolding set_stored_controls [OF inv(2)] C' upd2_apply using none by (metis option.distinct(1) option.inject)
    also have "\<dots> \<longleftrightarrow> c' = c \<or> (\<exists>sc y d c0. srv_controls s sc y = Some d \<and> control_view s sc d = Some c0 \<and> c' = superseded_clip p c0)"
    proof -
      have "control_view t sc d = Some c' \<longleftrightarrow> (\<exists>c0. control_view s sc d = Some c0 \<and> c' = superseded_clip p c0)"
        if "srv_controls s sc y = Some d" for sc y d
        using views [OF that wf [OF that]] by (auto simp: map_option_eq_Some)
      then show ?thesis unfolding c option.inject by blast
    qed
    also have "\<dots> \<longleftrightarrow> c' = c \<or> c' \<in> superseded_clip p ` set (stored_controls s)"
      unfolding image_iff Bex_def set_stored_controls [OF inv(1)] by blast
    finally show ?thesis .
  qed
  then have setC: "set (stored_controls t) = insert c (superseded_clip p ` set (stored_controls s))" by blast
  have key: "\<exists>d. srv_controls s (c_Scope c0) (c_ID c0) = Some d \<and> control_view s (c_Scope c0) d = Some c0"
    if "c0 \<in> set (stored_controls s)" for c0
    using that hrefs control_view_key unfolding set_stored_controls [OF inv(1)] hrefs_ok_def by (metis option.inject)
  have keep: "c_Scope (superseded_clip p c0) = c_Scope c0" "c_ID (superseded_clip p c0) = c_ID c0" for c0
    by (simp_all add: superseded_clip_def)
  have "c_Scope c = ?k" "c_ID c = ?x" using control_view_key [OF c] x by simp_all
  then have "c \<notin> superseded_clip p ` set (stored_controls s)" using key none keep by (metis image_iff option.distinct(1))
  moreover have "inj_on (superseded_clip p) (set (stored_controls s))"
    using key keep by (intro inj_onI) (metis option.inject)
  ultimately show "mset (stored_controls t) = mset (map (superseded_clip p) (stored_controls s)) + {#c#}"
    using mset_insert_image [OF distinct_stored_controls [OF inv(1) hrefs] distinct_stored_controls [OF inv(2) h'] setC] by blast
qed

section \<open>Issuing inside a fleet\<close>

definition server_handler ::
    "(nat \<Rightarrow> nat \<Rightarrow> err + 8 word list) \<Rightarrow> Config \<Rightarrow> ('f CreateRequest \<Rightarrow> err + DERControlBase) \<Rightarrow>
     (fleet_server, 'f) AdminDERControlHandler" where
  "server_handler src cfg build =
     \<lparr>h_Issuer = server_issuer src cfg build, h_Fleets = Some fs_fleets, h_Ledger = Some NewCommitmentLedger,
      h_Lifecycles = Some (\<lambda>p x. on_lifecycles (L_Get p x))\<rparr>"

lemma issueInFleet_runs:
  assumes "issueInFleet (server_handler src cfg build) ctx now req s = (Inr res, t)"
  obtains fleet v where "fleet \<noteq> []" and "fleet \<in> set (locked v)"
    and "issue (server_issuer src cfg build) ctx now req
      \<lparr>f_Key = fleet, f_Reach = controlReach, f_Check = Some (checkIn NewCommitmentLedger v)\<rparr> s = (Inr res, t)"
proof -
  from assms obtain e y where e: "Program (r_DERProgramHref req) = Some (e, y)"
    by (auto simp: issueInFleet_def server_handler_def io_fail_def split: option.splits)
  obtain fleet where fl: "fs_fleets e s = (Inr fleet, s)"
    using assms e fs_fleets_reads [of e s]
    by (cases "fst (fs_fleets e s)") (auto simp: issueInFleet_def server_handler_def handler_fleetOf_def io_run split: prod.splits)
  let ?f = "\<lambda>v. \<lparr>f_Key = fleet, f_Reach = controlReach, f_Check = Some (checkIn NewCommitmentLedger v)\<rparr>"
  have "withinFleets (Some NewCommitmentLedger) ctx [fleet] (\<lambda>v. IssueInFleet (server_issuer src cfg build) ctx now req (?f v)) s = (Inr res, t)"
    using assms e fl by (simp add: issueInFleet_def server_handler_def handler_fleetOf_def io_run split: prod.splits)
  then have w: "within_ran NewCommitmentLedger ctx [fleet] (\<lambda>v. IssueInFleet (server_issuer src cfg build) ctx now req (?f v)) s = (Inr (Inr res), t)"
    by (auto simp: withinFleets_def io_try_def io_lift_def io_fail_def split: prod.splits sum.splits if_splits)
  let ?v = "\<lparr>locked = lock_order [fleet], v_done = False\<rparr>"
  from w have ne: "fleet \<noteq> []" and "IssueInFleet (server_issuer src cfg build) ctx now req (?f ?v) s = (Inr res, t)"
    by (auto simp: within_ran_def Within_locks_def Let_def lock_order_def split: if_splits option.splits prod.splits)
  then have "issue (server_issuer src cfg build) ctx now req (?f ?v) s = (Inr res, t)"
    by (auto simp: IssueInFleet_def io_fail_def split: if_splits)
  with ne show thesis by (intro that [of fleet ?v]) simp_all
qed

lemma check_fleet_reads:
  "check_reads \<lparr>f_Key = fleet, f_Reach = reach, f_Check = Some (checkIn NewCommitmentLedger v)\<rparr>"
  using readsD [OF reads_checkIn] by (auto simp: check_reads_def unchanged_def) metis+

lemma scopeEndDevice_Key: "wf_scope sc \<Longrightarrow> scopeEndDevice (Key sc) = Some (EndDeviceID sc)"
  by (auto simp: scopeEndDevice_def Key_def ScopeKey_def wf_scope_def segment_def split_on_append)

lemma srv_rest_fleet:
  assumes "srv_rest t = srv_rest (s :: fleet_server)"
  shows "fs_responses t = fs_responses s" "fs_responseLifecycles t = fs_responseLifecycles s"
    "fs_devices t = fs_devices s" "fs_managers t = fs_managers s"
  using assms by (cases s; cases t; simp add: srv_rest_def)+

lemma same_stores:
  assumes inv: "fs_inv s" and u: "srv_inv u" "srv_controls u = srv_controls s" "srv_lifecycles u = srv_lifecycles s"
    "srv_rest u = srv_rest s" and hrefs: "hrefs_ok (srv_controls s)"
  shows "fs_inv u" and "stored_grants u = stored_grants s" and "mset (stored_controls u) = mset (stored_controls s)"
proof -
  note r = srv_rest_fleet [OF u(4)]
  show inv': "fs_inv u" using inv u by (simp add: fs_inv_def r)
  show "stored_grants u = stored_grants s" using grant_view_cong [of u s] by (simp add: stored_grants_def r)
  have "control_view u = control_view s" by (intro control_view_cong r u)
  then have "set (stored_controls u) = set (stored_controls s)"
    using set_stored_controls [OF inv] set_stored_controls [OF inv'] by (auto simp: u(2))
  then show "mset (stored_controls u) = mset (stored_controls s)"
    using distinct_stored_controls [OF inv hrefs] distinct_stored_controls [OF inv'] hrefs
    by (simp add: set_eq_iff_mset_eq_distinct u(2))
qed

lemma issued_view:
  assumes iss: "issued now grant fleet existing res C (srv_lifecycles s) C' (srv_lifecycles t)"
    and sc: "wf_scope (res_Scope res)" and f: "f_Key fleet \<noteq> []" "f_Reach fleet = 1"
  shows "\<exists>c. control_view t (Key (res_Scope res)) (res_Control res) = Some c \<and>
    c_Window c = the (d_Interval (res_Control res)) \<and> c_GrantMRID c = grant \<and> c_FleetKey c = f_Key fleet \<and>
    c_TargetW c = TargetOf (d_Base (res_Control res)) \<and> c_Reach c = 1"
proof -
  let ?k = "Key (res_Scope res)" and ?x = "res_ID res" and ?L = "srv_lifecycles s"
  let ?n = "Start (the (d_Interval (res_Control res)))"
  let ?cands = "candidates (?L ?k) existing (d_Base (res_Control res)) ?n (IntervalEnd (the (d_Interval (res_Control res))))"
  let ?link = "zero_lifecycle\<lparr>lc_GrantMRID := grant, lc_FleetKey := f_Key fleet, lc_Reach := f_Reach fleet\<rparr>"
  have iv: "d_Interval (res_Control res) \<noteq> None" and none: "?L ?k ?x = None"
    and L': "srv_lifecycles t = mark_all ?k ?n (d_MRID (res_Control res)) ?cands (upd2 ?L ?k ?x (Some ?link))"
    and x: "ControlID (d_Href (res_Control res)) = Some ?x"
    using iss ControlID_ControlHref segment_sortableID by (auto simp: issued_def Let_def)
  have "?x \<notin> sc_id ` set ?cands" using candidates_before none by fastforce
  then have lc: "srv_lifecycles t ?k ?x = Some ?link" unfolding L' by (simp add: mark_all_other upd2_apply)
  show ?thesis using iv
    by (auto simp: control_view_def scopeEndDevice_Key [OF sc] x lc f controlOf_def zero_lifecycle_def)
qed

lemma issueInFleet_keeps_rule:
  assumes inv: "fs_inv s" and room: "\<And>p. card (dom (srv_controls s p)) + 1 < 2 ^ 32"
    and hold: "fleets_hold s" and wf: "commitments_wf s" and hrefs: "hrefs_ok (srv_controls s)"
    and ivs: "\<And>sc y d w. srv_controls s sc y = Some d \<Longrightarrow> d_Interval d = Some w \<Longrightarrow> wf_window w"
    and run: "issueInFleet (server_handler src cfg build) ctx now req s = (Inr res, t)"
    and wfw: "wf_window (the (d_Interval (res_Control res)))"
    and sol: "\<forall>m \<in> set (res_Supersedes res). solo (srv_controls s) m"
  shows "fleets_hold t" and "fs_inv t" and "hrefs_ok (srv_controls t)"
proof -
  from run obtain fleet v where ne: "fleet \<noteq> []"
    and iss: "issue (server_issuer src cfg build) ctx now req
      \<lparr>f_Key = fleet, f_Reach = controlReach, f_Check = Some (checkIn NewCommitmentLedger v)\<rparr> s = (Inr res, t)"
    by (rule issueInFleet_runs)
  let ?fl = "\<lparr>f_Key = fleet, f_Reach = controlReach, f_Check = Some (checkIn NewCommitmentLedger v)\<rparr>"
  let ?k = "Key (res_Scope res)" and ?iv = "the (d_Interval (res_Control res))"
  have si: "srv_inv s" using inv by (simp add: fs_inv_def)
  have fr: "sv.fleet_reads ?fl" using check_fleet_reads by (simp add: check_reads_def unchanged_def)
  have "card (dom (srv_controls s ?k)) < 2 ^ 32" using room [of ?k] by simp
  with sv.issue_law [OF si fr iss] obtain existing where ti: "srv_inv t" "srv_rest t = srv_rest s"
    and ex: "set existing = ran (srv_controls s ?k)"
    and isd: "issued now (r_ExecutesGrant req) ?fl existing res (srv_controls s) (srv_lifecycles s) (srv_controls t) (srv_lifecycles t)"
    by auto
  note r = srv_rest_fleet [OF ti(2)]
  have C': "srv_controls t = upd2 (srv_controls s) ?k (res_ID res) (Some (res_Control res))"
    using isd by (simp add: issued_def Let_def)
  have "card (dom (srv_controls t p)) < 2 ^ 32" for p
  proof -
    have sub: "dom (srv_controls t p) \<subseteq> insert (res_ID res) (dom (srv_controls s p))" by (auto simp: C' upd2_def)
    have fin: "finite (dom (srv_controls s p))"
      using wf_scoped_finite [OF fs_wf(2) [OF inv]] by (simp add: srv_controls_def pabs_def)
    have "card (dom (srv_controls t p)) \<le> card (insert (res_ID res) (dom (srv_controls s p)))"
      using sub fin by (intro card_mono) simp_all
    also have "\<dots> \<le> card (dom (srv_controls s p)) + 1" using fin by (simp add: card_insert_if)
    finally have "card (dom (srv_controls t p)) \<le> card (dom (srv_controls s p)) + 1" .
    with room [of p] show ?thesis by simp
  qed
  then show inv': "fs_inv t" using inv ti by (simp add: fs_inv_def r)
  from sv.issue_checked [OF si fr _ iss, of "checkIn NewCommitmentLedger v"] obtain u w where
      u: "srv_inv u" "srv_controls u = srv_controls s" "srv_lifecycles u = srv_lifecycles s" "srv_rest u = srv_rest s"
    and chk: "checkIn NewCommitmentLedger v \<lparr>q_Scope = res_Scope res, q_FleetKey = fleet, q_Window = ?iv,
      q_GrantMRID = r_ExecutesGrant req, q_TargetW = TargetOf (d_Base (res_Control res)), q_Reach = controlReach,
      q_Supersedes = res_Supersedes res\<rparr> u = (Inr (), w)" by auto
  define p where "p = \<lparr>p_FleetKey = fleet, p_Window = ?iv, p_GrantMRID = r_ExecutesGrant req,
    p_TargetW = TargetOf (d_Base (res_Control res)), p_Reach = controlReach, p_Supersedes = res_Supersedes res\<rparr>"
  have pass: "CheckControl NewCommitmentLedger v p u = (Inr (), w)"
    using chk by (simp add: checkIn_def proposal_of_def p_def)
  note U = same_stores [OF inv u hrefs]
  obtain c where c: "control_view t ?k (res_Control res) = Some c" "c_Window c = ?iv" "c_GrantMRID c = r_ExecutesGrant req"
      "c_FleetKey c = fleet" "c_TargetW c = TargetOf (d_Base (res_Control res))" "c_Reach c = 1"
    using issued_view [OF isd sv.issue_scope_wf [OF si fr iss]] ne by (auto simp: controlReach_def)
  note st = stored_controls_issued [OF inv inv' r(3,4) isd ex hrefs sol, of p, OF _ _ ivs c(1)]
  show "hrefs_ok (srv_controls t)" using st(2) by (simp add: p_def)
  have new: "mset (stored_controls t) = mset (map (superseded_clip p) (stored_controls u)) + {#c#}"
    using st(1) by (simp add: p_def U(3))
  have G: "stored_grants t = stored_grants u"
    using grant_view_cong [of t s] U(2) by (simp add: stored_grants_def r)
  have wfu: "wf_stores (stored_grants u) (stored_controls u)"
    using wf U by (simp add: commitments_wf_def wf_stores_mset [OF U(3)])
  show "fleets_hold t" unfolding fleets_hold_def
  proof
    fix f
    have rule: "fleet_rule (stored_grants u) (stored_controls u) f"
      using hold U by (simp add: fleets_hold_def fleet_rule_mset [OF U(3)])
    show "fleet_rule (stored_grants t) (stored_controls t) f"
    proof (cases "f = fleet")
      case True
      have pf: "p_FleetKey p = fleet" by (simp add: p_def)
      show ?thesis unfolding G True
        using fl.CheckControl_keeps_rule [OF U(1) rule [unfolded True, folded pf] wfu _ _ pass new] wfw c
        by (simp add: p_def controlReach_def)
    next
      case False
      show ?thesis unfolding G
        using fl.CheckControl_keeps_other [OF U(1) rule _ wfu _ _ pass new] False wfw c
        by (simp add: p_def controlReach_def)
    qed
  qed
qed

end
