(* ===== verification/FleetRule.thy ===== *)
theory FleetRule
  imports CommitLaws
begin

text \<open>
  The rule of the fleets as properties of the running server: what the flow reservation gate
  and the DER control handler commit keeps it, each shown on a sample server whose one device
  manages itself.
\<close>

section \<open>A sample server with its fleet\<close>

definition sample_fleet :: fleet_server where
  "sample_fleet =
     \<lparr>sv_programs = sv_programs sample_server, sv_controls = sv_controls sample_server,
      sv_lifecycles = sv_lifecycles sample_server, sv_entropy = 1,
      fs_responses = empty_pstore [] [], fs_responseLifecycles = empty_pstore [] [],
      fs_devices = sample_devices, fs_managers = NewEndDeviceManagementStore\<rparr>"

definition sample_response :: FlowReservationResponse where
  "sample_response =
     \<lparr>frp_Href = ''/edev/7/frp/3'', frp_MRID = ''F1'', frp_Subject = [], frp_CreationTime = 950,
      frp_Interval = Some \<lparr>Start = 9000, Duration = 600\<rparr>, frp_EnergyAvailable = None, frp_PowerAvailable = None\<rparr>"

lemma sample_fleet_stores:
  "srv_controls sample_fleet = srv_controls sample_server"
  "srv_lifecycles sample_fleet = srv_lifecycles sample_server"
  "pabs (fs_responses sample_fleet) = (\<lambda>_ _. None)"
  by (simp_all add: sample_fleet_def srv_controls_def srv_lifecycles_def pabs_def empty_pstore_def empty_lookup)

lemma sample_fleet_inv: "srv_inv sample_fleet" "healthy sample_fleet" "fs_inv sample_fleet"
proof -
  show s: "srv_inv sample_fleet" "healthy sample_fleet"
    using sample_inv by (simp_all add: srv_inv_def healthy_def sample_fleet_def)
  have "card (dom (srv_controls sample_fleet p)) < 2 ^ 32" for p
    unfolding sample_fleet_stores by (rule sample_dom)
  moreover have "pinv (fs_responses sample_fleet)" "pinv (fs_responseLifecycles sample_fleet)"
    by (simp_all add: sample_fleet_def empty_stores_inv)
  ultimately show "fs_inv sample_fleet" unfolding fs_inv_def using s by (simp add: sample_fleet_stores)
qed

lemma sample_fleet_of:
  assumes "fs_devices s = sample_devices" and "fs_managers s = NewEndDeviceManagementStore"
  shows "fs_fleets ''7'' s = (Inr ''AB'', s)"
proof -
  have "E_Get ''7'' sample_devices = (Inr (sample_device ''AB''), sample_devices)"
    by (simp add: E_Get_def Store_Get_def sample_devices_def)
  moreover have "map upper_char ''AB'' = ''AB''" by code_simp
  ultimately show ?thesis
    by (simp add: FleetOf_def ManagerOf_def fs_device_Get_def fs_managers_reader_def assms io_simps
        sample_device_def Let_def Mgmt_ManagerOf_def NewEndDeviceManagementStore_def err_is_def ToUpper_def)
qed

lemma no_member: "(\<And>x. x \<notin> set xs) \<Longrightarrow> xs = []"
  by (cases xs) auto

lemma sample_fleet_grants: "stored_grants sample_fleet = []"
  by (rule no_member) (simp add: set_stored_grants [OF sample_fleet_inv(3)] sample_fleet_stores)

lemma sample_fleet_controls:
  "c \<in> set (stored_controls sample_fleet) \<Longrightarrow> c_Window c = \<lparr>Start = 900, Duration = 3600\<rparr> \<and> c_GrantMRID c = [] \<and> wf_control c"
proof -
  assume "c \<in> set (stored_controls sample_fleet)"
  then obtain sc x d where d: "srv_controls sample_fleet sc x = Some d" and v: "control_view sample_fleet sc d = Some c"
    unfolding set_stored_controls [OF sample_fleet_inv(3)] by blast
  then have "sc = Key sample_scope" "d = sample_old"
    by (auto simp: sample_fleet_stores sample_controls upd2_apply split: if_splits)
  with v show ?thesis
    by (auto simp: control_view_def sample_fleet_stores sample_lifecycles upd2_apply sample_old_def sample_hrefs
        controlOf_def zero_lifecycle_def wf_control_def wf_window_def is_int64_def split: option.splits sum.splits if_splits)
qed

lemma sample_fleet_holds: "fleets_hold sample_fleet" "commitments_wf sample_fleet"
  using sample_fleet_controls
  by (simp_all add: fleets_hold_def commitments_wf_def fleet_rule_def live_grants_def wf_stores_def sample_fleet_grants)

lemma sample_fleet_hrefs: "hrefs_ok (srv_controls sample_fleet)"
  by (auto simp: hrefs_ok_def sample_fleet_stores sample_controls upd2_apply sample_old_def sample_hrefs split: if_splits)

text \<open>The same server before any control was stored.\<close>

definition sample_idle :: fleet_server where
  "sample_idle = sample_fleet\<lparr>sv_controls := NewDERControlStore [] [], sv_lifecycles := empty_pstore [] []\<rparr>"

lemma sample_idle_stores:
  "srv_controls sample_idle = (\<lambda>_ _. None)" "pabs (fs_responses sample_idle) = (\<lambda>_ _. None)"
  by (simp_all add: sample_idle_def sample_fleet_def srv_controls_def pabs_def NewDERControlStore_def empty_pstore_def empty_lookup)

lemma sample_idle_inv: "fs_inv sample_idle"
  unfolding fs_inv_def srv_inv_def sample_idle_stores
  by (simp add: sample_idle_def sample_fleet_def empty_stores_inv)

lemma sample_idle_empty: "stored_grants sample_idle = []" "stored_controls sample_idle = []"
  by (rule no_member, simp add: set_stored_grants [OF sample_idle_inv] set_stored_controls [OF sample_idle_inv] sample_idle_stores)+

lemma sample_idle_fleet: "fs_fleets ''7'' sample_idle = (Inr ''AB'', sample_idle)"
  by (rule sample_fleet_of) (simp_all add: sample_idle_def sample_fleet_def)

lemma empty_walks:
  "Scoped_Parents (inner (fs_responses s)) = [] \<Longrightarrow>
     GrantsInFleet (l_grants NewCommitmentLedger) f s = (Inr [], s)"
  "Scoped_Parents (inner (sv_lifecycles s)) = [] \<Longrightarrow>
     ControlsInFleet (l_controls NewCommitmentLedger) f s = (Inr [], s)"
  by (simp_all add: ledger_parts NewGrants_def NewControls_def Grants_all_def Controls_filter_def Controls_walk_def
      io_run fs_response_lister_def fs_lifecycle_walker_def on_lifecycles_def L_Parents_def io_return_def)

lemma empty_parents: "Scoped_Parents (inner (empty_pstore [] [])) = []"
  by (simp add: empty_pstore_def Scoped_Parents_def NewScopedStore_def)

lemma response_Create_inv:
  assumes inv: "fs_inv s" and room: "card (dom (pabs (fs_responses s) e)) + 1 < 2 ^ 32"
    and run: "response_Create e x frp s = (Inr u, t)"
  shows "fs_inv t"
proof -
  from run obtain p where p: "P_Create e x frp (fs_responses s) = (Inr u, p)" and t: "t = s\<lparr>fs_responses := p\<rparr>"
    by (auto simp: response_Create_def split: prod.splits)
  have pi: "pinv (fs_responses s)" and si: "srv_inv s" and rest: "pinv (fs_responseLifecycles s)"
    "\<And>q. card (dom (srv_controls s q)) < 2 ^ 32" "\<And>q. card (dom (pabs (fs_responses s) q)) < 2 ^ 32"
    using inv by (simp_all add: fs_inv_def)
  from ps.create_ok [OF pi p] have new: "pinv p" "pabs p = upd2 (pabs (fs_responses s)) e x (Some frp)" by simp_all
  have "card (dom (pabs p q)) < 2 ^ 32" for q
  proof (cases "q = e")
    case True
    have "finite (dom (pabs (fs_responses s) e))"
      using wf_scoped_finite [OF fs_wf(1) [OF inv]] by (simp add: pabs_def)
    moreover have "dom (pabs p e) = insert x (dom (pabs (fs_responses s) e))" by (auto simp: new upd2_def)
    ultimately show ?thesis using room True by (simp add: card_insert_if)
  next
    case False
    then have "pabs p q = pabs (fs_responses s) q" by (simp add: new upd2_def fun_eq_iff)
    then show ?thesis using rest(3) by simp
  qed
  then show ?thesis using si rest(1,2) new(1) by (simp add: fs_inv_def t srv_inv_def srv_controls_def)
qed

lemma gate_writes:
  assumes "LedgerGate_Grant (Some l) fleets ctx e w except write s = (Inr u, t)"
    and "reads (fleets e)" and "\<And>v f. reads (CheckGrant l v f w except)"
  shows "write s = (Inr u, t)"
  using assms readsD [OF assms(2)] readsD [OF assms(3)]
  by (fastforce simp: LedgerGate_Grant_def Within_locks_def Let_def io_bind_Inr split: if_splits option.splits)

section \<open>Properties\<close>

text \<open>
  C3: a grant let in by the gate. When the rule holds in every fleet (no two live grants
  overlap, no plain control overlaps a live grant, the executions of a grant fit it) and the
  gate stores a flow reservation response, the rule holds in every fleet afterwards.
\<close>

theorem gate_keeps_every_fleet:
  assumes "fs_inv s" and "fleets_hold s" and "commitments_wf s"
    and "LedgerGate_Grant (Some NewCommitmentLedger) fs_fleets ctx e (frp_Interval frp) []
      (response_Create e x frp) s = (Inr (), t)"
    and "\<And>w. frp_Interval frp = Some w \<Longrightarrow> wf_window w"
    and "\<forall>h \<in> set (stored_grants s). g_MRID h \<noteq> []"
    and "\<forall>c \<in> set (stored_controls s). c_GrantMRID c \<noteq> frp_MRID frp"
    and "card (dom (pabs (fs_responses s) e)) + 1 < 2 ^ 32"
  shows "fleets_hold t \<and> fs_inv t"
proof
  have "response_Create e x frp s = (Inr (), t)"
    using gate_writes [OF assms(4)] reads_fleets reads_CheckGrant by blast
  then show inv': "fs_inv t" using response_Create_inv assms(1,8) by blast
  show "fleets_hold t" by (rule gate_keeps_rule [OF assms(1-7) inv'])
qed

theorem gate_keeps_every_fleet_witness:
  "\<exists>t. LedgerGate_Grant (Some NewCommitmentLedger) fs_fleets (\<lambda>_. None) ''7'' (frp_Interval sample_response) []
      (response_Create ''7'' ''3'' sample_response) sample_idle = (Inr (), t) \<and> fleets_hold t \<and>
     (\<exists>g \<in> set (live_grants (stored_grants t) ''AB''). g_MRID g = ''F1'')"
proof -
  have "indexed (fs_responses sample_idle)" using sample_idle_inv by (simp add: fs_inv_def pinv_def)
  from P_Create_eq [OF this, of "''7''" "''3''" sample_response]
  obtain p where "P_Create ''7'' ''3'' sample_response (fs_responses sample_idle) = (Inr (), p)"
    by (auto simp: sample_idle_def sample_fleet_def empty_pstore_def empty_lookup)
  then obtain t where w: "response_Create ''7'' ''3'' sample_response sample_idle = (Inr (), t)"
    by (simp add: response_Create_def)
  have par: "Scoped_Parents (inner (fs_responses sample_idle)) = []" "Scoped_Parents (inner (sv_lifecycles sample_idle)) = []"
    by (simp_all add: sample_idle_def sample_fleet_def empty_parents)
  have "CheckGrant NewCommitmentLedger \<lparr>locked = [''AB''], v_done = False\<rparr> ''AB'' (frp_Interval sample_response) [] sample_idle
      = (Inr (), sample_idle)"
    by (simp add: CheckGrant_def guard_def io_run io_check_def io_try_def empty_walks(1) [OF par(1)] empty_walks(2) [OF par(2)]
        sample_response_def grant_decision_def io_return_def Live_def)
  then have run: "LedgerGate_Grant (Some NewCommitmentLedger) fs_fleets (\<lambda>_. None) ''7'' (frp_Interval sample_response) []
      (response_Create ''7'' ''3'' sample_response) sample_idle = (Inr (), t)"
    using w by (simp add: LedgerGate_Grant_def io_run sample_idle_fleet Within_locks_def lock_order_def Let_def)
  have "fleets_hold sample_idle" "commitments_wf sample_idle"
    by (simp_all add: fleets_hold_def commitments_wf_def fleet_rule_def live_grants_def wf_stores_def sample_idle_empty)
  from gate_keeps_every_fleet [OF sample_idle_inv this run]
  have t: "fleets_hold t" "fs_inv t"
    by (simp_all add: sample_idle_empty sample_idle_stores sample_response_def wf_window_def is_int64_def)
  have "fleet_in False sample_idle ''7'' = Inr ''AB''"
    by (simp add: fleet_in_def fleetOrGone_def io_try_def sample_idle_fleet io_return_def)
  moreover have "ResponseID ''7'' ''/edev/7/frp/3'' = Some ''3''" by code_simp
  moreover have "pabs (fs_responseLifecycles sample_idle) = (\<lambda>_ _. None)"
    by (simp add: sample_idle_def sample_fleet_def pabs_def empty_pstore_def empty_lookup)
  ultimately obtain g where g: "grant_view sample_idle ''7'' sample_response = Some g" "g_MRID g = ''F1''"
      "g_FleetKey g = ''AB''" "g_Window g = Some \<lparr>Start = 9000, Duration = 600\<rparr>" "g_CancelledAt g = None"
    by (simp add: grant_view_def grantFields_def sample_response_def)
  then have "g \<in> set (live_grants (stored_grants t) ''AB'')"
    using stored_grants_create(1) [OF sample_idle_inv w t(2)]
    by (simp add: live_grants_def in_fleet_def live_grant_def)
  with run t g(2) show ?thesis by blast
qed

text \<open>
  C2: a control issued in its fleet. When the rule holds in every fleet and the handler issues
  a control under the ledger, the rule holds in every fleet afterwards, with the new control
  counted and the controls it supersedes cut at its start. None of those may be a copy of a
  fan-out: the copies share an mRID, and only the one in the scope of the new control is marked.
\<close>

theorem issue_keeps_every_fleet:
  assumes "fs_inv s" and "\<And>p. card (dom (srv_controls s p)) + 1 < 2 ^ 32"
    and "fleets_hold s" and "commitments_wf s" and "hrefs_ok (srv_controls s)"
    and "\<And>sc y d w. srv_controls s sc y = Some d \<Longrightarrow> d_Interval d = Some w \<Longrightarrow> wf_window w"
    and "issueInFleet (server_handler src cfg build) ctx now req s = (Inr res, t)"
    and "wf_window (the (d_Interval (res_Control res)))"
    and "\<forall>m \<in> set (res_Supersedes res). solo (srv_controls s) m"
  shows "fleets_hold t \<and> fs_inv t \<and> hrefs_ok (srv_controls t)"
proof (intro conjI)
  note keep = issueInFleet_keeps_rule [OF assms(1-5) _ assms(7-9)]
  show "fleets_hold t" by (rule keep(1)) (erule (1) assms(6))
  show "fs_inv t" by (rule keep(2)) (erule (1) assms(6))
  show "hrefs_ok (srv_controls t)" by (rule keep(3)) (erule (1) assms(6))
qed

section \<open>A plain dispatch is served\<close>

lemma checkPlain_passes:
  assumes "fs_inv s" and "GrantsInFleet (l_grants NewCommitmentLedger) (p_FleetKey p) s = (Inr gs, s')"
    and "\<forall>g \<in> set (live_grants (stored_grants s) (p_FleetKey p)). \<not> grant_Overlaps g (p_Window p)"
  shows "checkPlain NewCommitmentLedger p s = (Inr (), s)"
proof (cases "Duration (p_Window p) = 0")
  case False
  have s: "s' = s" "gs = filter (in_fleet (p_FleetKey p)) (stored_grants s)"
    using fl.GrantsInFleet_law [OF assms(1,2)] by auto
  with assms(3) have "find (\<lambda>g. grant_Overlaps g (p_Window p)) (fst (Live gs [])) = None"
    by (simp add: fst_Live find_None_all)
  then show ?thesis using False assms(2) by (simp add: checkPlain_def io_run s(1) io_return_def)
qed (simp add: checkPlain_def io_return_def)

lemma plain_passes:
  assumes "fs_inv s" and "GrantsInFleet (l_grants NewCommitmentLedger) (q_FleetKey q) s = (Inr gs, s')"
    and "\<forall>g \<in> set (live_grants (stored_grants s) (q_FleetKey q)). \<not> grant_Overlaps g (q_Window q)"
    and "q_GrantMRID q = []"
  shows "checkIn NewCommitmentLedger \<lparr>locked = [q_FleetKey q], v_done = False\<rparr> q s = (Inr (), s)"
  using assms(4) checkPlain_passes [of s "proposal_of q", OF assms(1)] assms(2,3)
  by (simp add: checkIn_def CheckControl_def guard_def io_run io_check_def io_return_def proposal_of_def)

lemma minted_stores:
  assumes "fs_inv s" and "newMRID src pen s = (Inr m, s')"
  shows "fs_inv s'" and "stored_grants s' = stored_grants s"
proof -
  have "\<exists>n. s' = s\<lparr>sv_entropy := n\<rparr>" using assms(2) by (auto simp: newMRID_def split: prod.splits option.splits)
  then obtain n where n: "s' = s\<lparr>sv_entropy := n\<rparr>" ..
  show "fs_inv s'" using assms(1) by (simp add: n fs_inv_def srv_inv_def srv_controls_def)
  have "grant_view s' = grant_view s" by (rule grant_view_cong) (simp_all add: n)
  then show "stored_grants s' = stored_grants s" by (simp add: n stored_grants_def)
qed

lemma issueInFleet_plain_total:
  fixes build :: "'f CreateRequest \<Rightarrow> err + DERControlBase"
  assumes inv: "fs_inv s" and "healthy s" and ctx: "\<And>u. ctx u = None"
    and "r_ExecutesGrant req = []" and "StoredOrigin (r_Origin req) = Inr []"
    and "validate (server_issuer src cfg build :: (fleet_server, 'f) Issuer) req now = Inr base"
    and prog: "Program (r_DERProgramHref req) = Some (edev, fsa, derp)"
    and fleet: "fs_fleets edev s = (Inr f, s)" "f \<noteq> []"
    and "resolveScope (server_issuer src cfg build) edev derp s = (Inr scope, s)"
    and mint: "newMRID src (the (c_PEN cfg)) s = (Inr m, s')"
    and "\<And>q y d. srv_controls s q y = Some d \<Longrightarrow> d_MRID d \<noteq> m"
    and "\<And>existing. srv_lifecycles s (Key scope) (issue_id now req existing m) = None \<and>
        srv_controls s (Key scope) (issue_id now req existing m) = None"
    and grants: "GrantsInFleet (l_grants NewCommitmentLedger) f s' = (Inr gs, s')"
    and free: "\<And>existing g. set existing = ran (srv_controls s (Key scope)) \<Longrightarrow>
        g \<in> set (live_grants (stored_grants s) f) \<Longrightarrow>
        \<not> grant_Overlaps g (the (d_Interval (issue_control now req base scope existing m)))"
  shows "\<exists>res t existing. issueInFleet (server_handler src cfg build) ctx now req s = (Inr res, t) \<and>
    healthy t \<and> res_Scope res = scope \<and> set existing = ran (srv_controls s (Key scope)) \<and>
    res_Control res = issue_control now req base scope existing m"
proof -
  let ?i = "server_issuer src cfg build :: (fleet_server, 'f) Issuer"
  let ?v = "\<lparr>locked = [f], v_done = False\<rparr>"
  let ?f = "\<lparr>f_Key = f, f_Reach = controlReach, f_Check = Some (checkIn NewCommitmentLedger ?v)\<rparr>"
  have srv: "srv_inv s" and dom: "card (dom (srv_controls s (Key scope))) < 2 ^ 32" using inv by (simp_all add: fs_inv_def)
  have m: "i_newMRID ?i (the (c_PEN (i_cfg ?i))) s = (Inr m, s')" using mint by (simp add: server_issuer_def)
  have reads: "sv.fleet_reads ?f" using check_fleet_reads by (simp add: check_reads_def unchanged_def)
  note after = minted_stores [OF inv mint]
  have "\<exists>res t existing. issue ?i ctx now req ?f s = (Inr res, t) \<and> healthy t \<and> res_Scope res = scope \<and>
     (card (dom (srv_controls s (Key scope))) < 2 ^ 32 \<longrightarrow> set existing = ran (srv_controls s (Key scope))) \<and>
     res_Control res = issue_control now req base scope existing m"
  proof (rule svw.issue_total_checked [OF srv assms(2) reads ctx assms(5,6) prog
        assms(10) m assms(12,13)])
    fix chk existing and q :: IssueProposal
    assume q: "f_Check ?f = Some chk" "q_FleetKey q = f_Key ?f" "q_GrantMRID q = r_ExecutesGrant req"
      "q_Window q = the (d_Interval (issue_control now req base scope existing m))"
      "card (dom (srv_controls s (Key scope))) < 2 ^ 32 \<longrightarrow> set existing = ran (srv_controls s (Key scope))"
    have "\<forall>g \<in> set (live_grants (stored_grants s') (q_FleetKey q)). \<not> grant_Overlaps g (q_Window q)"
      using free [of existing] q dom by (simp add: after(2))
    from plain_passes [OF after(1) _ this] q grants assms(4) show "chk q s' = (Inr (), s')" by simp
  qed
  then obtain res t existing where iss: "issue ?i ctx now req ?f s = (Inr res, t)"
    and res: "healthy t" "res_Scope res = scope" "set existing = ran (srv_controls s (Key scope))"
      "res_Control res = issue_control now req base scope existing m"
    using dom by blast
  have "IssueInFleet ?i ctx now req ?f s = (Inr res, t)"
    using iss fleet(2) by (simp add: IssueInFleet_def bounded_fleet_def controlReach_def)
  then have "issueInFleet (server_handler src cfg build) ctx now req s = (Inr res, t)"
    using fleet by (simp add: issueInFleet_def server_handler_def prog handler_fleetOf_def io_run withinFleets_def
        within_ran_def Within_locks_def lock_order_def Let_def io_try_def io_lift_def ctx)
  with res show ?thesis by blast
qed

abbreviation sample_handler :: "(fleet_server, unit) AdminDERControlHandler" where
  "sample_handler \<equiv> server_handler sample_src sample_cfg sample_build"

abbreviation sample_fleet_issuer :: "(fleet_server, unit) Issuer" where
  "sample_fleet_issuer \<equiv> server_issuer sample_src sample_cfg sample_build"

lemma sample_fleet_reads:
  "fs_fleets ''7'' sample_fleet = (Inr ''AB'', sample_fleet)"
  "resolveScope sample_fleet_issuer ''7'' ''1'' sample_fleet = (Inr sample_scope, sample_fleet)"
  "validate sample_fleet_issuer (sample_request None 600) 1000 = Inr sample_base"
  "newMRID sample_src (the (c_PEN sample_cfg)) sample_fleet = (Inr sample_mrid, sample_fleet\<lparr>sv_entropy := 2\<rparr>)"
  "GrantsInFleet (l_grants NewCommitmentLedger) ''AB'' (sample_fleet\<lparr>sv_entropy := 2\<rparr>)
     = (Inr [], sample_fleet\<lparr>sv_entropy := 2\<rparr>)"
proof -
  show "fs_fleets ''7'' sample_fleet = (Inr ''AB'', sample_fleet)"
    by (rule sample_fleet_of) (simp_all add: sample_fleet_def)
  have "programs_Get sample_fleet_issuer ''7'' ''1'' sample_fleet
      = (Inr \<lparr>p_DERControlListLink = Some ''/edev/7/fsa/2/derp/1/derc''\<rparr>, sample_fleet)"
    using sample_program by (simp add: server_issuer_def on_programs_P_Get sample_fleet_def)
  then show "resolveScope sample_fleet_issuer ''7'' ''1'' sample_fleet = (Inr sample_scope, sample_fleet)"
    by (simp add: resolveScope_def loadProgram_def io_run sample_hrefs io_return_def sample_scope_def)
  show "validate sample_fleet_issuer (sample_request None 600) 1000 = Inr sample_base"
    by (simp add: validate_def server_issuer_def sample_request_def sample_hrefs sample_build_def sample_cfg_def
        withDefaults_def quo_def)
  have "draw (\<lambda>n k. (sample_src n k, Suc k)) 12 1 = Some (Inr (replicate 12 1), 2)"
    by (subst draw.simps) (simp add: sample_src_def IsAllFF_def list_all_iff)
  then show "newMRID sample_src (the (c_PEN sample_cfg)) sample_fleet = (Inr sample_mrid, sample_fleet\<lparr>sv_entropy := 2\<rparr>)"
    by (simp add: newMRID_def mrid_New_draw drawn_def sample_fleet_def sample_mrid_def sample_cfg_def withDefaults_def)
  show "GrantsInFleet (l_grants NewCommitmentLedger) ''AB'' (sample_fleet\<lparr>sv_entropy := 2\<rparr>)
     = (Inr [], sample_fleet\<lparr>sv_entropy := 2\<rparr>)"
    by (rule empty_walks(1)) (simp add: sample_fleet_def empty_parents)
qed

lemma sample_fleet_free:
  "srv_controls sample_fleet q y = Some d \<Longrightarrow> d_MRID d \<noteq> sample_mrid"
  "srv_lifecycles sample_fleet (Key sample_scope) (issue_id 1000 (sample_request None 600) existing sample_mrid) = None \<and>
   srv_controls sample_fleet (Key sample_scope) (issue_id 1000 (sample_request None 600) existing sample_mrid) = None"
  "live_grants (stored_grants sample_fleet) f = []" "r_ExecutesGrant (sample_request None 600) = []"
  using sample_mrid_new
  by (simp_all add: sample_fleet_stores sample_controls sample_lifecycles sample_new_id sample_fleet_grants live_grants_def
      sample_request_def)

lemma sample_fleet_issues:
  "\<exists>res t existing. issueInFleet sample_handler (\<lambda>_. None) 1000 (sample_request None 600) sample_fleet = (Inr res, t) \<and>
     set existing = {sample_old} \<and> res_Scope res = sample_scope \<and>
     res_Control res = issue_control 1000 (sample_request None 600) sample_base sample_scope existing sample_mrid"
proof -
  have "ran (srv_controls sample_fleet (Key sample_scope)) = {sample_old}"
    by (auto simp: sample_fleet_stores sample_controls ran_def upd2_apply)
  moreover have "\<exists>res t existing. issueInFleet sample_handler (\<lambda>_. None) 1000 (sample_request None 600) sample_fleet = (Inr res, t) \<and>
      healthy t \<and> res_Scope res = sample_scope \<and> set existing = ran (srv_controls sample_fleet (Key sample_scope)) \<and>
      res_Control res = issue_control 1000 (sample_request None 600) sample_base sample_scope existing sample_mrid"
    by (rule issueInFleet_plain_total [OF sample_fleet_inv(3,2) _ sample_fleet_free(4) sample_reads(3) sample_fleet_reads(3)
          sample_reads(2) sample_fleet_reads(1) _ sample_fleet_reads(2) sample_fleet_reads(4) _ _ sample_fleet_reads(5)])
      (use sample_fleet_free in auto)
  ultimately show ?thesis by auto
qed

text \<open>
  C24: a plain dispatch through the handler is served. Take a well-formed request for a program
  of a device whose fleet resolves, on a server none of whose writes fails and under a context
  that is never done. When the mRID drawn is not in use, the id built from it is free, the
  grants of the fleet can be read and no live one of them overlaps the interval asked for, the
  handler locks the fleet, the check of the ledger passes and a control is issued in the scope
  of the program, with the request's duration, start and description.
\<close>

theorem issueInFleet_serves_plain:
  fixes build :: "'f CreateRequest \<Rightarrow> err + DERControlBase"
  assumes "fs_inv s" and "healthy s" and "\<And>u. ctx u = None"
    and "r_ExecutesGrant req = []" and "StoredOrigin (r_Origin req) = Inr []"
    and "validate (server_issuer src cfg build :: (fleet_server, 'f) Issuer) req now = Inr base"
    and "Program (r_DERProgramHref req) = Some (edev, fsa, derp)"
    and "fs_fleets edev s = (Inr f, s)" and "f \<noteq> []"
    and "resolveScope (server_issuer src cfg build) edev derp s = (Inr scope, s)"
    and "newMRID src (the (c_PEN cfg)) s = (Inr m, s')"
    and "\<And>q y d. srv_controls s q y = Some d \<Longrightarrow> d_MRID d \<noteq> m"
    and "\<And>existing. srv_lifecycles s (Key scope) (issue_id now req existing m) = None \<and>
        srv_controls s (Key scope) (issue_id now req existing m) = None"
    and "GrantsInFleet (l_grants NewCommitmentLedger) f s' = (Inr gs, s')"
    and "\<And>existing g. set existing = ran (srv_controls s (Key scope)) \<Longrightarrow>
        g \<in> set (live_grants (stored_grants s) f) \<Longrightarrow>
        \<not> grant_Overlaps g (the (d_Interval (issue_control now req base scope existing m)))"
  shows "\<exists>res t existing. issueInFleet (server_handler src cfg build) ctx now req s = (Inr res, t) \<and>
    healthy t \<and> res_Scope res = scope \<and> set existing = ran (srv_controls s (Key scope)) \<and>
    res_Control res = issue_control now req base scope existing m"
  by (rule issueInFleet_plain_total [OF assms])

theorem issueInFleet_serves_plain_witness:
  "\<exists>res t. issueInFleet sample_handler (\<lambda>_. None) 1000 (sample_request None 600) sample_fleet = (Inr res, t) \<and>
     healthy t \<and> res_Scope res = sample_scope"
proof -
  have "\<exists>res t existing. issueInFleet sample_handler (\<lambda>_. None) 1000 (sample_request None 600) sample_fleet = (Inr res, t) \<and>
      healthy t \<and> res_Scope res = sample_scope \<and> set existing = ran (srv_controls sample_fleet (Key sample_scope)) \<and>
      res_Control res = issue_control 1000 (sample_request None 600) sample_base sample_scope existing sample_mrid"
    by (rule issueInFleet_serves_plain [OF sample_fleet_inv(3,2) _ sample_fleet_free(4) sample_reads(3) sample_fleet_reads(3)
          sample_reads(2) sample_fleet_reads(1) _ sample_fleet_reads(2) sample_fleet_reads(4) _ _ sample_fleet_reads(5)])
      (use sample_fleet_free in auto)
  then show ?thesis by blast
qed

theorem issue_keeps_every_fleet_witness:
  "\<exists>res t. issueInFleet sample_handler (\<lambda>_. None) 1000 (sample_request None 600) sample_fleet = (Inr res, t) \<and>
     fleets_hold t \<and> fs_inv t \<and> hrefs_ok (srv_controls t)"
proof -
  obtain res t existing where run: "issueInFleet sample_handler (\<lambda>_. None) 1000 (sample_request None 600) sample_fleet = (Inr res, t)"
    and ctl: "res_Control res = issue_control 1000 (sample_request None 600) sample_base sample_scope existing sample_mrid"
    and ex: "set existing = {sample_old}"
    using sample_fleet_issues by blast
  have one: "srv_controls sample_fleet sc y = Some d \<longleftrightarrow> sc = Key sample_scope \<and> y = ''9'' \<and> d = sample_old" for sc y d
    by (auto simp: sample_fleet_stores sample_controls upd2_apply)
  have fold: "foldl (\<lambda>t c. if t \<le> d_CreationTime c then wrap64 (d_CreationTime c + 1) else t) 1000 xs = 1000"
    if "set xs \<subseteq> {sample_old}" for xs
    using that by (induction xs) (auto simp: sample_old_def)
  have "d_Interval (res_Control res) = Some \<lparr>Start = 1000, Duration = 600\<rparr>"
    using fold [of existing] ex
    by (simp add: ctl issue_control_def newControl_def sample_request_def Let_def nextCreationTime_def)
  then have "wf_window (the (d_Interval (res_Control res)))" by (simp add: wf_window_def is_int64_def)
  moreover have "card (dom (srv_controls sample_fleet p)) + 1 < 2 ^ 32" for p
  proof -
    have "card (dom (srv_controls sample_fleet p)) \<le> card {''9''}" by (intro card_mono) (auto simp: one)
    then show ?thesis by simp
  qed
  moreover have "wf_window w" if "srv_controls sample_fleet sc y = Some d" "d_Interval d = Some w" for sc y d w
    using that by (auto simp: one sample_old_def wf_window_def is_int64_def)
  moreover have "solo (srv_controls sample_fleet) m" for m by (simp add: solo_def one)
  ultimately have "fleets_hold t \<and> fs_inv t \<and> hrefs_ok (srv_controls t)"
    by (intro issue_keeps_every_fleet [OF sample_fleet_inv(3) _ sample_fleet_holds sample_fleet_hrefs _ run]) auto
  with run show ?thesis by blast
qed

end
