(* ===== verification/OperationsLaws.thy ===== *)
theory OperationsLaws
  imports Operations
begin

text \<open>
  Revising a grant: the check of a revision against its executions, and the contract of its
  writes, stated once for any writers that keep the laws of \<open>ExecutionWriter\<close>, \<open>GrantWriter\<close> and
  \<open>Replacement\<close>.
\<close>

section \<open>The check of a revision\<close>

lemma fitsRevision_loop_None:
  "fitsRevision_loop nxt before cs = None \<longleftrightarrow>
     (\<forall>i < length cs. FitsGrant nxt (before @ take (Suc i) cs) None = None)"
proof (induction cs arbitrary: before)
  case (Cons c cs)
  show ?case using Cons.IH [of "before @ [c]"] by (simp add: All_less_Suc2 split: option.splits)
qed simp

text \<open>The first prefix that does not fit ends in the execution the refusal names.\<close>

lemma fitsRevision_loop_Some:
  assumes "fitsRevision_loop nxt before cs = Some e"
  shows "\<exists>i < length cs. (\<forall>k < i. FitsGrant nxt (before @ take (Suc k) cs) None = None) \<and>
    FitsGrant nxt (before @ take (Suc i) cs) None \<noteq> None \<and> (\<exists>code. e = ConflictError code (c_MRID (cs ! i)))"
  using assms
proof (induction cs arbitrary: before)
  case (Cons c cs)
  show ?case
  proof (cases "FitsGrant nxt (before @ [c]) None")
    case None
    with Cons.prems have "fitsRevision_loop nxt (before @ [c]) cs = Some e" by simp
    from Cons.IH [OF this] obtain i where i: "i < length cs"
      "\<forall>k < i. FitsGrant nxt ((before @ [c]) @ take (Suc k) cs) None = None"
      "FitsGrant nxt ((before @ [c]) @ take (Suc i) cs) None \<noteq> None" "\<exists>code. e = ConflictError code (c_MRID (cs ! i))"
      by blast
    with None show ?thesis by (intro exI [of _ "Suc i"]) (simp add: All_less_Suc2)
  next
    case (Some f)
    from FitsGrant_Some [OF this] obtain code m where "f = ConflictError code m" by blast
    with Cons.prems Some show ?thesis by (intro exI [of _ 0]) (auto simp: as_conflict_def)
  qed
qed simp

lemma FitsGrant_prefix:
  assumes "wf_grant nxt" and "\<forall>c \<in> set execs. wf_control c"
  shows "FitsGrant nxt (take i execs) None = None \<longleftrightarrow> fits_bounds nxt (take i execs)"
  using FitsGrant_None [OF assms(1), of "take i execs" None] assms(2) by (auto dest: in_set_takeD)

lemma fits_bounds_take:
  assumes "\<forall>c \<in> set execs. wf_control c" and "fits_bounds nxt execs"
  shows "fits_bounds nxt (take i execs)"
  using fits_bounds_append1 [of "take i execs" "drop i execs" nxt] assms by (simp add: wf_control_def)

lemma fitsRevision_None:
  assumes wf: "wf_grant nxt" "\<forall>c \<in> set execs. wf_control c"
  shows "fitsRevision nxt execs = None \<longleftrightarrow> fits_bounds nxt execs"
proof (cases "execs = []")
  case True
  with FitsGrant_prefix [OF wf, of 0] show ?thesis by (simp add: fitsRevision_def)
next
  case False
  then have n: "length execs - 1 < length execs" "Suc (length execs - 1) = length execs" by (cases execs; simp)+
  have "fitsRevision nxt execs = None \<longleftrightarrow> (\<forall>i < length execs. fits_bounds nxt (take (Suc i) execs))"
    using False by (simp add: fitsRevision_def fitsRevision_loop_None FitsGrant_prefix [OF wf])
  also have "\<dots> \<longleftrightarrow> fits_bounds nxt execs" using n fits_bounds_take [OF wf(2)] by (metis take_all_iff order_refl)
  finally show ?thesis .
qed

lemma fitsRevision_Some:
  assumes wf: "wf_grant nxt" "\<forall>c \<in> set execs. wf_control c" and "execs \<noteq> []" and "fitsRevision nxt execs = Some e"
  shows "\<exists>i < length execs. (\<forall>k. 0 < k \<longrightarrow> k \<le> i \<longrightarrow> fits_bounds nxt (take k execs)) \<and>
    \<not> fits_bounds nxt (take (Suc i) execs) \<and> (\<exists>code. e = ConflictError code (c_MRID (execs ! i)))"
proof -
  from assms(3,4) have "fitsRevision_loop nxt [] execs = Some e" by (simp add: fitsRevision_def)
  from fitsRevision_loop_Some [OF this] obtain i where i: "i < length execs"
    "\<forall>k < i. fits_bounds nxt (take (Suc k) execs)" "\<not> fits_bounds nxt (take (Suc i) execs)"
    "\<exists>code. e = ConflictError code (c_MRID (execs ! i))"
    by (auto simp: FitsGrant_prefix [OF wf])
  have "fits_bounds nxt (take k execs)" if "0 < k" "k \<le> i" for k
    using i(2) that by (cases k) auto
  with i(1,3,4) show ?thesis by blast
qed

section \<open>The writes of a revision\<close>

text \<open>
  What a revision sees of the stores: the grant each record names, whether the revision is
  stored, whether the old grant is marked cancelled, and the rest. A relink that fails may have
  written, unless its error says that nothing was written.
\<close>

locale revision_writers =
  fixes w :: "'s Writers" and rep :: "'s Replacement" and old :: grant
    and inv :: "'s \<Rightarrow> bool"
    and key_of :: "control \<Rightarrow> 'k"
    and links :: "'s \<Rightarrow> 'k \<Rightarrow> string option"
    and present :: "'s \<Rightarrow> bool" and marked :: "'s \<Rightarrow> bool" and others :: "'s \<Rightarrow> 'r"
  assumes relink_law: "inv s \<Longrightarrow> w_relink w c m s = (r, t) \<Longrightarrow>
      inv t \<and> present t = present s \<and> marked t = marked s \<and> others t = others s \<and>
      (case r of Inr _ \<Rightarrow> links t = (links s)(key_of c \<mapsto> m)
         | Inl e \<Rightarrow> links t = links s \<or> \<not> nothing_written e \<and> links t = (links s)(key_of c \<mapsto> m))"
    and create_law: "inv s \<Longrightarrow> rep_create rep s = (r, t) \<Longrightarrow>
      inv t \<and> links t = links s \<and> marked t = marked s \<and> others t = others s \<and>
      (case r of Inr _ \<Rightarrow> \<not> present s \<and> present t | Inl e \<Rightarrow> present t = present s)"
    and delete_law: "inv s \<Longrightarrow> rep_delete rep s = (r, t) \<Longrightarrow>
      inv t \<and> links t = links s \<and> marked t = marked s \<and> others t = others s \<and>
      (case r of Inr _ \<Rightarrow> \<not> present t | Inl e \<Rightarrow> present t = present s)"
    and mark_law: "inv s \<Longrightarrow> w_mark w old reason now s = (r, t) \<Longrightarrow>
      inv t \<and> links t = links s \<and> present t = present s \<and> others t = others s \<and>
      (case r of Inr _ \<Rightarrow> marked t | Inl e \<Rightarrow> marked t = marked s)"
begin

abbreviation new_mrid :: string where "new_mrid \<equiv> g_MRID (r_Grant rep)"

abbreviation relinked :: "control list \<Rightarrow> ('k \<Rightarrow> string option) \<Rightarrow> 'k \<Rightarrow> string option" where
  "relinked cs L k \<equiv> (if k \<in> key_of ` set cs then Some new_mrid else L k)"

lemma undo_relinks_law:
  assumes "inv s" and "undo_relinks w m cs s = (failed, t)"
  shows "inv t \<and> present t = present s \<and> marked t = marked s \<and> others t = others s \<and>
    (\<forall>k. links t k = links s k \<or> k \<in> key_of ` set cs \<and> links t k = Some m) \<and>
    (failed = [] \<longrightarrow> (\<forall>k. links t k = (if k \<in> key_of ` set cs then Some m else links s k)))"
  using assms
proof (induction cs arbitrary: s failed t)
  case (Cons c cs)
  obtain r u where u: "w_relink w c m s = (r, u)" by fastforce
  note law = relink_law [OF Cons.prems(1) u]
  have lk: "links u k = links s k \<or> k = key_of c \<and> links u k = Some m" for k
    using law by (cases r; cases "k = key_of c") auto
  show ?case
  proof (cases r)
    case (Inr x)
    with Cons.prems(2) u have "undo_relinks w m cs u = (failed, t)" by simp
    note more = Cons.IH [OF conjunct1 [OF law] this]
    have "links t k = links s k \<or> k \<in> key_of ` set (c # cs) \<and> links t k = Some m" for k
      using more lk [of k] by (metis image_insert insert_iff list.simps(15))
    moreover have "links t k = (if k \<in> key_of ` set (c # cs) then Some m else links s k)" if "failed = []" for k
      using more law Inr that by simp
    ultimately show ?thesis using more law by auto
  next
    case (Inl e)
    obtain fs where rest: "undo_relinks w m cs u = (fs, t)" and "failed = Errorf ''relinking back'' [unmarked e] # fs"
      using Cons.prems(2) u Inl by (auto split: prod.splits)
    then have "failed \<noteq> []" by simp
    moreover note more = Cons.IH [OF conjunct1 [OF law] rest]
    moreover have "links t k = links s k \<or> k \<in> key_of ` set (c # cs) \<and> links t k = Some m" for k
      using more lk [of k] by (metis image_insert insert_iff list.simps(15))
    ultimately show ?thesis using law by auto
  qed
qed simp

text \<open>
  How a failed revision leaves the stores: as they were, or with an undo error and every
  execution on the old grant or on a revision that is stored.
\<close>

definition revision_undone :: "'s \<Rightarrow> control list \<Rightarrow> err \<Rightarrow> 's \<Rightarrow> bool" where
  "revision_undone s execs e t \<longleftrightarrow> inv t \<and> marked t = marked s \<and> others t = others s \<and>
     (links t = links s \<and> present t = present s \<or>
      err_is e ErrUndo \<and>
      (\<forall>k. links t k = links s k \<or> k \<in> key_of ` set execs \<and> links t k = Some new_mrid \<and> present t))"

lemma undo_revise_law:
  assumes inv: "inv s" and pr: "present s" "\<not> present s0" and rest: "marked s = marked s0" "others s = others s0"
    and on_old: "\<forall>c \<in> set touched. links s0 (key_of c) = Some (g_MRID old)"
    and lk: "\<forall>k. links s k = links s0 k \<or> k \<in> key_of ` set touched \<and> links s k = Some new_mrid"
    and sub: "set touched \<subseteq> set execs"
    and run: "undo_revise w old rep touched cause s = (r, t)"
  shows "\<exists>e. r = Inl e \<and> revision_undone s0 execs e t"
proof -
  obtain failed u where u: "undo_relinks w (g_MRID old) (rev touched) s = (failed, u)" by fastforce
  note law = undo_relinks_law [OF inv u]
  show ?thesis
  proof (cases "failed = []")
    case False
    have lk': "links u k = links s0 k \<or> k \<in> key_of ` set execs \<and> links u k = Some new_mrid" for k
    proof (cases "links u k = links s k")
      case False
      then have "k \<in> key_of ` set touched" "links u k = Some (g_MRID old)" using law by (metis set_rev)+
      then show ?thesis using on_old by auto
    next
      case True
      then show ?thesis using lk [rule_format, of k] sub by auto
    qed
    from False run u have "r = Inl (Errorf ''undo'' [ErrUndo, cause, Errorf ''join'' failed])" "t = u"
      by (simp_all add: undo_revise_def)
    with lk' law pr rest show ?thesis by (auto simp: revision_undone_def err_is_def)
  next
    case True
    have undone: "links u = links s0"
    proof
      fix k
      have "links u k = (if k \<in> key_of ` set touched then Some (g_MRID old) else links s k)"
        using law True by simp
      then show "links u k = links s0 k" using lk on_old by (cases "k \<in> key_of ` set touched") auto
    qed
    obtain rd v where v: "rep_delete rep u = (rd, v)" by fastforce
    note del = delete_law [OF conjunct1 [OF law] v]
    from True run u v have "case rd of Inl e \<Rightarrow> r = Inl (Errorf ''undo'' [ErrUndo, cause, Errorf ''join'' [Errorf ''deleting revision'' [e]]])
        | Inr _ \<Rightarrow> r = Inl cause" "t = v"
      by (auto simp: undo_revise_def split: sum.splits)
    with del law undone pr rest show ?thesis
      by (cases rd) (auto simp: revision_undone_def err_is_def)
  qed
qed

lemma relink_loop_law:
  assumes "inv s" and pr: "present s" "\<not> present s0" and rest: "marked s = marked s0" "others s = others s0"
    and on_old: "\<forall>c \<in> set (touched @ cs). links s0 (key_of c) = Some (g_MRID old)"
    and "\<forall>k. links s k = relinked touched (links s0) k"
    and "set (touched @ cs) \<subseteq> set execs"
    and "relink_loop w old rep touched cs s = (r, t)"
  shows "case r of
      Inr ts \<Rightarrow> ts = touched @ cs \<and> inv t \<and> present t \<and> marked t = marked s0 \<and> others t = others s0 \<and>
        (\<forall>k. links t k = relinked (touched @ cs) (links s0) k)
    | Inl e \<Rightarrow> revision_undone s0 execs e t"
  using assms
proof (induction cs arbitrary: s touched)
  case (Cons c cs)
  obtain rl u where u: "w_relink w c new_mrid s = (rl, u)" by fastforce
  note law = relink_law [OF Cons.prems(1) u]
  show ?case
  proof (cases rl)
    case (Inr x)
    with Cons.prems(9) u have run: "relink_loop w old rep (touched @ [c]) cs u = (r, t)" by simp
    have "\<forall>k. links u k = relinked (touched @ [c]) (links s0) k" using law Inr Cons.prems(7) by simp
    from Cons.IH [OF _ _ pr(2) _ _ _ this _ run] law Cons.prems show ?thesis by (cases r) auto
  next
    case (Inl e)
    let ?ts = "if nothing_written e then touched else touched @ [c]"
    obtain ru v where v: "undo_revise w old rep ?ts (Errorf ''commitment: relinking execution'' [unmarked e]) u = (ru, v)"
      by fastforce
    have lk: "\<forall>k. links u k = links s0 k \<or> k \<in> key_of ` set ?ts \<and> links u k = Some new_mrid"
      using law Inl Cons.prems(7) by (auto split: if_splits)
    have "\<exists>f. ru = Inl f \<and> revision_undone s0 execs f v"
      by (rule undo_revise_law [OF conjunct1 [OF law] _ pr(2) _ _ _ lk _ v]) (use law Cons.prems in auto)
    then show ?thesis using Cons.prems(9) u v Inl by auto
  qed
qed auto

lemma reviseWrites_law:
  assumes "inv s" and on_old: "\<forall>c \<in> set execs. links s (key_of c) = Some (g_MRID old)"
    and run: "reviseWrites w old rep execs reason now s = (r, t)"
  shows "case r of
      Inr _ \<Rightarrow> inv t \<and> \<not> present s \<and> present t \<and> marked t \<and> others t = others s \<and>
        (\<forall>k. links t k = relinked execs (links s) k)
    | Inl e \<Rightarrow> revision_undone s execs e t"
proof -
  obtain rc u where u: "rep_create rep s = (rc, u)" by fastforce
  note cr = create_law [OF assms(1) u]
  show ?thesis
  proof (cases rc)
    case (Inl e)
    with run u cr show ?thesis by (auto simp: reviseWrites_def io_run revision_undone_def)
  next
    case (Inr x)
    obtain rl v where v: "relink_loop w old rep [] execs u = (rl, v)" by fastforce
    have "case rl of Inr ts \<Rightarrow> ts = [] @ execs \<and> inv v \<and> present v \<and> marked v = marked s \<and> others v = others s \<and>
        (\<forall>k. links v k = relinked ([] @ execs) (links s) k) | Inl e \<Rightarrow> revision_undone s execs e v"
      by (rule relink_loop_law [OF _ _ _ _ _ _ _ _ v]) (use cr Inr on_old in auto)
    note rl = this
    show ?thesis
    proof (cases rl)
      case err: (Inl e)
      with run u v Inr rl show ?thesis by (auto simp: reviseWrites_def io_run)
    next
      case ts: (Inr ts)
      with rl have st: "ts = execs" "inv v" "present v" "marked v = marked s" "others v = others s"
        "\<forall>k. links v k = relinked execs (links s) k" by simp_all
      obtain rm m where m: "w_mark w old reason now v = (rm, m)" by fastforce
      note mk = mark_law [OF st(2) m]
      show ?thesis
      proof (cases rm)
        case ok: (Inr y)
        with run u v Inr ts m mk st cr show ?thesis by (auto simp: reviseWrites_def io_run io_try_def io_return_def)
      next
        case bad: (Inl e)
        have un: "undo_revise w old rep execs (Errorf ''commitment: marking grant cancelled'' [e]) m = (r, t)"
          using run u v Inr ts m bad st(1) by (simp add: reviseWrites_def io_run io_try_def)
        have "\<exists>f. r = Inl f \<and> revision_undone s execs f t"
          by (rule undo_revise_law [OF _ _ _ _ _ on_old _ _ un]) (use mk st cr Inr bad in auto)
        then show ?thesis by auto
      qed
    qed
  qed
qed

end

end
