(* ===== verification/Revisions.thy ===== *)
theory Revisions
  imports FleetRule OperationsLaws
begin

text \<open>
  Revising a grant on the server's stores: the writers of \<open>sources.NewWriters\<close> and the
  replacement of \<open>sources.NewReplacement\<close> keep the laws a revision relies on, so its writes take
  effect whole or are undone.
\<close>

section \<open>The writers on the server\<close>

definition on_responseLifecycles ::
    "(err, LifecycleRecord pstore, 'b) io \<Rightarrow> (err, fleet_server, 'b) io" where
  "on_responseLifecycles m s =
     (case m (fs_responseLifecycles s) of (r, p) \<Rightarrow> (r, s\<lparr>fs_responseLifecycles := p\<rparr>))"

definition fs_lifecycle_writer :: "fleet_server lifecycleWriter" where
  "fs_lifecycle_writer =
     \<lparr>ww_Get = (\<lambda>p x. on_responseLifecycles (L_Get p x)),
      ww_Create = (\<lambda>p x lc. on_responseLifecycles (L_Create p x lc)),
      ww_Update = (\<lambda>p x lc. on_responseLifecycles (L_Update p x lc))\<rparr>"

definition response_Delete :: "string \<Rightarrow> string \<Rightarrow> (err, fleet_server, unit) io" where
  "response_Delete e x s = (case P_Delete e x (fs_responses s) of (r, p) \<Rightarrow> (r, s\<lparr>fs_responses := p\<rparr>))"

definition server_writers ::
    "(nat \<Rightarrow> nat \<Rightarrow> err + 8 word list) \<Rightarrow> Config \<Rightarrow> ('f CreateRequest \<Rightarrow> err + DERControlBase) \<Rightarrow>
     fleet_server ctx \<Rightarrow> int \<Rightarrow> fleet_server Writers" where
  "server_writers src cfg build ctx clock = NewWriters (server_issuer src cfg build) ctx clock fs_lifecycle_writer"

definition replacement_of :: "string \<Rightarrow> FlowReservationResponse \<Rightarrow> grant \<Rightarrow> fleet_server Replacement" where
  "replacement_of e frp g =
     \<lparr>r_Grant = g,
      r_Create = Some (io_map_err
        (\<lambda>er. if err_is er ErrAlreadyExists then RevisionStoredError e (g_ID g) else er)
        (response_Create e (g_ID g) frp)),
      r_Delete = Some (response_Delete e (g_ID g))\<rparr>"

lemma r_Grant_replacement [simp]: "r_Grant (replacement_of e frp g) = g"
  by (simp add: replacement_of_def)

lemma NewReplacement_eq:
  "NewReplacement response_Create response_Delete e frp =
     (case grantFields e frp of Inl er \<Rightarrow> Inl er | Inr g \<Rightarrow> Inr (replacement_of e frp g))"
  by (simp add: NewReplacement_def replacement_of_def split: sum.splits)

section \<open>What a revision sees\<close>

definition stores_ok :: "fleet_server \<Rightarrow> bool" where
  "stores_ok s \<longleftrightarrow> srv_inv s \<and> pinv (fs_responses s) \<and> pinv (fs_responseLifecycles s)"

definition exec_at :: "control \<Rightarrow> string \<times> string" where
  "exec_at c = (c_Scope c, c_ID c)"

definition exec_links :: "fleet_server \<Rightarrow> string \<times> string \<Rightarrow> string option" where
  "exec_links s = (\<lambda>(sc, x). map_option lc_GrantMRID (srv_lifecycles s sc x))"

definition response_stored :: "string \<Rightarrow> string \<Rightarrow> fleet_server \<Rightarrow> bool" where
  "response_stored e x s \<longleftrightarrow> pabs (fs_responses s) e x \<noteq> None"

definition cancel_marked :: "grant \<Rightarrow> fleet_server \<Rightarrow> bool" where
  "cancel_marked g s \<longleftrightarrow>
     (\<exists>lc. pabs (fs_responseLifecycles s) (g_EndDeviceID g) (g_ID g) = Some lc \<and> lc_CancelledAt lc \<noteq> None)"

text \<open>Everything else: the controls, the other fields of their records, the other responses and marks, the devices.\<close>

definition unlinked_lifecycles :: "fleet_server \<Rightarrow> LifecycleRecord map2" where
  "unlinked_lifecycles s = (\<lambda>sc x. map_option (\<lambda>lc. lc\<lparr>lc_GrantMRID := []\<rparr>) (srv_lifecycles s sc x))"

definition beside ::
    "string \<Rightarrow> string \<Rightarrow> grant \<Rightarrow> fleet_server \<Rightarrow>
     DERControl map2 \<times> LifecycleRecord map2 \<times> FlowReservationResponse map2 \<times> LifecycleRecord map2 \<times> edev_store \<times> mgmt_store" where
  "beside e x old s =
     (srv_controls s, unlinked_lifecycles s, upd2 (pabs (fs_responses s)) e x None,
      upd2 (pabs (fs_responseLifecycles s)) (g_EndDeviceID old) (g_ID old) None, fs_devices s, fs_managers s)"

lemma controlScope_Key: "controlScope c = Inr sc \<Longrightarrow> Key sc = c_Scope c"
proof -
  assume "controlScope c = Inr sc"
  then obtain p q r where p: "split_on CHR ''/'' (c_Scope c) = [p, q, r]"
    and sc: "sc = \<lparr>EndDeviceID = p, FSAID = q, DERProgramID = r\<rparr>"
    by (auto simp: controlScope_def split: list.splits if_splits)
  then show ?thesis using join_split_on [of "CHR ''/''" "c_Scope c"] by (simp add: p Key_def ScopeKey_def)
qed

lemma server_relink:
  assumes inv: "stores_ok s" and run: "w_relink (server_writers src cfg build ctx clock) c m s = (r, t)"
  shows "stores_ok t \<and> fs_responses t = fs_responses s \<and> fs_responseLifecycles t = fs_responseLifecycles s \<and>
    beside e x old t = beside e x old s \<and>
    (case r of Inr _ \<Rightarrow> exec_links t = (exec_links s)(exec_at c \<mapsto> m) | Inl _ \<Rightarrow> exec_links t = exec_links s)"
proof (cases "controlScope c")
  case (Inl er)
  with run inv show ?thesis by (auto simp: w_relink_def server_writers_def NewWriters_def)
next
  case (Inr sc)
  note k = controlScope_Key [OF Inr]
  obtain lc eo u where u: "Relink (server_issuer src cfg build) ctx sc (c_ID c) m s = ((lc, eo), u)" by (metis prod.exhaust)
  have t: "t = u" "r = (case eo of None \<Rightarrow> Inr () | Some er \<Rightarrow> Inl (relink_failed er))"
    using run u Inr by (auto simp: w_relink_def server_writers_def NewWriters_def split: option.splits)
  have si: "srv_inv s" using inv by (simp add: stores_ok_def)
  note law = sv.Relink_law [OF si u, unfolded k]
  note f = srv_rest_fleet [OF conjunct1 [OF conjunct2 [OF conjunct2 [OF law]]]]
  have ok: "stores_ok u" using inv law f by (simp add: stores_ok_def)
  consider (same) "eo \<noteq> None" "srv_lifecycles u = srv_lifecycles s"
    | (moved) before where "eo = None" "srv_lifecycles s (c_Scope c) (c_ID c) = Some before"
        "srv_lifecycles u = upd2 (srv_lifecycles s) (c_Scope c) (c_ID c) (Some (before\<lparr>lc_GrantMRID := m\<rparr>))"
    using law by (auto split: option.splits if_splits)
  then show ?thesis
  proof cases
    case same
    then have "exec_links u = exec_links s" "unlinked_lifecycles u = unlinked_lifecycles s"
      by (simp_all add: exec_links_def unlinked_lifecycles_def)
    with same ok f law show ?thesis by (auto simp: t beside_def)
  next
    case moved
    then have "exec_links u = (exec_links s)(exec_at c \<mapsto> m)" "unlinked_lifecycles u = unlinked_lifecycles s"
      by (auto simp: exec_links_def unlinked_lifecycles_def exec_at_def upd2_def fun_eq_iff)
    with moved ok f law show ?thesis by (simp add: t beside_def)
  qed
qed

lemma server_create:
  assumes inv: "stores_ok s" and run: "rep_create (replacement_of e frp g) s = (r, t)"
  shows "stores_ok t \<and> exec_links t = exec_links s \<and> cancel_marked old t = cancel_marked old s \<and>
    beside e (g_ID g) old t = beside e (g_ID g) old s \<and>
    (case r of Inr _ \<Rightarrow> \<not> response_stored e (g_ID g) s \<and> response_stored e (g_ID g) t
       | Inl _ \<Rightarrow> response_stored e (g_ID g) t = response_stored e (g_ID g) s)"
proof -
  obtain q p where p: "P_Create e (g_ID g) frp (fs_responses s) = (q, p)" by fastforce
  have t: "t = s\<lparr>fs_responses := p\<rparr>" and q: "isl r = isl q"
    using run p by (auto simp: rep_create_def replacement_of_def response_Create_def io_map_err_def split: sum.splits)
  have pi: "pinv (fs_responses s)" using inv by (simp add: stores_ok_def)
  note law = ps.create_law [OF pi p]
  have "srv_lifecycles t = srv_lifecycles s" "srv_controls t = srv_controls s" by (simp_all add: t srv_lifecycles_def srv_controls_def)
  moreover have "stores_ok t" using inv law by (simp add: stores_ok_def t srv_inv_def)
  moreover have "upd2 (pabs p) e (g_ID g) None = upd2 (pabs (fs_responses s)) e (g_ID g) None"
    using law by (cases q) auto
  ultimately show ?thesis using law q
    by (cases q; cases r) (auto simp: t exec_links_def cancel_marked_def beside_def unlinked_lifecycles_def response_stored_def upd2_apply)
qed

lemma server_delete:
  assumes inv: "stores_ok s" and run: "rep_delete (replacement_of e frp g) s = (r, t)"
  shows "stores_ok t \<and> exec_links t = exec_links s \<and> cancel_marked old t = cancel_marked old s \<and>
    beside e (g_ID g) old t = beside e (g_ID g) old s \<and>
    (case r of Inr _ \<Rightarrow> \<not> response_stored e (g_ID g) t
       | Inl _ \<Rightarrow> response_stored e (g_ID g) t = response_stored e (g_ID g) s)"
proof -
  obtain p where p: "P_Delete e (g_ID g) (fs_responses s) = (r, p)" and t: "t = s\<lparr>fs_responses := p\<rparr>"
    using run by (auto simp: rep_delete_def replacement_of_def response_Delete_def split: prod.splits)
  have pi: "pinv (fs_responses s)" using inv by (simp add: stores_ok_def)
  note law = ps.delete_law [OF pi p]
  have "srv_lifecycles t = srv_lifecycles s" "srv_controls t = srv_controls s" by (simp_all add: t srv_lifecycles_def srv_controls_def)
  moreover have "stores_ok t" using inv law by (simp add: stores_ok_def t srv_inv_def)
  moreover have "upd2 (pabs p) e (g_ID g) None = upd2 (pabs (fs_responses s)) e (g_ID g) None"
    using law by (cases r) auto
  ultimately show ?thesis using law
    by (cases r) (auto simp: t exec_links_def cancel_marked_def beside_def unlinked_lifecycles_def response_stored_def upd2_apply)
qed

lemma server_mark:
  assumes inv: "stores_ok s" and run: "w_mark (server_writers src cfg build ctx clock) old reason now s = (r, t)"
  shows "stores_ok t \<and> exec_links t = exec_links s \<and> response_stored e x t = response_stored e x s \<and>
    beside e x old t = beside e x old s \<and>
    (case r of Inr _ \<Rightarrow> cancel_marked old t | Inl _ \<Rightarrow> cancel_marked old t = cancel_marked old s)"
proof -
  let ?p = "g_EndDeviceID old" and ?i = "g_ID old" and ?L = "fs_responseLifecycles s"
  have run': "sources_MarkCancelled fs_lifecycle_writer old reason now s = (r, t)"
    using run by (simp add: w_mark_def server_writers_def NewWriters_def)
  have pi: "pinv ?L" using inv by (simp add: stores_ok_def)
  have get: "on_responseLifecycles (L_Get ?p ?i) s = (case pabs ?L ?p ?i of None \<Rightarrow> Inl ErrNotFound | Some v \<Rightarrow> Inr v, s)"
    using ls.get_law [OF pi] by (simp add: on_responseLifecycles_def)
  have "\<exists>p. t = s\<lparr>fs_responseLifecycles := p\<rparr> \<and> pinv p \<and>
      (case r of Inr _ \<Rightarrow> \<exists>lc. pabs p = upd2 (pabs ?L) ?p ?i (Some lc) \<and> lc_CancelledAt lc \<noteq> None
         | Inl _ \<Rightarrow> pabs p = pabs ?L)"
  proof (cases "?p = [] \<or> ?i = []")
    case True
    with run' pi show ?thesis by (intro exI [of _ ?L]) (auto simp: sources_MarkCancelled_def io_fail_def)
  next
    case named: False
    show ?thesis
    proof (cases "pabs ?L ?p ?i")
      case None
      then have "on_responseLifecycles (L_Create ?p ?i (zero_lifecycle\<lparr>lc_CancelledAt := Some now, lc_CancelReason := reason\<rparr>)) s = (r, t)"
        using run' named get by (simp add: sources_MarkCancelled_def fs_lifecycle_writer_def io_try_def)
      then obtain p where "L_Create ?p ?i (zero_lifecycle\<lparr>lc_CancelledAt := Some now, lc_CancelReason := reason\<rparr>) ?L = (r, p)"
        and "t = s\<lparr>fs_responseLifecycles := p\<rparr>"
        by (auto simp: on_responseLifecycles_def split: prod.splits)
      then show ?thesis using ls.create_law [OF pi, of ?p ?i _ r p] by (intro exI [of _ p]) (auto split: sum.splits)
    next
      case (Some lc)
      show ?thesis
      proof (cases "lc_CancelledAt lc")
        case None
        then have "on_responseLifecycles (L_Update ?p ?i (lc\<lparr>lc_CancelledAt := Some now, lc_CancelReason := reason\<rparr>)) s = (r, t)"
          using run' named get Some by (simp add: sources_MarkCancelled_def fs_lifecycle_writer_def io_try_def)
        then obtain p where "L_Update ?p ?i (lc\<lparr>lc_CancelledAt := Some now, lc_CancelReason := reason\<rparr>) ?L = (r, p)"
          and "t = s\<lparr>fs_responseLifecycles := p\<rparr>"
          by (auto simp: on_responseLifecycles_def split: prod.splits)
        then show ?thesis using ls.update_law [OF pi, of ?p ?i _ r p] by (intro exI [of _ p]) (auto split: sum.splits)
      next
        case c: (Some at0)
        then show ?thesis using run' named get Some pi
          by (intro exI [of _ ?L]) (auto simp: sources_MarkCancelled_def fs_lifecycle_writer_def io_try_def io_fail_def)
      qed
    qed
  qed
  then obtain p where t: "t = s\<lparr>fs_responseLifecycles := p\<rparr>" and p: "pinv p"
    and new: "case r of Inr _ \<Rightarrow> \<exists>lc. pabs p = upd2 (pabs ?L) ?p ?i (Some lc) \<and> lc_CancelledAt lc \<noteq> None
         | Inl _ \<Rightarrow> pabs p = pabs ?L" by blast
  have "srv_lifecycles t = srv_lifecycles s" "srv_controls t = srv_controls s" by (simp_all add: t srv_lifecycles_def srv_controls_def)
  moreover have "stores_ok t" using inv p by (simp add: stores_ok_def t srv_inv_def)
  ultimately show ?thesis using new
    by (cases r) (auto simp: t exec_links_def cancel_marked_def beside_def unlinked_lifecycles_def response_stored_def upd2_apply)
qed

interpretation rv: revision_writers "server_writers src cfg build ctx clock" "replacement_of e frp g" old stores_ok exec_at
    exec_links "response_stored e (g_ID g)" "cancel_marked old" "beside e (g_ID g) old"
  for src cfg build ctx clock e frp g old
proof unfold_locales
  fix s t :: fleet_server and c m r reason now
  assume s: "stores_ok s"
  show "stores_ok t \<and> response_stored e (g_ID g) t = response_stored e (g_ID g) s \<and>
      cancel_marked old t = cancel_marked old s \<and> beside e (g_ID g) old t = beside e (g_ID g) old s \<and>
      (case r of Inl er \<Rightarrow> exec_links t = exec_links s \<or> \<not> nothing_written er \<and> exec_links t = (exec_links s)(exec_at c \<mapsto> m)
         | Inr _ \<Rightarrow> exec_links t = (exec_links s)(exec_at c \<mapsto> m))"
    if "w_relink (server_writers src cfg build ctx clock) c m s = (r, t)"
    using server_relink [OF s that, of e "g_ID g" old] by (auto simp: response_stored_def cancel_marked_def split: sum.splits)
qed (rule server_create, assumption+, rule server_delete, assumption+, rule server_mark, assumption+)

section \<open>Properties\<close>

text \<open>
  C36: the check of a revision. \<open>fitsRevision\<close> adds the executions one at a time; it accepts
  exactly when all of them together fit the new grant, and otherwise names the first one at which
  the executions so far stop fitting.
\<close>

theorem fitsRevision_exact:
  assumes "wf_grant nxt" and "\<forall>c \<in> set execs. wf_control c"
  shows "case fitsRevision nxt execs of
      None \<Rightarrow> fits_bounds nxt execs
    | Some e \<Rightarrow> \<not> fits_bounds nxt execs \<and> (execs \<noteq> [] \<longrightarrow>
        (\<exists>i < length execs. (\<forall>k. 0 < k \<longrightarrow> k \<le> i \<longrightarrow> fits_bounds nxt (take k execs)) \<and>
          \<not> fits_bounds nxt (take (Suc i) execs) \<and> (\<exists>code. e = ConflictError code (c_MRID (execs ! i)))))"
proof (cases "fitsRevision nxt execs")
  case None
  then show ?thesis using fitsRevision_None [OF assms] by simp
next
  case (Some e)
  then have "\<not> fits_bounds nxt execs" using fitsRevision_None [OF assms] by simp
  then show ?thesis using Some fitsRevision_Some [OF assms] by simp
qed

theorem fitsRevision_exact_witness:
  "fits_bounds sample_grant [sample_control ''A'' 1000 1800] \<and>
   \<not> fits_bounds sample_grant [sample_control ''A'' 1000 60, sample_control ''B'' 1030 60]"
proof
  have wf: "wf_grant sample_grant" "\<forall>c \<in> set [sample_control ''A'' 1000 1800]. wf_control c"
    "\<forall>c \<in> set [sample_control ''A'' 1000 60, sample_control ''B'' 1030 60]. wf_control c" by code_simp+
  have "fitsRevision sample_grant [sample_control ''A'' 1000 1800] = None" by code_simp
  with fitsRevision_exact [OF wf(1,2)] show "fits_bounds sample_grant [sample_control ''A'' 1000 1800]" by simp
  have "fitsRevision sample_grant [sample_control ''A'' 1000 60, sample_control ''B'' 1030 60]
      = Some (ConflictError ConflictPower ''B'')" by code_simp
  with fitsRevision_exact [OF wf(1,3)]
  show "\<not> fits_bounds sample_grant [sample_control ''A'' 1000 60, sample_control ''B'' 1030 60]" by simp
qed

text \<open>
  C34: the writes of a revision. When they succeed the revision is stored, every execution names
  it and the old grant is marked cancelled. An error that is not \<open>ErrUndo\<close> leaves the stores as
  they were; after \<open>ErrUndo\<close> the old grant is not marked and an execution that names the revision
  finds it stored. Nothing else changes in any case.
\<close>

theorem revision_all_or_nothing:
  assumes "stores_ok s" and "NewReplacement response_Create response_Delete e frp = Inr rep"
    and "\<forall>c \<in> set execs. exec_links s (exec_at c) = Some (g_MRID old)"
    and "reviseWrites (server_writers src cfg build ctx clock) old rep execs reason now s = (r, t)"
  shows "stores_ok t \<and> beside e (g_ID (r_Grant rep)) old t = beside e (g_ID (r_Grant rep)) old s \<and>
    (case r of
       Inr _ \<Rightarrow> response_stored e (g_ID (r_Grant rep)) t \<and> cancel_marked old t \<and>
         (\<forall>k. exec_links t k = (if k \<in> exec_at ` set execs then Some (g_MRID (r_Grant rep)) else exec_links s k))
     | Inl er \<Rightarrow> cancel_marked old t = cancel_marked old s \<and>
         (exec_links t = exec_links s \<and> response_stored e (g_ID (r_Grant rep)) t = response_stored e (g_ID (r_Grant rep)) s \<or>
          err_is er ErrUndo \<and>
          (\<forall>k. exec_links t k = exec_links s k \<or>
             k \<in> exec_at ` set execs \<and> exec_links t k = Some (g_MRID (r_Grant rep)) \<and>
             response_stored e (g_ID (r_Grant rep)) t)))"
proof -
  from assms(2) obtain g where rep: "rep = replacement_of e frp g"
    by (auto simp: NewReplacement_eq split: sum.splits)
  then have g: "r_Grant rep = g" by simp
  from rv.reviseWrites_law [OF assms(1,3) assms(4) [unfolded rep]] show ?thesis
    unfolding g rv.revision_undone_def r_Grant_replacement by (cases r) simp_all
qed

definition sample_revision :: FlowReservationResponse where
  "sample_revision = sample_response\<lparr>frp_MRID := ''F2'', frp_Href := ''/edev/7/frp/4'', frp_CreationTime := 960\<rparr>"

definition sample_old_grant :: grant where
  "sample_old_grant =
     \<lparr>g_MRID = ''F1'', g_ID = ''3'', g_EndDeviceID = ''7'', g_FleetKey = ''AB'',
      g_Window = Some \<lparr>Start = 9000, Duration = 600\<rparr>, g_Energy = None, g_Power = None, g_CancelledAt = None,
      g_Subject = [], g_CreationTime = 950\<rparr>"

text \<open>A server whose control executes the grant that is revised.\<close>

definition sample_link :: LifecycleRecord where
  "sample_link = zero_lifecycle\<lparr>lc_GrantMRID := ''F1''\<rparr>"

definition sample_linked :: fleet_server where
  "sample_linked = sample_fleet\<lparr>sv_lifecycles := snd (L_Create (Key sample_scope) ''9'' sample_link (empty_pstore [] []))\<rparr>"

definition sample_execution :: control where
  "sample_execution =
     \<lparr>c_MRID = ''0A'', c_ID = ''9'', c_Scope = ''7/2/1'', c_EndDeviceID = ''7'', c_FleetKey = ''AB'',
      c_Window = \<lparr>Start = 900, Duration = 3600\<rparr>, c_GrantMRID = ''F1'', c_TargetW = None, c_Reach = 1,
      c_Cancelled = False, c_FleetTotal = False\<rparr>"

lemma sample_linked_lifecycles:
  "pinv (sv_lifecycles sample_linked)" "faults (sv_lifecycles sample_linked) = []"
  "srv_lifecycles sample_linked = upd2 (\<lambda>_ _. None) (Key sample_scope) ''9'' (Some sample_link)"
proof -
  let ?s = "empty_pstore [] [] :: LifecycleRecord pstore"
  have "indexed ?s" using empty_stores_inv(2) [where 'a = LifecycleRecord] by (simp add: pinv_def)
  from L_Create_eq [OF this, of "Key sample_scope" "''9''" sample_link]
  have r: "fst (L_Create (Key sample_scope) ''9'' sample_link ?s) = Inr ()"
    and f: "faults (snd (L_Create (Key sample_scope) ''9'' sample_link ?s)) = []"
    by (simp_all add: pabs_def empty_index empty_pstore_def flushed_def Let_def)
  have sv: "sv_lifecycles sample_linked = snd (L_Create (Key sample_scope) ''9'' sample_link ?s)"
    by (simp add: sample_linked_def)
  from r have e: "L_Create (Key sample_scope) ''9'' sample_link ?s = (Inr (), sv_lifecycles sample_linked)"
    by (metis prod.collapse sv)
  from ls.create_ok [OF empty_stores_inv(2) e]
  show "pinv (sv_lifecycles sample_linked)"
    and "srv_lifecycles sample_linked = upd2 (\<lambda>_ _. None) (Key sample_scope) ''9'' (Some sample_link)"
    by (simp_all add: srv_lifecycles_def pabs_def empty_pstore_def empty_lookup)
  show "faults (sv_lifecycles sample_linked) = []" using f sv by simp
qed

lemma sample_linked_inv: "srv_inv sample_linked" "healthy sample_linked" "stores_ok sample_linked"
proof -
  have c: "sv_controls sample_linked = sv_controls sample_server" by (simp add: sample_linked_def sample_fleet_def)
  show s: "srv_inv sample_linked" "healthy sample_linked"
    by (simp_all add: srv_inv_def healthy_def sample_linked_lifecycles c sample_controls)
  then show "stores_ok sample_linked" by (simp add: stores_ok_def) (simp add: sample_linked_def sample_fleet_def empty_stores_inv)
qed

lemma sample_scope_key: "Key sample_scope = ''7/2/1''" "controlScope sample_execution = Inr sample_scope"
  by code_simp+

lemma sample_relinks:
  "\<exists>t. w_relink (server_writers sample_src sample_cfg sample_build (\<lambda>_. None) 1000) sample_execution ''F2''
     (sample_linked\<lparr>fs_responses := p\<rparr>) = (Inr (), t) \<and> fs_responseLifecycles t = empty_pstore [] []"
proof -
  let ?s = "sample_linked\<lparr>fs_responses := p\<rparr>" and ?i = "server_issuer sample_src sample_cfg sample_build :: (fleet_server, unit) Issuer"
  have inv: "srv_inv ?s" "healthy ?s" using sample_linked_inv(1,2) by (simp_all add: srv_inv_def healthy_def)
  have here: "srv_controls ?s (Key sample_scope) ''9'' = Some sample_old" "srv_lifecycles ?s (Key sample_scope) ''9'' = Some sample_link"
    using sample_controls(3) sample_linked_lifecycles(3)
    by (simp_all add: srv_controls_def srv_lifecycles_def sample_linked_def sample_fleet_def upd2_apply)
  obtain t where up: "on_lifecycles (L_Update (Key sample_scope) ''9'' (sample_link\<lparr>lc_GrantMRID := ''F2''\<rparr>)) ?s = (Inr (), t)"
    using server_lifecycle_total(2) [OF inv, of "Key sample_scope" "''9''"] here(2) by fastforce
  then have frame: "fs_responseLifecycles t = empty_pstore [] []"
    by (auto simp: on_lifecycles_def sample_linked_def sample_fleet_def split: prod.splits)
  from up have "Relink ?i (\<lambda>_. None) sample_scope ''9'' ''F2'' ?s = ((sample_link\<lparr>lc_GrantMRID := ''F2''\<rparr>, None), t)"
    using sv.load_pair_eq [OF inv(1), of sample_src sample_cfg sample_build sample_scope "''9''"] here
    by (simp add: Relink_def sample_link_def server_issuer_def Let_def)
  then have "w_relink (server_writers sample_src sample_cfg sample_build (\<lambda>_. None) 1000) sample_execution ''F2'' ?s = (Inr (), t)"
    using sample_scope_key(2) by (simp add: w_relink_def server_writers_def NewWriters_def sample_execution_def)
  with frame show ?thesis by blast
qed

lemma sample_marks:
  assumes "fs_responseLifecycles s = empty_pstore [] []"
  shows "\<exists>t. w_mark (server_writers src cfg build ctx clock) sample_old_grant reason now s = (Inr (), t)"
proof -
  let ?s = "empty_pstore [] [] :: LifecycleRecord pstore"
  have "indexed ?s" using empty_stores_inv(2) [where 'a = LifecycleRecord] by (simp add: pinv_def)
  from L_Create_eq [OF this] have c: "\<exists>p. L_Create ''7'' ''3'' lc ?s = (Inr (), p)" for lc
    by (simp add: empty_index empty_pstore_def)
  have g: "L_Get ''7'' ''3'' ?s = (Inl ErrNotFound, ?s)"
    using ls.get_law [OF empty_stores_inv(2), of "''7''" "''3''"] by (simp add: pabs_def empty_pstore_def empty_lookup)
  obtain p where "L_Create ''7'' ''3'' (zero_lifecycle\<lparr>lc_CancelledAt := Some now, lc_CancelReason := reason\<rparr>) ?s = (Inr (), p)"
    using c by blast
  with g show ?thesis
    by (simp add: w_mark_def server_writers_def NewWriters_def sources_MarkCancelled_def fs_lifecycle_writer_def
        on_responseLifecycles_def io_try_def sample_old_grant_def assms)
qed

theorem revision_all_or_nothing_witness:
  "\<exists>rep t. NewReplacement response_Create response_Delete ''7'' sample_revision = Inr rep \<and>
     exec_links sample_linked (exec_at sample_execution) = Some ''F1'' \<and>
     reviseWrites (server_writers sample_src sample_cfg sample_build (\<lambda>_. None) 1000) sample_old_grant rep
       [sample_execution] ''revised'' 1000 sample_linked = (Inr (), t) \<and>
     response_stored ''7'' ''4'' t \<and> cancel_marked sample_old_grant t \<and> exec_links t (exec_at sample_execution) = Some ''F2''"
proof -
  let ?w = "server_writers sample_src sample_cfg sample_build (\<lambda>_. None) 1000"
  have "\<exists>g. grantFields ''7'' sample_revision = Inr g \<and> g_ID g = ''4'' \<and> g_MRID g = ''F2''"
  proof -
    have "ResponseID ''7'' ''/edev/7/frp/4'' = Some ''4''" by code_simp
    then show ?thesis by (simp add: grantFields_def sample_revision_def)
  qed
  then obtain g where g: "grantFields ''7'' sample_revision = Inr g" "g_ID g = ''4''" "g_MRID g = ''F2''" by blast
  let ?rep = "replacement_of ''7'' sample_revision g"
  have new: "NewReplacement response_Create response_Delete ''7'' sample_revision = Inr ?rep" by (simp add: NewReplacement_eq g)
  have "indexed (fs_responses sample_linked)" using sample_linked_inv(3) by (simp add: stores_ok_def pinv_def)
  from P_Create_eq [OF this, of "''7''" "''4''" sample_revision]
  obtain p where "P_Create ''7'' ''4'' sample_revision (fs_responses sample_linked) = (Inr (), p)"
    by (auto simp: sample_linked_def sample_fleet_def empty_pstore_def empty_lookup)
  then have c: "rep_create ?rep sample_linked = (Inr (), sample_linked\<lparr>fs_responses := p\<rparr>)"
    by (simp add: rep_create_def replacement_of_def response_Create_def io_map_err_def g)
  obtain u where u: "w_relink ?w sample_execution ''F2'' (sample_linked\<lparr>fs_responses := p\<rparr>) = (Inr (), u)"
    "fs_responseLifecycles u = empty_pstore [] []"
    using sample_relinks by blast
  obtain t where "w_mark ?w sample_old_grant ''revised'' 1000 u = (Inr (), t)"
    using sample_marks [OF u(2)] by blast
  with c u have run: "reviseWrites ?w sample_old_grant ?rep [sample_execution] ''revised'' 1000 sample_linked = (Inr (), t)"
    by (simp add: reviseWrites_def io_run g io_try_def io_return_def)
  have link: "exec_links sample_linked (exec_at sample_execution) = Some ''F1''"
    using sample_scope_key(1)
    by (simp add: exec_links_def exec_at_def sample_execution_def sample_linked_lifecycles upd2_apply sample_link_def)
  then have on_old: "\<forall>c \<in> set [sample_execution]. exec_links sample_linked (exec_at c) = Some (g_MRID sample_old_grant)"
    by (simp add: sample_old_grant_def)
  note law = revision_all_or_nothing [OF sample_linked_inv(3) new on_old run, unfolded sum.case r_Grant_replacement g(2,3)]
  have "exec_links t (exec_at sample_execution) = Some ''F2''" using law by (metis image_eqI list.set_intros(1))
  with law new run link show ?thesis by blast
qed

end
