(* ===== verification/Spec2Isabelle.thy ===== *)
theory Spec2Isabelle
  imports SplitTargets Fanout Devices LockOrder Revisions
begin

text \<open>
  A model of the core of the IEEE 2030.5 server in \<open>src/\<close>: how it issues, supersedes, cancels and
  serves DER controls, how it keeps what it promised to a fleet of devices, and the stores under
  both. The HTTP handlers, the TLS listeners, the XML schema types and the other function sets of
  the standard are around this core and outside the model.

  \<^bold>\<open>The parts and how they interact.\<close> A request for a DER control reaches the handler
  (\<open>internal/handler/admin_dercontrol.go\<close>). It resolves the fleet of the device
  (\<open>internal/commitment/resolver.go\<close>, over the EndDevice store and the management pairs), takes the
  fleet's lock in the ledger (\<open>internal/commitment/ledger.go\<close>) and calls the issuer
  (\<open>internal/dercontrol\<close>). The issuer takes the lock of the scope, reads the controls there, mints
  an mRID, plans which older controls the new one supersedes, lets the ledger check the plan
  against the grants and controls of the fleet, and writes the lifecycle record, the control and
  the marks, undoing all of it when a write fails. A fan-out does this for several controls and
  scopes in one call, a replication for copies a scope lacks. A flow reservation answer passes the
  gate (\<open>internal/flowreservation/gate.go\<close>), which checks it under the same lock; the ledger also
  cancels and revises grants with their executions. The stores keep an index and a snapshot file
  beside their records and roll all three back when the file cannot be written.

  \<^bold>\<open>How the code is modelled.\<close> An operation is a function on an explicit state that returns an
  error or a value with the new state (\<open>io\<close> of \<open>Prelude\<close>); an error is a value of \<open>err\<close>
  (\<open>Errors\<close>) with what it wraps, so that \<open>errors.Is\<close> and \<open>errors.As\<close> are functions on it. Seconds
  are \<open>int\<close> with the wrap of an int64 written out (\<open>wrap64\<close>), durations and list counts are
  \<open>32 word\<close>, strings are byte lists. A snapshot file is the list of records it holds; a script of
  Booleans says which of the writes to come fail, so a statement about every script is one about
  every pattern of disk failures. The clock and the context are arguments. What the code takes as
  an interface (a randomness source, the builder of a control base, a record writer, a check) is an
  argument with its documented contract as a hypothesis.

  \<^bold>\<open>The theories.\<close>
  \<^item> \<open>Prelude\<close>, \<open>Errors\<close>: the state and error monad, int64 arithmetic, binary search and sorted
    slices, the order in which locks are taken; the error values.
  \<^item> \<open>Interval\<close>, \<open>Magnitude\<close>, \<open>FitsGrant\<close>: \<open>internal/interval\<close>, \<open>window.go\<close>, \<open>magnitude.go\<close> and
    \<open>fitsgrant.go\<close> of \<open>internal/commitment\<close>. The window tests, the exact comparison of scaled sums
    and the rule one grant puts on its executions are shown equal to their meaning on seconds and
    rationals.
  \<^item> \<open>Ledger\<close>, \<open>Operations\<close>, \<open>OperationsLaws\<close>: \<open>ledger.go\<close> and \<open>operations.go\<close>. The locale
    \<open>commitment_sources\<close> states what the ledger relies on of its sources, and that a checked write
    keeps the rule of the fleet; \<open>revision_writers\<close> what a revision relies on of its writers.
  \<^item> \<open>Href\<close>, \<open>GoText\<close>, \<open>SplitTargets\<close>: hrefs and scope keys (\<open>internal/derhref\<close>), store ids and mRIDs
    (\<open>id.go\<close>, \<open>internal/mrid\<close>) with the parts of Go's \<open>strings\<close>, \<open>fmt\<close> and \<open>hex\<close> they use, and the
    split of a target over devices (\<open>split.go\<close>).
  \<^item> \<open>MemStore\<close>, \<open>PersistStore\<close>, \<open>ControlStores\<close>: the collections of \<open>pkg/store/memory\<close> and the
    lifecycle store. The locales \<open>scoped_store\<close> and \<open>rollback_store\<close> are the contract of a
    collection as a map of two keys; the persistent, the lifecycle and the control store
    interpret them.
  \<^item> \<open>Lifecycle\<close>: lifecycle records, the served status and the state the server acts on
    (\<open>lifecycle.go\<close>, \<open>status.go\<close>, \<open>state.go\<close>, \<open>status_store.go\<close>).
  \<^item> \<open>Issuer\<close>, \<open>IssuerLaws\<close>, \<open>Server\<close>: \<open>issuer.go\<close>, \<open>link.go\<close>, \<open>retire.go\<close>. The locale
    \<open>issuer_stores\<close> relates every operation and every undo to a function of the two maps;
    \<open>writable_stores\<close> adds when a call succeeds. \<open>Server\<close> interprets both on the server's own stores.
  \<^item> \<open>Across\<close>, \<open>AcrossLaws\<close>, \<open>AcrossCalls\<close>, \<open>Replication\<close>, \<open>Fanout\<close>: \<open>across.go\<close>. The invariant of a
    running fan-out, the contract of a whole call, and the replication, again on the server's stores.
  \<^item> \<open>Management\<close>, \<open>ManagementLaws\<close>, \<open>Devices\<close>: the management pairs, the EndDevice store, owners and
    fleets.
  \<^item> \<open>Sources\<close>, \<open>FleetServer\<close>, \<open>Commit\<close>, \<open>CommitLaws\<close>, \<open>FleetRule\<close>, \<open>Revisions\<close>: the ledger's sources
    and writers (\<open>internal/commitment/sources\<close>) over all stores of the server in one state, the gate
    and the handler, and that each of their writes keeps the rule of every fleet.
  \<^item> \<open>LockOrder\<close>: the fleet and scope locks of all calls, interleaved.

  \<^bold>\<open>What is shown.\<close> Writes are all or nothing: on success the stores are exactly the earlier ones
  with the planned changes, on a plain error they are the earlier ones, and what remains after a
  failed undo is a legal state. Indexes, files and records agree after every call, and a restart
  serves what was stored. Checked writes keep the rule of every fleet: no two live grants overlap, no
  plain control overlaps a live grant, and the executions of a grant fit it in power and energy at
  every second. The calls never deadlock, and no other call's write to a fleet or scope comes between
  a check there and the write it allows. The loops return: they are structural recursions or have a proved measure, except the draw
  of an mRID, which is an \<open>option\<close> that is shown to return once one draw is not the reserved form.

  \<^bold>\<open>Bounds.\<close> Windows are assumed to end within an int64, lists to have fewer than \<open>2 ^ 32\<close> entries
  (Go counts them in a uint32), a split to be of at most \<open>8 * 10 ^ 18\<close> units. A control with no
  lifecycle record is not superseded by the issuer, and the statements say so.

  \<^bold>\<open>What two statements show of the code.\<close> In a fan-out the mark of the last copy wins, so an older
  control stays in force until that copy starts although an earlier item of the same call replaces
  it. Deleting the later of two devices stored under one LFDI leaves the earlier one without an index
  entry.

  \<^bold>\<open>What is not modelled.\<close> The JSON codecs and the rename of a temporary file; the mutexes inside the
  stores, whose operations are single steps; the catalogue of functions that builds a control base; the queue, the recovery and the retention of flow
  reservations; FSA programs and their records; handlers, authentication, metering, discovery and
  configuration. They are wiring, input and output, or function sets with no bearing on the rules
  above.
\<close>

end
